(* ===== verification/Prelude.thy ===== *)
theory Prelude
  imports Main "HOL-Library.Word" "HOL-Library.While_Combinator"
begin

text \<open>
  Shared vocabulary of the development: machine integers, the constants and enumerations of
  \<^verbatim>\<open>kernel/include/types.h\<close>, C arrays, the conventions for errors and for undefined
  behaviour, and the generic lemmas every component uses.

  Conventions.
  \<^item> \<open>uint8_t\<close> .. \<open>uint64_t\<close>, \<open>size_t\<close> and \<open>uintptr_t\<close> are \<open>8\<close> .. \<open>64 word\<close>; arithmetic wraps.
  \<^item> A C array of fixed size is a function from its index (\<open>'a arr\<close>). An access whose index is not
    known to be in range is guarded, and the out-of-range branch is undefined behaviour.
  \<^item> A pointer parameter that the code tests against \<open>NULL\<close> is an \<open>option\<close>, \<open>None\<close> being \<open>NULL\<close>.
  \<^item> An operation that returns a \<^verbatim>\<open>kerror_t\<close> and changes nothing when it fails has the result type
    \<open>kerror_t + 'a\<close>: \<open>Inl e\<close> is the error \<open>e\<close> with every object unchanged, \<open>Inr x\<close> is
    \<^verbatim>\<open>ERR_OK\<close> with the new objects \<open>x\<close>.
  \<^item> Undefined behaviour (an access outside an array, a dereference of \<open>NULL\<close>, a division by zero)
    and a loop that does not end are \<open>None\<close> of an \<open>option\<close> around the result.
\<close>

unbundle bit_operations_syntax

named_theorems rights_simps \<open>rewriting of rights masks\<close>
named_theorems zero_simps \<open>fields of objects cleared by memset\<close>

subsection \<open>Machine integers and arrays\<close>

type_synonym u8 = "8 word"
type_synonym u16 = "16 word"
type_synonym u32 = "32 word"
type_synonym u64 = "64 word"

type_synonym 'a arr = "nat \<Rightarrow> 'a"

lemma unat_less_2p64: "unat (x :: u64) < 2 ^ 64"
  by (rule order.strict_trans2[OF unsigned_less]) simp

lemma unat_le_2p64 [simp]: "unat (x :: u64) \<le> 18446744073709551616"
  using unat_less_2p64[of x] by simp

lemma and_mask_small:
  fixes x :: "'a::len word"
  assumes "unat x < 2 ^ n"
  shows "x AND mask n = x"
proof -
  have "unat (take_bit n x) = unat x"
    using assms by (simp add: unsigned_take_bit_eq take_bit_nat_eq_self)
  then show ?thesis by (simp add: take_bit_eq_mask word_unat_eq_iff)
qed

lemma unat_ucast_up:
  fixes x :: "'a::len word"
  assumes "LENGTH('a) \<le> LENGTH('b)"
  shows "unat (ucast x :: 'b::len word) = unat x"
proof -
  have "unat x < 2 ^ LENGTH('b)"
    by (rule order.strict_trans2[OF unsigned_less]) (simp add: assms)
  then show ?thesis by (simp add: unsigned_ucast_eq take_bit_nat_eq_self)
qed

lemma unat_u8_less: "unat (x :: u8) < 256"
  using unsigned_less[of x, where ?'a = nat] by simp

subsection \<open>Constants of types.h\<close>

abbreviation (input) PAGE_SIZE :: u64 where "PAGE_SIZE \<equiv> 4096"
abbreviation (input) MAX_PARTITIONS :: u32 where "MAX_PARTITIONS \<equiv> 8"
abbreviation (input) IPC_MSG_MAX :: u32 where "IPC_MSG_MAX \<equiv> 30"
abbreviation (input) IPC_CAPS_MAX :: u32 where "IPC_CAPS_MAX \<equiv> 3"

type_synonym ticks_t = u64
type_synonym asid_t = u32
type_synonym cptr_t = u32

datatype kerror_t =
    ERR_OK
  | ERR_INVALID_CAP
  | ERR_NO_RIGHTS
  | ERR_INVALID_ARG
  | ERR_NO_MEM
  | ERR_REVOKE_NEEDED
  | ERR_OVERFLOW
  | ERR_PARTITION_DENIED
  | ERR_WCET_EXCEEDED

text \<open>The value of the enumeration constant, as it is stored in a register.\<close>

fun kerror_val :: "kerror_t \<Rightarrow> u64" where
  "kerror_val ERR_OK = 0"
| "kerror_val ERR_INVALID_CAP = 1"
| "kerror_val ERR_NO_RIGHTS = 2"
| "kerror_val ERR_INVALID_ARG = 3"
| "kerror_val ERR_NO_MEM = 4"
| "kerror_val ERR_REVOKE_NEEDED = 5"
| "kerror_val ERR_OVERFLOW = 6"
| "kerror_val ERR_PARTITION_DENIED = 7"
| "kerror_val ERR_WCET_EXCEEDED = 8"

record ipc_msg_t =
  msg_label :: u32
  msg_length :: u32
  msg_caps :: u32
  msg_words :: "u64 arr"
  msg_cap_ptrs :: "cptr_t arr"

definition zero_msg :: ipc_msg_t where
  "zero_msg = \<lparr>msg_label = 0, msg_length = 0, msg_caps = 0,
     msg_words = (\<lambda>_. 0), msg_cap_ptrs = (\<lambda>_. 0)\<rparr>"

subsection \<open>Error results\<close>

text \<open>The error code an operation returns, whatever it computes.\<close>

fun kerr :: "kerror_t + 'a \<Rightarrow> kerror_t" where
  "kerr (Inl e) = e"
| "kerr (Inr _) = ERR_OK"

lemma sum_if_Inr [simp]:
  "(if b then Inl e else r) = Inr x \<longleftrightarrow> \<not> b \<and> r = Inr x"
  "(if b then r else Inl e) = Inr x \<longleftrightarrow> b \<and> r = Inr x"
  by auto

lemma some_if [simp]:
  "(if b then None else r) = Some x \<longleftrightarrow> \<not> b \<and> r = Some x"
  "(if b then r else None) = Some x \<longleftrightarrow> b \<and> r = Some x"
  by auto

subsection \<open>Rights masks\<close>

text \<open>
  The kernel tests \<^verbatim>\<open>(new & ~old) != 0\<close> to refuse a gain of rights and
  \<^verbatim>\<open>(have & need) == need\<close> to require them. Both are inclusions of bit sets.
\<close>

definition subrights :: "'a::len word \<Rightarrow> 'a word \<Rightarrow> bool" where
  "subrights a b \<longleftrightarrow> (\<forall>n. bit a n \<longrightarrow> bit b n)"

lemma and_not_eq_0_iff [rights_simps]:
  fixes a b :: "'a::len word"
  shows "a AND NOT b = 0 \<longleftrightarrow> subrights a b"
proof -
  have "a AND NOT b = 0 \<longleftrightarrow> (\<forall>n. n < LENGTH('a) \<longrightarrow> \<not> (bit a n \<and> \<not> bit b n))"
    by (auto simp: bit_eq_iff bit_simps)
  also have "\<dots> \<longleftrightarrow> subrights a b"
    by (auto simp: subrights_def dest: bit_imp_le_length)
  finally show ?thesis .
qed

lemma and_eq_right_iff [rights_simps]:
  fixes a b :: "'a::len word"
  shows "b AND a = a \<longleftrightarrow> subrights a b"
proof -
  have "b AND a = a \<longleftrightarrow> (\<forall>n. n < LENGTH('a) \<longrightarrow> (bit b n \<and> bit a n \<longleftrightarrow> bit a n))"
    by (auto simp: bit_eq_iff bit_simps)
  also have "\<dots> \<longleftrightarrow> subrights a b"
    by (auto simp: subrights_def dest: bit_imp_le_length)
  finally show ?thesis .
qed

lemma subrights_refl [simp]: "subrights a a"
  by (simp add: subrights_def)

lemma subrights_trans: "subrights a b \<Longrightarrow> subrights b c \<Longrightarrow> subrights a c"
  by (simp add: subrights_def)

lemma subrights_antisym: "subrights a b \<Longrightarrow> subrights b a \<Longrightarrow> a = b"
  by (auto simp: subrights_def bit_eq_iff)

lemma subrights_zero [simp]: "subrights 0 a"
  by (simp add: subrights_def)

subsection \<open>Counting over array prefixes\<close>

text \<open>How many of the first \<open>n\<close> elements of an array satisfy a predicate.\<close>

definition count_upto :: "nat \<Rightarrow> (nat \<Rightarrow> bool) \<Rightarrow> nat" where
  "count_upto n P = card {i. i < n \<and> P i}"

lemma count_upto_le: "count_upto n P \<le> n"
proof -
  have "card {i. i < n \<and> P i} \<le> card {..<n}"
    by (rule card_mono) auto
  then show ?thesis by (simp add: count_upto_def)
qed

lemma count_upto_cong: "(\<And>i. i < n \<Longrightarrow> P i = Q i) \<Longrightarrow> count_upto n P = count_upto n Q"
  unfolding count_upto_def by (rule arg_cong[where f = card]) auto

lemma count_upto_none [simp]: "count_upto n (\<lambda>_. False) = 0"
  by (simp add: count_upto_def)

lemma count_upto_set:
  assumes "i < n" "\<not> P i" "Q i" "\<And>j. j \<noteq> i \<Longrightarrow> Q j = P j"
  shows "count_upto n Q = Suc (count_upto n P)"
proof -
  have "{j. j < n \<and> Q j} = insert i {j. j < n \<and> P j}"
  proof (rule set_eqI)
    fix j show "j \<in> {j. j < n \<and> Q j} \<longleftrightarrow> j \<in> insert i {j. j < n \<and> P j}"
      by (cases "j = i") (use assms in auto)
  qed
  then show ?thesis using assms(2) by (simp add: count_upto_def)
qed

lemma count_upto_clear:
  assumes "i < n" "P i" "\<not> Q i" "\<And>j. j \<noteq> i \<Longrightarrow> Q j = P j"
  shows "count_upto n P = Suc (count_upto n Q)"
  by (rule count_upto_set[where i = i]) (use assms in auto)

lemma count_upto_full:
  assumes "count_upto n P = n" "i < n"
  shows "P i"
proof (rule ccontr)
  assume "\<not> P i"
  then have "{j. j < n \<and> P j} \<subset> {..<n}" using assms(2) by auto
  then have "card {j. j < n \<and> P j} < card {..<n}" by (rule psubset_card_mono[rotated]) simp
  then show False using assms(1) by (simp add: count_upto_def)
qed

lemma count_upto_pos: "i < n \<Longrightarrow> P i \<Longrightarrow> 0 < count_upto n P"
  unfolding count_upto_def by (rule card_gt_0_iff[THEN iffD2]) auto

subsection \<open>First index of an array that satisfies a predicate\<close>

text \<open>
  The shape of the kernel's linear searches,
  \<^verbatim>\<open>for (i = 0; i < n; i++) if (P(i)) { ... break; }\<close>.
\<close>

definition first_index :: "nat \<Rightarrow> (nat \<Rightarrow> bool) \<Rightarrow> nat option" where
  "first_index n P = find P [0..<n]"

lemma first_index_Some_iff:
  "first_index n P = Some i \<longleftrightarrow> i < n \<and> P i \<and> (\<forall>j<i. \<not> P j)"
proof
  assume "first_index n P = Some i"
  then show "i < n \<and> P i \<and> (\<forall>j<i. \<not> P j)"
    by (auto simp: first_index_def find_Some_iff)
next
  assume "i < n \<and> P i \<and> (\<forall>j<i. \<not> P j)"
  then show "first_index n P = Some i"
    by (auto simp: first_index_def find_Some_iff intro!: exI[of _ i])
qed

lemma first_index_None_iff: "first_index n P = None \<longleftrightarrow> (\<forall>i<n. \<not> P i)"
  by (auto simp: first_index_def find_None_iff)

lemma first_index_cong:
  "(\<And>i. i < n \<Longrightarrow> P i = Q i) \<Longrightarrow> first_index n P = first_index n Q"
  unfolding first_index_def by (rule find_cong) auto

subsection \<open>Runs of a state machine\<close>

text \<open>
  A component with state is a step function and an invariant every step keeps. What holds of
  every step then holds of every run; each component interprets this locale on its own
  operations.
\<close>

locale invariant_machine =
  fixes step :: "'s \<Rightarrow> 'op \<Rightarrow> 's"
    and inv :: "'s \<Rightarrow> bool"
  assumes step_inv: "inv s \<Longrightarrow> inv (step s a)"
begin

lemma run_inv: "inv s \<Longrightarrow> inv (foldl step s as)"
  by (induction as arbitrary: s) (auto intro: step_inv)

end

text \<open>The same for runs whose operations all satisfy a side condition.\<close>

locale guarded_machine =
  fixes step :: "'s \<Rightarrow> 'op \<Rightarrow> 's"
    and inv :: "'s \<Rightarrow> bool"
    and allowed :: "'op \<Rightarrow> bool"
  assumes step_inv: "inv s \<Longrightarrow> allowed a \<Longrightarrow> inv (step s a)"
begin

lemma run_inv: "inv s \<Longrightarrow> \<forall>a\<in>set as. allowed a \<Longrightarrow> inv (foldl step s as)"
  by (induction as arbitrary: s) (auto intro: step_inv)

end

subsection \<open>Loops and runs\<close>

lemma fold_store: "fold (\<lambda>i m. m(f i := v)) xs m = (\<lambda>a. if a \<in> f ` set xs then v else m a)"
  by (induction xs arbitrary: m) (auto simp: fun_eq_iff)

text \<open>The loop that waits for interrupts and never ends, at the end of the paths that stop the machine.\<close>

partial_function (option) wfi_loop :: "'s \<Rightarrow> 'r option" where
  "wfi_loop s = wfi_loop s"

lemma wfi_loop_None [simp]: "wfi_loop s = (None :: 'r option)"
proof (cases "wfi_loop s :: 'r option")
  case (Some r)
  from wfi_loop.raw_induct[OF _ this, of "\<lambda>_ _. False"] show ?thesis by blast
qed

text \<open>
  Machines whose steps may be undefined (\<open>None\<close>): every permitted step from a good state is defined
  and leads to a good state, so every permitted run is.
\<close>

fun run_steps :: "('s \<Rightarrow> 'op \<Rightarrow> 's option) \<Rightarrow> 's \<Rightarrow> 'op list \<Rightarrow> 's option" where
  "run_steps step s [] = Some s"
| "run_steps step s (a # as) = Option.bind (step s a) (\<lambda>s1. run_steps step s1 as)"

fun run_allowed :: "('s \<Rightarrow> 'op \<Rightarrow> 's option) \<Rightarrow> ('s \<Rightarrow> 'op \<Rightarrow> bool) \<Rightarrow> 's \<Rightarrow> 'op list \<Rightarrow> bool" where
  "run_allowed step allowed s [] \<longleftrightarrow> True"
| "run_allowed step allowed s (a # as) \<longleftrightarrow> allowed s a \<and>
     (case step s a of None \<Rightarrow> True | Some s1 \<Rightarrow> run_allowed step allowed s1 as)"

lemma run_allowed_static: "\<forall>a\<in>set as. P a \<Longrightarrow> run_allowed step (\<lambda>_. P) s as"
  by (induction as arbitrary: s) (auto split: option.splits)

locale checked_machine =
  fixes step :: "'s \<Rightarrow> 'op \<Rightarrow> 's option"
    and inv :: "'s \<Rightarrow> bool"
    and allowed :: "'s \<Rightarrow> 'op \<Rightarrow> bool"
  assumes step_safe: "inv s \<Longrightarrow> allowed s a \<Longrightarrow> \<exists>s1. step s a = Some s1 \<and> inv s1"
begin

lemma run_safe: "inv s \<Longrightarrow> run_allowed step allowed s as \<Longrightarrow> \<exists>s1. run_steps step s as = Some s1 \<and> inv s1"
proof (induction as arbitrary: s)
  case (Cons a as)
  then obtain s1 where "step s a = Some s1" "inv s1" using step_safe by fastforce
  then show ?case using Cons by simp
qed simp

end

text \<open>Machines whose defined steps keep an invariant, whether or not every step is defined.\<close>

locale partial_machine =
  fixes step :: "'s \<Rightarrow> 'op \<Rightarrow> 's option"
    and inv :: "'s \<Rightarrow> bool"
  assumes step_inv: "inv s \<Longrightarrow> step s a = Some s1 \<Longrightarrow> inv s1"
begin

lemma run_inv: "run_steps step s as = Some s1 \<Longrightarrow> inv s \<Longrightarrow> inv s1"
  by (induction as arbitrary: s) (auto simp: bind_eq_Some_conv intro: step_inv)

end

text \<open>The same for runs whose operations all satisfy a side condition.\<close>

locale guarded_partial_machine =
  fixes step :: "'s \<Rightarrow> 'op \<Rightarrow> 's option"
    and inv :: "'s \<Rightarrow> bool"
    and allowed :: "'op \<Rightarrow> bool"
  assumes step_inv: "inv s \<Longrightarrow> allowed a \<Longrightarrow> step s a = Some s1 \<Longrightarrow> inv s1"
begin

lemma run_inv: "run_steps step s as = Some s1 \<Longrightarrow> \<forall>a\<in>set as. allowed a \<Longrightarrow> inv s \<Longrightarrow> inv s1"
  by (induction as arbitrary: s) (auto simp: bind_eq_Some_conv intro: step_inv)

end

text \<open>
  Machines whose defined steps are steps of an abstract machine, seen through an abstraction of the
  state: their runs are runs of the abstract machine and keep its invariants.
\<close>

locale simulation =
  fixes step :: "'s \<Rightarrow> 'op \<Rightarrow> 's option"
    and abs :: "'s \<Rightarrow> 'a"
    and astep :: "'a \<Rightarrow> 'a \<Rightarrow> bool"
  assumes step_sim: "step s a = Some s1 \<Longrightarrow> astep (abs s) (abs s1)"
begin

lemma run_sim: "run_steps step s as = Some s1 \<Longrightarrow> astep\<^sup>*\<^sup>* (abs s) (abs s1)"
  by (induction as arbitrary: s) (auto simp: bind_eq_Some_conv intro: converse_rtranclp_into_rtranclp step_sim)

lemma run_abs_inv:
  assumes "run_steps step s as = Some s1" "I (abs s)" "\<And>x y. I x \<Longrightarrow> astep x y \<Longrightarrow> I y"
  shows "I (abs s1)"
  using run_sim[OF assms(1)] assms(2) by induction (auto intro: assms(3))

end

sublocale partial_machine \<subseteq> guarded: guarded_partial_machine step inv "\<lambda>_. True"
  by unfold_locales (rule step_inv)

sublocale invariant_machine \<subseteq> guarded: guarded_machine step inv "\<lambda>_. True"
  by unfold_locales (rule step_inv)

end
