(* ===== verification/Minilib.thy ===== *)
theory Minilib
  imports Prelude
begin

text \<open>
  The freestanding memory routines of \<^verbatim>\<open>kernel/src/minilib.c\<close> over a byte-addressed memory,
  as the byte loops the C code runs, with the closed forms the rest of the development relies on.
  Addresses are 64-bit and wrap, so a region is described by the offset from its start:
  the address \<open>a\<close> lies in the \<open>n\<close> bytes from \<open>p\<close> when \<open>unat (a - p) < n\<close>.
\<close>

type_synonym mem = "u64 \<Rightarrow> u8"

primrec memset_loop :: "nat \<Rightarrow> u8 \<Rightarrow> mem \<Rightarrow> u64 \<Rightarrow> mem" where
  "memset_loop 0 c m p = m"
| "memset_loop (Suc n) c m p = memset_loop n c (m(p := c)) (p + 1)"

definition memset :: "mem \<Rightarrow> u64 \<Rightarrow> u32 \<Rightarrow> u64 \<Rightarrow> mem" where
  "memset m s c n = memset_loop (unat n) (ucast c) m s"

primrec memcpy_loop :: "nat \<Rightarrow> mem \<Rightarrow> u64 \<Rightarrow> u64 \<Rightarrow> mem" where
  "memcpy_loop 0 m dd ss = m"
| "memcpy_loop (Suc n) m dd ss = memcpy_loop n (m(dd := m ss)) (dd + 1) (ss + 1)"

definition memcpy :: "mem \<Rightarrow> u64 \<Rightarrow> u64 \<Rightarrow> u64 \<Rightarrow> mem" where
  "memcpy m d s n = memcpy_loop (unat n) m d s"

primrec memcmp_loop :: "nat \<Rightarrow> mem \<Rightarrow> u64 \<Rightarrow> u64 \<Rightarrow> int" where
  "memcmp_loop 0 m aa bb = 0"
| "memcmp_loop (Suc n) m aa bb =
     (if m aa \<noteq> m bb then uint (m aa) - uint (m bb) else memcmp_loop n m (aa + 1) (bb + 1))"

definition memcmp :: "mem \<Rightarrow> u64 \<Rightarrow> u64 \<Rightarrow> u64 \<Rightarrow> int" where
  "memcmp m a b n = memcmp_loop (unat n) m a b"

text \<open>The value the stack protector compares with, and what it calls when they differ.\<close>

definition stack_chk_guard :: u64 where "stack_chk_guard = 0xDEADBEEF"

definition stack_chk_fail :: "mem \<Rightarrow> mem option" where "stack_chk_fail m = wfi_loop m"

subsection \<open>Regions\<close>

definition in_region :: "u64 \<Rightarrow> nat \<Rightarrow> u64 \<Rightarrow> bool" where
  "in_region p n a \<longleftrightarrow> unat (a - p) < n"

lemma unat_diff_Suc:
  fixes a p :: u64
  assumes "a \<noteq> p"
  shows "unat (a - p) = Suc (unat (a - (p + 1)))"
proof -
  have "a - p \<noteq> 0" using assms by simp
  then have "unat (a - p - 1) = unat (a - p) - 1" and "0 < unat (a - p)"
    by (simp_all add: unat_minus_one unat_gt_0)
  moreover have "a - p - 1 = a - (p + 1)" by simp
  ultimately show ?thesis by simp
qed

lemma in_region_step:
  assumes "a \<noteq> p"
  shows "in_region p (Suc n) a \<longleftrightarrow> in_region (p + 1) n a"
  using unat_diff_Suc[OF assms] by (simp add: in_region_def)

lemma in_region_start [simp]: "in_region p (Suc n) p"
  by (simp add: in_region_def)

lemma not_in_region_before: "Suc n \<le> 2 ^ 64 \<Longrightarrow> \<not> in_region (p + 1) n p"
proof -
  have "unat (p - (p + 1)) = 2 ^ 64 - 1"
    by (simp add: unsigned_minus_1_eq_mask mask_eq_exp_minus_1)
  then show "Suc n \<le> 2 ^ 64 \<Longrightarrow> \<not> in_region (p + 1) n p"
    by (simp add: in_region_def)
qed

lemma in_region_nowrap:
  "unat p + n \<le> 2 ^ 64 \<Longrightarrow> in_region p n a \<longleftrightarrow> unat p \<le> unat a \<and> unat a < unat p + n"
  using unat_less_2p64[of a] unat_less_2p64[of p]
  by (auto simp: in_region_def unat_sub_if')

subsection \<open>Closed forms of the loops\<close>

lemma memset_loop_eq:
  "n \<le> 2 ^ 64 \<Longrightarrow> memset_loop n c m p a = (if in_region p n a then c else m a)"
proof (induction n arbitrary: m p)
  case 0
  then show ?case by (simp add: in_region_def)
next
  case (Suc n)
  then have IH: "memset_loop n c (m(p := c)) (p + 1) a =
      (if in_region (p + 1) n a then c else (m(p := c)) a)"
    by simp
  show ?case
  proof (cases "a = p")
    case True
    then show ?thesis using IH not_in_region_before[OF Suc.prems, of p] by simp
  next
    case False
    then show ?thesis using IH by (simp add: in_region_step)
  qed
qed

lemma memset_eq: "memset m s c n a = (if in_region s (unat n) a then ucast c else m a)"
  using memset_loop_eq[of "unat n"] by (simp add: memset_def)

lemma memcpy_loop_eq:
  assumes "n \<le> 2 ^ 64" and "\<And>a. in_region d n a \<Longrightarrow> \<not> in_region s n a"
  shows "memcpy_loop n m d s a = (if in_region d n a then m (s + (a - d)) else m a)"
  using assms
proof (induction n arbitrary: m d s)
  case 0
  then show ?case by (simp add: in_region_def)
next
  case (Suc n)
  have sub: "in_region (p + 1) n b \<Longrightarrow> in_region p (Suc n) b" for p b
    by (cases "b = p") (auto simp: in_region_step)
  have disj: "in_region (d + 1) n b \<Longrightarrow> \<not> in_region (s + 1) n b" for b
    using Suc.prems(2)[of b] sub by blast
  have IH: "memcpy_loop n (m(d := m s)) (d + 1) (s + 1) a =
      (if in_region (d + 1) n a then (m(d := m s)) (s + 1 + (a - (d + 1))) else (m(d := m s)) a)"
    using Suc.IH[of "d + 1" "s + 1"] Suc.prems(1) disj by simp
  show ?case
  proof (cases "a = d")
    case True
    then show ?thesis using IH not_in_region_before[OF Suc.prems(1), of d] by simp
  next
    case False
    have src: "s + 1 + (a - (d + 1)) = s + (a - d)" by simp
    have "in_region s (Suc n) (s + (a - d))" if "in_region (d + 1) n a"
      using sub[OF that] by (simp add: in_region_def)
    then have "s + (a - d) \<noteq> d" if "in_region (d + 1) n a"
      using Suc.prems(2)[of d] that by (metis in_region_start)
    then show ?thesis using IH src False by (auto simp: in_region_step)
  qed
qed

lemma memcpy_frame_loop: "n \<le> 2 ^ 64 \<Longrightarrow> \<not> in_region d n a \<Longrightarrow> memcpy_loop n m d s a = m a"
proof (induction n arbitrary: m d s)
  case (Suc n)
  then have "a \<noteq> d" by auto
  then show ?case using Suc by (simp add: in_region_step)
qed simp

text \<open>Whatever the source, \<open>memcpy\<close> writes only its destination.\<close>

lemma memcpy_frame: "\<not> in_region d (unat n) a \<Longrightarrow> memcpy m d s n a = m a"
  using memcpy_frame_loop[of "unat n"] by (simp add: memcpy_def)

lemma memcmp_loop_zero:
  "memcmp_loop n m a b = 0 \<longleftrightarrow> (\<forall>i<n. m (a + of_nat i) = m (b + of_nat i))"
proof (induction n arbitrary: a b)
  case (Suc n)
  have shift: "(\<forall>i<Suc n. m (a + of_nat i) = m (b + of_nat i)) \<longleftrightarrow>
      m a = m b \<and> (\<forall>i<n. m (a + 1 + of_nat i) = m (b + 1 + of_nat i))"
    by (subst All_less_Suc2) (simp add: add.assoc)
  have "uint (m a) - uint (m b) = 0 \<longleftrightarrow> m a = m b"
    by (simp add: word_uint_eq_iff)
  then show ?case using Suc.IH[of "a + 1" "b + 1"] by (simp add: shift del: right_minus_eq)
qed simp

text \<open>
  (functional). \<open>memcpy\<close> between regions that do not overlap copies every byte of the source,
  in order, and leaves the rest of memory as it was.
\<close>

theorem memcpy_copies:
  assumes "\<And>a. in_region d (unat n) a \<Longrightarrow> \<not> in_region s (unat n) a"
  shows "memcpy m d s n a = (if in_region d (unat n) a then m (s + (a - d)) else m a)"
  using memcpy_loop_eq[of "unat n" d s m a] assms by (simp add: memcpy_def)

theorem memcpy_copies_witness:
  "memcpy (\<lambda>a. ucast a) 100 200 8 103 = 203"
proof -
  have "memcpy (\<lambda>a. ucast a) 100 200 8 103 =
      (if in_region 100 (unat (8 :: u64)) 103 then ucast (200 + (103 - 100) :: u64) else ucast (103 :: u64))"
    by (rule memcpy_copies) (simp add: in_region_nowrap)
  then show ?thesis by (simp add: in_region_def)
qed

text \<open>
  (functional). \<open>memcmp\<close> returns zero exactly when the two buffers hold the same bytes.
\<close>

theorem memcmp_zero_iff:
  "memcmp m a b n = 0 \<longleftrightarrow> (\<forall>i<unat n. m (a + of_nat i) = m (b + of_nat i))"
  by (simp add: memcmp_def memcmp_loop_zero)

theorem memcmp_zero_iff_witness:
  "memcmp (\<lambda>a. if a = 5 then 1 else 0) 4 8 2 \<noteq> 0"
proof -
  have "(\<lambda>a. if a = 5 then 1 else 0 :: u8) (4 + of_nat 1 :: u64) \<noteq> (\<lambda>a. if a = 5 then 1 else 0) (8 + of_nat 1 :: u64)"
    by simp
  moreover have "1 < unat (2 :: u64)" by simp
  ultimately show ?thesis
    unfolding memcmp_zero_iff by blast
qed

end
