(* ===== verification/Capability.thy ===== *)
theory Capability
  imports Minilib
begin

text \<open>
  Capabilities: the hybrid (simulated) CHERI capability of \<^verbatim>\<open>kernel/include/cheri.h\<close> and
  \<^verbatim>\<open>kernel/src/cheri.c\<close>, the unified kernel capability of \<^verbatim>\<open>kernel/include/cap.h\<close> with its
  union, and derivation and retyping of \<^verbatim>\<open>kernel/src/cap.c\<close>. The build modelled is the one
  without \<^verbatim>\<open>__CHERI_PURE_CAPABILITY__\<close>, where \<^verbatim>\<open>CHERI_CAP\<close> is \<^verbatim>\<open>sim_cap_t\<close>.
\<close>

subsection \<open>Simulated CHERI capabilities\<close>

record sim_cap_t =
  hw_base :: u64
  hw_top :: u64
  hw_addr :: u64
  hw_perms :: u32
  hw_otype :: u32
  hw_tag :: u8
  hw_sealed :: u8

definition zero_sim_cap :: sim_cap_t where
  "zero_sim_cap = \<lparr>hw_base = 0, hw_top = 0, hw_addr = 0, hw_perms = 0, hw_otype = 0,
     hw_tag = 0, hw_sealed = 0\<rparr>"

definition cheri_tag_get :: "sim_cap_t \<Rightarrow> bool" where
  "cheri_tag_get c \<longleftrightarrow> hw_tag c \<noteq> 0"

definition cheri_base_get :: "sim_cap_t \<Rightarrow> u64" where
  "cheri_base_get c = hw_base c"

definition cheri_length_get :: "sim_cap_t \<Rightarrow> u64" where
  "cheri_length_get c = hw_top c - hw_base c"

abbreviation (input) CHERI_PERM_LOAD :: u32 where "CHERI_PERM_LOAD \<equiv> 1"
abbreviation (input) CHERI_PERM_STORE :: u32 where "CHERI_PERM_STORE \<equiv> 2"
abbreviation (input) CHERI_PERM_LOAD_CAP :: u32 where "CHERI_PERM_LOAD_CAP \<equiv> 8"
abbreviation (input) CHERI_PERM_STORE_CAP :: u32 where "CHERI_PERM_STORE_CAP \<equiv> 16"

abbreviation (input) OTYPE_FRAME :: u32 where "OTYPE_FRAME \<equiv> 0x105"

definition cheri_cap_is_valid :: "sim_cap_t \<Rightarrow> u64 \<Rightarrow> u64 \<Rightarrow> u32 \<Rightarrow> bool" where
  "cheri_cap_is_valid cap base len perms \<longleftrightarrow>
     (if hw_tag cap = 0 then False
      else if hw_sealed cap \<noteq> 0 then False
      else if hw_base cap \<noteq> base then False
      else if hw_top cap \<noteq> base + len then False
      else if hw_perms cap AND perms \<noteq> perms then False
      else True)"

text \<open>The returned pointer is \<open>None\<close> for \<open>NULL\<close>; the memory is threaded through.\<close>

definition cheri_memcpy_capped :: "mem \<Rightarrow> sim_cap_t \<Rightarrow> u64 \<Rightarrow> u64 \<Rightarrow> u64 option \<times> mem" where
  "cheri_memcpy_capped m dst src len =
     (if hw_tag dst = 0 \<or> hw_sealed dst \<noteq> 0 then (None, m)
      else if hw_addr dst + len > hw_top dst then (None, m)
      else if hw_addr dst < hw_base dst then (None, m)
      else (Some (hw_addr dst), memcpy m (hw_addr dst) src len))"

subsection \<open>Kernel capabilities\<close>

text \<open>
  The enumeration \<^verbatim>\<open>cap_type_t\<close> is an \<open>unsigned int\<close>, and the system-call path casts an arbitrary
  register to it. \<open>CAP_OTHER\<close> stands for the values outside the enumeration.
\<close>

datatype cap_type_t =
    CAP_NULL
  | CAP_UNTYPED
  | CAP_CNODE
  | CAP_TCB
  | CAP_VSPACE
  | CAP_FRAME
  | CAP_ENDPOINT
  | CAP_NOTIFICATION
  | CAP_IRQ
  | CAP_IOMMU
  | CAP_SCHED_CONTEXT
  | CAP_TIME_PARTITION
  | CAP_OTHER u32

fun cap_type_val :: "cap_type_t \<Rightarrow> u32" where
  "cap_type_val CAP_NULL = 0"
| "cap_type_val CAP_UNTYPED = 1"
| "cap_type_val CAP_CNODE = 2"
| "cap_type_val CAP_TCB = 3"
| "cap_type_val CAP_VSPACE = 4"
| "cap_type_val CAP_FRAME = 5"
| "cap_type_val CAP_ENDPOINT = 6"
| "cap_type_val CAP_NOTIFICATION = 7"
| "cap_type_val CAP_IRQ = 8"
| "cap_type_val CAP_IOMMU = 9"
| "cap_type_val CAP_SCHED_CONTEXT = 10"
| "cap_type_val CAP_TIME_PARTITION = 11"
| "cap_type_val (CAP_OTHER n) = n"

text \<open>The cast of an integer to the enumeration.\<close>

definition cap_type_of :: "u32 \<Rightarrow> cap_type_t" where
  "cap_type_of n =
     (if n = 0 then CAP_NULL
      else if n = 1 then CAP_UNTYPED
      else if n = 2 then CAP_CNODE
      else if n = 3 then CAP_TCB
      else if n = 4 then CAP_VSPACE
      else if n = 5 then CAP_FRAME
      else if n = 6 then CAP_ENDPOINT
      else if n = 7 then CAP_NOTIFICATION
      else if n = 8 then CAP_IRQ
      else if n = 9 then CAP_IOMMU
      else if n = 10 then CAP_SCHED_CONTEXT
      else if n = 11 then CAP_TIME_PARTITION
      else CAP_OTHER n)"

lemma cap_type_val_of [simp]: "cap_type_val (cap_type_of n) = n"
  by (simp add: cap_type_of_def)

abbreviation (input) CAP_RIGHTS_READ :: u32 where "CAP_RIGHTS_READ \<equiv> 1"
abbreviation (input) CAP_RIGHTS_WRITE :: u32 where "CAP_RIGHTS_WRITE \<equiv> 2"
abbreviation (input) CAP_RIGHTS_GRANT :: u32 where "CAP_RIGHTS_GRANT \<equiv> 4"
abbreviation (input) MAX_CAPS_PER_CNODE :: u32 where "MAX_CAPS_PER_CNODE \<equiv> 256"

text \<open>
  The union \<^verbatim>\<open>u\<close> of \<^verbatim>\<open>cap_t\<close> occupies 32 bytes. The code reads members other than the one
  written last (a retyped capability has its address written through \<^verbatim>\<open>u.frame\<close> whatever its
  type), so the union is modelled by its storage, four little-endian 64-bit words, and each
  member by the bits it occupies in the rv64 lp64 layout.
\<close>

record cap_u_t =
  uw0 :: u64
  uw1 :: u64
  uw2 :: u64
  uw3 :: u64

definition u_untyped_paddr :: "cap_u_t \<Rightarrow> u64" where "u_untyped_paddr u = uw0 u"
definition u_untyped_size :: "cap_u_t \<Rightarrow> u64" where "u_untyped_size u = uw1 u"
definition u_tcb_ptr :: "cap_u_t \<Rightarrow> u64" where "u_tcb_ptr u = uw0 u"
definition u_vspace_root_pt :: "cap_u_t \<Rightarrow> u64" where "u_vspace_root_pt u = uw0 u"
definition u_frame_paddr :: "cap_u_t \<Rightarrow> u64" where "u_frame_paddr u = uw0 u"
definition u_frame_perms :: "cap_u_t \<Rightarrow> u8" where "u_frame_perms u = ucast (uw1 u)"
definition u_frame_color :: "cap_u_t \<Rightarrow> u16" where "u_frame_color u = ucast (drop_bit 16 (uw1 u))"
definition u_endpoint_ep_ptr :: "cap_u_t \<Rightarrow> u64" where "u_endpoint_ep_ptr u = uw0 u"
definition u_irq_irq :: "cap_u_t \<Rightarrow> u32" where "u_irq_irq u = ucast (uw0 u)"
definition u_iommu_dev_id :: "cap_u_t \<Rightarrow> u32" where "u_iommu_dev_id u = ucast (uw0 u)"

definition set_untyped_paddr :: "u64 \<Rightarrow> cap_u_t \<Rightarrow> cap_u_t" where
  "set_untyped_paddr p u = u\<lparr>uw0 := p\<rparr>"
definition set_untyped_size :: "u64 \<Rightarrow> cap_u_t \<Rightarrow> cap_u_t" where
  "set_untyped_size n u = u\<lparr>uw1 := n\<rparr>"
definition set_frame_paddr :: "u64 \<Rightarrow> cap_u_t \<Rightarrow> cap_u_t" where
  "set_frame_paddr p u = u\<lparr>uw0 := p\<rparr>"
definition set_frame_color :: "u16 \<Rightarrow> cap_u_t \<Rightarrow> cap_u_t" where
  "set_frame_color c u = u\<lparr>uw1 := (uw1 u AND NOT (push_bit 16 (mask 16))) OR push_bit 16 (ucast c)\<rparr>"
definition set_endpoint_ep_ptr :: "u64 \<Rightarrow> cap_u_t \<Rightarrow> cap_u_t" where
  "set_endpoint_ep_ptr p u = u\<lparr>uw0 := p\<rparr>"

lemmas union_defs = u_untyped_paddr_def u_untyped_size_def u_tcb_ptr_def u_vspace_root_pt_def
  u_frame_paddr_def u_frame_perms_def u_frame_color_def u_endpoint_ep_ptr_def u_irq_irq_def
  u_iommu_dev_id_def set_untyped_paddr_def set_untyped_size_def set_frame_paddr_def
  set_frame_color_def set_endpoint_ep_ptr_def

record cap_t =
  c_type :: cap_type_t
  c_rights :: u32
  c_badge :: u32
  c_is_sealed :: u8
  c_is_valid :: u8
  c_color :: u16
  c_u :: cap_u_t
  c_hw_cap :: sim_cap_t

definition zero_u :: cap_u_t where
  "zero_u = \<lparr>uw0 = 0, uw1 = 0, uw2 = 0, uw3 = 0\<rparr>"

definition zero_cap :: cap_t where
  "zero_cap = \<lparr>c_type = CAP_NULL, c_rights = 0, c_badge = 0, c_is_sealed = 0, c_is_valid = 0,
     c_color = 0, c_u = zero_u, c_hw_cap = zero_sim_cap\<rparr>"

definition cap_has_right :: "cap_t \<Rightarrow> u32 \<Rightarrow> bool" where
  "cap_has_right c r \<longleftrightarrow> c_rights c AND r = r"

definition cap_is_valid :: "cap_t option \<Rightarrow> bool" where
  "cap_is_valid p \<longleftrightarrow>
     (case p of
        None \<Rightarrow> False
      | Some c \<Rightarrow>
          (if c_is_valid c = 0 then False
           else if c_type c = CAP_NULL then False
           else if \<not> cheri_tag_get (c_hw_cap c) then False
           else True))"

definition cap_derive :: "cap_t \<Rightarrow> u32 \<Rightarrow> u32 \<Rightarrow> cap_t" where
  "cap_derive parent new_rights new_badge =
     (if new_rights AND NOT (c_rights parent) \<noteq> 0 then parent\<lparr>c_is_valid := 0\<rparr>
      else parent\<lparr>c_rights := new_rights, c_badge := new_badge\<rparr>)"

definition cap_can_retype :: "cap_t \<Rightarrow> cap_type_t \<Rightarrow> u64 \<Rightarrow> bool" where
  "cap_can_retype untyped new_type sz \<longleftrightarrow>
     (if c_type untyped \<noteq> CAP_UNTYPED then False
      else if c_is_valid untyped = 0 then False
      else if u_untyped_size (c_u untyped) < sz then False
      else if new_type = CAP_UNTYPED then False
      else if sz AND (sz - 1) \<noteq> 0 then False
      else if sz < 4096 then False
      else True)"

definition cap_retype :: "cap_t \<Rightarrow> cap_type_t \<Rightarrow> u64 \<Rightarrow> u64 \<Rightarrow> cap_t" where
  "cap_retype untyped new_type paddr sz =
     (if \<not> cap_can_retype untyped new_type sz then zero_cap
      else zero_cap\<lparr>c_type := new_type, c_rights := 0xF, c_is_valid := 1, c_is_sealed := 1,
             c_u := set_frame_paddr paddr zero_u,
             c_hw_cap := zero_sim_cap\<lparr>hw_base := paddr, hw_top := paddr + sz, hw_addr := paddr,
               hw_tag := 1, hw_sealed := 1,
               hw_otype := OTYPE_FRAME + (cap_type_val new_type - cap_type_val CAP_FRAME)\<rparr>\<rparr>)"

subsection \<open>Cleared objects\<close>

lemma zero_cap_fields [simp, zero_simps]:
  "c_type zero_cap = CAP_NULL" "c_rights zero_cap = 0" "c_badge zero_cap = 0"
  "c_is_sealed zero_cap = 0" "c_is_valid zero_cap = 0" "c_color zero_cap = 0"
  "c_u zero_cap = zero_u" "c_hw_cap zero_cap = zero_sim_cap"
  by (simp_all add: zero_cap_def)

lemma zero_sim_cap_fields [simp, zero_simps]:
  "hw_tag zero_sim_cap = 0" "hw_sealed zero_sim_cap = 0" "hw_base zero_sim_cap = 0"
  "hw_top zero_sim_cap = 0" "hw_otype zero_sim_cap = 0" "hw_perms zero_sim_cap = 0"
  by (simp_all add: zero_sim_cap_def)

lemma cap_is_valid_iff:
  "cap_is_valid p \<longleftrightarrow>
     (\<exists>c. p = Some c \<and> c_is_valid c \<noteq> 0 \<and> c_type c \<noteq> CAP_NULL \<and> cheri_tag_get (c_hw_cap c))"
  by (auto simp: cap_is_valid_def split: option.splits)

lemma set_frame_color_get [simp]:
  "u_frame_color (set_frame_color c u) = c"
  by (rule bit_word_eqI)
    (auto simp: union_defs bit_simps dest: bit_imp_le_length)

lemma set_frame_color_paddr [simp]: "u_frame_paddr (set_frame_color c u) = u_frame_paddr u"
  by (simp add: union_defs)

lemma set_frame_paddr_get [simp]: "u_frame_paddr (set_frame_paddr p u) = p"
  by (simp add: union_defs)

subsection \<open>Derivation attenuates\<close>

text \<open>
  The contract of a derivation operation: what it accepts has only rights its parent has.
  Authority then only shrinks along any chain of derivations.
\<close>

locale attenuation =
  fixes derive :: "'c \<Rightarrow> 'r::len word \<Rightarrow> 'b \<Rightarrow> 'c"
    and rights :: "'c \<Rightarrow> 'r word"
    and ok :: "'c \<Rightarrow> bool"
  assumes derive_ok: "ok (derive c r b) \<Longrightarrow> ok c \<and> subrights r (rights c) \<and> rights (derive c r b) = r"
begin

lemma derive_subrights: "ok (derive c r b) \<Longrightarrow> subrights (rights (derive c r b)) (rights c)"
  using derive_ok by simp

lemma chain_ok: "ok (foldl (\<lambda>c (r, b). derive c r b) c ds) \<Longrightarrow> ok c"
  by (induction ds arbitrary: c) (auto dest: derive_ok)

lemma chain_subrights:
  "ok (foldl (\<lambda>c (r, b). derive c r b) c ds) \<Longrightarrow>
   subrights (rights (foldl (\<lambda>c (r, b). derive c r b) c ds)) (rights c)"
proof (induction ds arbitrary: c)
  case (Cons d ds)
  obtain r b where d: "d = (r, b)" by (cases d)
  have ok: "ok (foldl (\<lambda>c (r, b). derive c r b) (derive c r b) ds)"
    using Cons.prems d by simp
  have "subrights (rights (foldl (\<lambda>c (r, b). derive c r b) (derive c r b) ds)) (rights (derive c r b))"
    using Cons.IH ok by simp
  moreover have "subrights (rights (derive c r b)) (rights c)"
    using chain_ok[OF ok] by (rule derive_subrights)
  ultimately show ?case using d by (auto intro: subrights_trans)
qed simp

end

lemma cap_derive_valid_iff:
  "c_is_valid (cap_derive c r b) \<noteq> 0 \<longleftrightarrow> c_is_valid c \<noteq> 0 \<and> subrights r (c_rights c)"
  by (simp add: cap_derive_def rights_simps)

lemma cap_derive_accepted:
  "subrights r (c_rights c) \<Longrightarrow> cap_derive c r b = c\<lparr>c_rights := r, c_badge := b\<rparr>"
  by (simp add: cap_derive_def rights_simps)

lemma cap_derive_fields [simp]:
  "c_type (cap_derive c r b) = c_type c" "c_u (cap_derive c r b) = c_u c"
  "c_hw_cap (cap_derive c r b) = c_hw_cap c" "c_color (cap_derive c r b) = c_color c"
  by (simp_all add: cap_derive_def)

interpretation capd: attenuation cap_derive c_rights "\<lambda>c. c_is_valid c \<noteq> 0"
proof
  fix c :: cap_t and r b :: u32
  assume "c_is_valid (cap_derive c r b) \<noteq> 0"
  then show "c_is_valid c \<noteq> 0 \<and> subrights r (c_rights c) \<and> c_rights (cap_derive c r b) = r"
    by (simp add: cap_derive_valid_iff cap_derive_accepted)
qed

subsection \<open>Retyping\<close>

text \<open>A non-zero word whose bits do not meet those of its predecessor is a power of two.\<close>

lemma bit_of_leading:
  fixes n :: nat
  assumes "2 ^ k \<le> n" "n < 2 ^ Suc k"
  shows "bit n k"
proof -
  have "n div 2 ^ k = 1" using assms by (intro div_nat_eqI) auto
  then show ?thesis by (simp add: bit_iff_odd)
qed

lemma leading_bit_exists: "0 < (n::nat) \<Longrightarrow> \<exists>k. 2 ^ k \<le> n \<and> n < 2 ^ Suc k"
  using ex_power_ivl1[of 2 n] by auto

lemma pow2_mask_test:
  fixes x :: u64
  assumes "x AND (x - 1) = 0" "x \<noteq> 0"
  shows "\<exists>k<64. unat x = 2 ^ k"
proof -
  have pos: "0 < unat x" using assms(2) by (simp add: unat_gt_0)
  then obtain k where k: "2 ^ k \<le> unat x" "unat x < 2 ^ Suc k"
    using leading_bit_exists by blast
  have "(2::nat) ^ k < 2 ^ 64" using k(1) unat_less_2p64[of x] by linarith
  then have k64: "k < 64" by (rule power_less_imp_less_exp[rotated]) simp
  have "unat x = 2 ^ k"
  proof (rule ccontr)
    assume "unat x \<noteq> 2 ^ k"
    then have "2 ^ k \<le> unat x - 1" "unat x - 1 < 2 ^ Suc k" using k by linarith+
    then have "bit (unat (x - 1)) k"
      using assms(2) by (simp add: unat_minus_one bit_of_leading)
    moreover have "bit (unat x) k" using k by (rule bit_of_leading)
    ultimately have "bit (x AND (x - 1)) k" by (simp add: bit_simps bit_unsigned_iff)
    then show False using assms(1) by simp
  qed
  then show ?thesis using k64 by blast
qed

lemma cap_can_retype_iff:
  "cap_can_retype c t sz \<longleftrightarrow> c_type c = CAP_UNTYPED \<and> c_is_valid c \<noteq> 0 \<and>
     sz \<le> u_untyped_size (c_u c) \<and> t \<noteq> CAP_UNTYPED \<and> sz AND (sz - 1) = 0 \<and> 4096 \<le> sz"
  by (auto simp: cap_can_retype_def not_less)

lemma cap_retype_valid_iff: "c_is_valid (cap_retype c t p sz) \<noteq> 0 \<longleftrightarrow> cap_can_retype c t sz"
  by (simp add: cap_retype_def)

text \<open>
  The object types \<^verbatim>\<open>cheri.h\<close> allocates for the capability types that have one.
\<close>

fun otype_of_type :: "cap_type_t \<Rightarrow> u32 option" where
  "otype_of_type CAP_CNODE = Some 0x100"
| "otype_of_type CAP_TCB = Some 0x101"
| "otype_of_type CAP_VSPACE = Some 0x102"
| "otype_of_type CAP_ENDPOINT = Some 0x103"
| "otype_of_type CAP_NOTIFICATION = Some 0x104"
| "otype_of_type CAP_FRAME = Some 0x105"
| "otype_of_type CAP_SCHED_CONTEXT = Some 0x106"
| "otype_of_type CAP_TIME_PARTITION = Some 0x107"
| "otype_of_type _ = None"

subsection \<open>Properties\<close>

text \<open>
  (safety). However many times a capability is derived, a result that is still marked valid has
  only rights of the first capability, which was itself valid, and still designates the same object
  with the same hardware bounds and seal.
\<close>

theorem cap_derive_chain_attenuates:
  assumes "c' = foldl (\<lambda>c (r, b). cap_derive c r b) c ds" and "c_is_valid c' \<noteq> 0"
  shows "c_is_valid c \<noteq> 0 \<and> subrights (c_rights c') (c_rights c) \<and> c_type c' = c_type c \<and>
    c_u c' = c_u c \<and> c_hw_cap c' = c_hw_cap c"
proof -
  have "c_type (foldl (\<lambda>c (r, b). cap_derive c r b) c ds) = c_type c \<and>
      c_u (foldl (\<lambda>c (r, b). cap_derive c r b) c ds) = c_u c \<and>
      c_hw_cap (foldl (\<lambda>c (r, b). cap_derive c r b) c ds) = c_hw_cap c"
    by (induction ds arbitrary: c) auto
  then show ?thesis
    using assms capd.chain_ok[of c ds] capd.chain_subrights[of c ds] by simp
qed

theorem cap_derive_chain_attenuates_witness:
  "subrights (1 :: u32) 7"
proof -
  let ?c = "zero_cap\<lparr>c_type := CAP_ENDPOINT, c_rights := 7, c_is_valid := 1\<rparr>"
  have r: "foldl (\<lambda>c (r, b). cap_derive c r b) ?c [(3, 9), (1, 4)] =
      ?c\<lparr>c_rights := 1, c_badge := 4\<rparr>"
    by (simp add: cap_derive_def)
  show ?thesis
    using cap_derive_chain_attenuates[OF r[symmetric]] by simp
qed

text \<open>
  (bounds). An accepted retype request has a size that is a power of two of at least one page
  and at most the untyped region, and, when the untyped region itself does not wrap around the
  address space, the hardware bounds of the new capability lie inside it.
\<close>

theorem cap_retype_within_untyped:
  assumes "cap_can_retype c t sz"
    and "unat (u_untyped_paddr (c_u c)) + unat (u_untyped_size (c_u c)) < 2 ^ 64"
    and "new = cap_retype c t (u_untyped_paddr (c_u c)) sz"
  shows "(\<exists>k. 12 \<le> k \<and> k < 64 \<and> unat sz = 2 ^ k) \<and>
    hw_base (c_hw_cap new) = u_untyped_paddr (c_u c) \<and>
    unat (hw_top (c_hw_cap new)) = unat (u_untyped_paddr (c_u c)) + unat sz \<and>
    unat (hw_top (c_hw_cap new)) \<le> unat (u_untyped_paddr (c_u c)) + unat (u_untyped_size (c_u c)) \<and>
    cap_has_right new 0xF \<and> (t \<noteq> CAP_NULL \<longrightarrow> cap_is_valid (Some new))"
proof -
  have sz: "sz AND (sz - 1) = 0" "4096 \<le> sz" "sz \<le> u_untyped_size (c_u c)"
    using assms(1) by (simp_all add: cap_can_retype_iff)
  then have n: "4096 \<le> unat sz" "unat sz \<le> unat (u_untyped_size (c_u c))"
    by (simp_all add: word_le_nat_alt)
  then have "sz \<noteq> 0" by auto
  then obtain k where k: "k < 64" "unat sz = 2 ^ k"
    using pow2_mask_test sz(1) by blast
  have "(2::nat) ^ 12 \<le> 2 ^ k" using n(1) k(2) by simp
  then have "12 \<le> k" by (rule power_le_imp_le_exp[rotated]) simp
  moreover have "unat (u_untyped_paddr (c_u c) + sz) = unat (u_untyped_paddr (c_u c)) + unat sz"
    using assms(2) n(2) by (subst unat_add_lem[THEN iffD1]) simp_all
  ultimately show ?thesis
    using assms(1,3) k n(2)
    by (auto simp: cap_retype_def cap_has_right_def cap_is_valid_def cheri_tag_get_def)
qed

theorem cap_retype_within_untyped_witness:
  "unat (hw_top (c_hw_cap (cap_retype
     (zero_cap\<lparr>c_type := CAP_UNTYPED, c_is_valid := 1,
        c_u := set_untyped_size 0x400000 (set_untyped_paddr 0x90000000 zero_u)\<rparr>)
     CAP_FRAME 0x90000000 4096))) \<le> 0x90400000"
proof -
  let ?c = "zero_cap\<lparr>c_type := CAP_UNTYPED, c_is_valid := 1,
        c_u := set_untyped_size 0x400000 (set_untyped_paddr 0x90000000 zero_u)\<rparr>"
  have f: "u_untyped_paddr (c_u ?c) = 0x90000000" "u_untyped_size (c_u ?c) = 0x400000"
    by (simp_all add: union_defs)
  have "cap_can_retype ?c CAP_FRAME 4096"
    by (simp add: cap_can_retype_def union_defs)
  from cap_retype_within_untyped[OF this] f show ?thesis by simp
qed

text \<open>
  (functional). The seal a retype writes is the object type \<^verbatim>\<open>cheri.h\<close> allocates for the new
  type only for frames: the arithmetic \<^verbatim>\<open>OTYPE_FRAME + (new_type - CAP_FRAME)\<close> gives every other
  type that has an object type the object type of a different kind of object.
\<close>

theorem cap_retype_otype_matches_only_frame:
  assumes "cap_can_retype c t sz" and "otype_of_type t = Some ot"
  shows "hw_otype (c_hw_cap (cap_retype c t p sz)) = ot \<longleftrightarrow> t = CAP_FRAME"
  using assms by (cases t) (auto simp: cap_retype_def)

theorem cap_retype_otype_matches_only_frame_witness:
  "hw_otype (c_hw_cap (cap_retype (zero_cap\<lparr>c_type := CAP_UNTYPED, c_is_valid := 1,
      c_u := set_untyped_size 0x400000 zero_u\<rparr>) CAP_TCB 0 4096)) \<noteq> 0x101"
proof -
  have "cap_can_retype (zero_cap\<lparr>c_type := CAP_UNTYPED, c_is_valid := 1,
      c_u := set_untyped_size 0x400000 zero_u\<rparr>) CAP_TCB 4096"
    by (simp add: cap_can_retype_def union_defs)
  from cap_retype_otype_matches_only_frame[OF this] show ?thesis by simp
qed

text \<open>
  (safety). A capped copy that does not wrap around the address space writes only inside the
  bounds of its destination capability; when it refuses (\<open>NULL\<close>) memory is unchanged.
\<close>

theorem cheri_memcpy_capped_confined:
  assumes "cheri_memcpy_capped m dst src len = (r, m')"
    and "unat (hw_addr dst) + unat len < 2 ^ 64"
    and "\<not> (hw_base dst \<le> a \<and> a < hw_top dst)"
  shows "m' a = m a \<and> (r = None \<longrightarrow> m' = m)"
proof (cases r)
  case None
  then show ?thesis using assms(1) by (auto simp: cheri_memcpy_capped_def split: if_splits)
next
  case (Some d)
  then have ok: "hw_addr dst + len \<le> hw_top dst" "hw_base dst \<le> hw_addr dst"
      "m' = memcpy m (hw_addr dst) src len"
    using assms(1) by (auto simp: cheri_memcpy_capped_def not_less split: if_splits)
  have "unat (hw_addr dst + len) = unat (hw_addr dst) + unat len"
    using assms(2) by (subst unat_add_lem[THEN iffD1]) simp_all
  then have "\<not> in_region (hw_addr dst) (unat len) a"
    using assms(2,3) ok(1,2) by (auto simp: in_region_nowrap word_le_nat_alt word_less_nat_alt)
  then show ?thesis using ok(3) Some by (simp add: memcpy_frame)
qed

theorem cheri_memcpy_capped_confined_witness:
  "snd (cheri_memcpy_capped (\<lambda>_. 7)
     (zero_sim_cap\<lparr>hw_base := 0x1000, hw_top := 0x2000, hw_addr := 0x1000, hw_tag := 1\<rparr>) 0 16) 0x2000 = 7"
proof -
  let ?d = "zero_sim_cap\<lparr>hw_base := 0x1000, hw_top := 0x2000, hw_addr := 0x1000, hw_tag := 1\<rparr>"
  have "cheri_memcpy_capped (\<lambda>_. 7) ?d 0 16 =
      (fst (cheri_memcpy_capped (\<lambda>_. 7) ?d 0 16), snd (cheri_memcpy_capped (\<lambda>_. 7) ?d 0 16))"
    by simp
  from cheri_memcpy_capped_confined[OF this, where a = "0x2000"] show ?thesis by simp
qed

text \<open>
  (bounds). The bound test \<^verbatim>\<open>addr + len > top\<close> wraps: every tagged, unsealed capability whose
  address is not zero and lies in its bounds accepts a copy of a length greater than the space
  left up to its top.
\<close>

theorem cheri_memcpy_capped_wraps:
  assumes "hw_tag dst \<noteq> 0" "hw_sealed dst = 0" "hw_base dst \<le> hw_addr dst"
    and "hw_addr dst \<le> hw_top dst" "hw_addr dst \<noteq> 0"
  shows "\<exists>len. hw_top dst - hw_addr dst < len \<and>
    fst (cheri_memcpy_capped m dst src len) = Some (hw_addr dst)"
proof (intro exI conjI)
  have "unat (hw_top dst - hw_addr dst) = unat (hw_top dst) - unat (hw_addr dst)"
    using assms(4) by (simp add: unat_sub)
  moreover have "unat (- hw_addr dst) = 2 ^ 64 - unat (hw_addr dst)"
    using assms(5) unat_sub_if'[of 0 "hw_addr dst"] by (simp add: unat_gt_0 unat_eq_zero)
  moreover have "unat (hw_addr dst) \<le> unat (hw_top dst)"
    using assms(4) by (simp add: word_le_nat_alt)
  ultimately show "hw_top dst - hw_addr dst < - hw_addr dst"
    using unat_less_2p64[of "hw_top dst"] by (simp add: word_less_nat_alt)
  show "fst (cheri_memcpy_capped m dst src (- hw_addr dst)) = Some (hw_addr dst)"
    using assms by (simp add: cheri_memcpy_capped_def not_less)
qed

theorem cheri_memcpy_capped_wraps_witness:
  "\<exists>len > 0x1000. fst (cheri_memcpy_capped (\<lambda>_. 0)
     (zero_sim_cap\<lparr>hw_base := 0x1000, hw_top := 0x2000, hw_addr := 0x1000, hw_tag := 1\<rparr>) 0 len) = Some 0x1000"
  using cheri_memcpy_capped_wraps[of
      "zero_sim_cap\<lparr>hw_base := 0x1000, hw_top := 0x2000, hw_addr := 0x1000, hw_tag := 1\<rparr>" "\<lambda>_. 0" 0]
  by simp

end
