(* ===== verification/CNode.thy ===== *)
theory CNode
  imports Capability
begin

text \<open>
  Capability nodes, \<^verbatim>\<open>kernel/include/cnode.h\<close> and \<^verbatim>\<open>kernel/src/cnode.c\<close>. Source and destination
  of a copy may be the same node (every system call passes \<^verbatim>\<open>&g_root_cnode\<close> for both), so the
  operations work on an explicit store of nodes and a \<^verbatim>\<open>cnode_t *\<close> is \<open>None\<close> (\<open>NULL\<close>) or the
  number of a node. \<^verbatim>\<open>cnode_lookup\<close> returns a pointer to a slot, which is the number of the slot.
\<close>

record cnode_t =
  cn_slots :: "cap_t arr"
  cn_guard :: u32
  cn_radix :: u8
  cn_guard_size :: u8
  cn_used :: u32

type_synonym cnode_heap = "nat \<Rightarrow> cnode_t"

definition zero_cnode :: cnode_t where
  "zero_cnode = \<lparr>cn_slots = (\<lambda>_. zero_cap), cn_guard = 0, cn_radix = 0, cn_guard_size = 0, cn_used = 0\<rparr>"

definition set_slot :: "nat \<Rightarrow> cap_t \<Rightarrow> cnode_t \<Rightarrow> cnode_t" where
  "set_slot i c cn = cn\<lparr>cn_slots := (cn_slots cn)(i := c)\<rparr>"

definition cnode_init :: "cnode_heap \<Rightarrow> nat option \<Rightarrow> u32 \<Rightarrow> u8 \<Rightarrow> kerror_t + cnode_heap" where
  "cnode_init h p guard radix =
     (case p of
        None \<Rightarrow> Inl ERR_INVALID_ARG
      | Some n \<Rightarrow>
          if radix > 8 \<or> radix = 0 then Inl ERR_INVALID_ARG
          else Inr (h(n := zero_cnode\<lparr>cn_guard := guard, cn_radix := radix\<rparr>)))"

text \<open>
  The shift \<^verbatim>\<open>1u << cn->guard_size\<close> is defined in C for sizes below 32 only; no code writes
  \<^verbatim>\<open>guard_size\<close>, which \<open>cnode_init\<close> leaves zero.
\<close>

definition cnode_lookup :: "cnode_heap \<Rightarrow> nat option \<Rightarrow> cptr_t \<Rightarrow> nat option" where
  "cnode_lookup h p idx =
     (case p of
        None \<Rightarrow> None
      | Some n \<Rightarrow>
          let cn = h n in
          if cn_radix cn = 0 \<or> cn_radix cn > 8 then None
          else
            let msk = push_bit (unat (cn_radix cn)) 1 - 1;
                guard_bits = drop_bit (unat (cn_radix cn)) idx in
            if cn_guard_size cn > 0 \<and>
               guard_bits \<noteq> cn_guard cn AND (push_bit (unat (cn_guard_size cn)) 1 - 1) then None
            else
              let slot = (if cn_radix cn = 8 then idx AND 0xFF else idx AND msk) in
              if slot \<ge> MAX_CAPS_PER_CNODE then None
              else if c_is_valid (cn_slots cn (unat slot)) = 0 then None
              else if \<not> cheri_tag_get (c_hw_cap (cn_slots cn (unat slot))) then None
              else Some (unat slot))"

definition cnode_copy ::
  "cnode_heap \<Rightarrow> nat option \<Rightarrow> cptr_t \<Rightarrow> nat option \<Rightarrow> cptr_t \<Rightarrow> u32 \<Rightarrow> kerror_t + cnode_heap" where
  "cnode_copy h dst dst_idx src src_idx rights =
     (case (dst, src) of
        (Some d, Some s) \<Rightarrow>
          if dst_idx \<ge> MAX_CAPS_PER_CNODE \<or> src_idx \<ge> MAX_CAPS_PER_CNODE then Inl ERR_INVALID_ARG
          else (case cnode_lookup h src src_idx of
             None \<Rightarrow> Inl ERR_INVALID_CAP
           | Some si \<Rightarrow>
               let sc = cn_slots (h s) si in
               if rights AND NOT (c_rights sc) \<noteq> 0 then Inl ERR_NO_RIGHTS
               else
                 let derived = cap_derive sc rights (c_badge sc) in
                 if c_is_valid derived = 0 then Inl ERR_INVALID_CAP
                 else if c_is_valid (cn_slots (h d) (unat dst_idx)) \<noteq> 0 then Inl ERR_REVOKE_NEEDED
                 else
                   let cn = set_slot (unat dst_idx) derived (h d) in
                   Inr (h(d := cn\<lparr>cn_used := cn_used cn + 1\<rparr>)))
      | _ \<Rightarrow> Inl ERR_INVALID_ARG)"

definition cnode_mint ::
  "cnode_heap \<Rightarrow> nat option \<Rightarrow> cptr_t \<Rightarrow> nat option \<Rightarrow> cptr_t \<Rightarrow> u32 \<Rightarrow> u32 \<Rightarrow> kerror_t + cnode_heap" where
  "cnode_mint h dst dst_idx src src_idx rights badge =
     (case (dst, src) of
        (Some d, Some s) \<Rightarrow>
          if dst_idx \<ge> MAX_CAPS_PER_CNODE \<or> src_idx \<ge> MAX_CAPS_PER_CNODE then Inl ERR_INVALID_ARG
          else (case cnode_lookup h src src_idx of
             None \<Rightarrow> Inl ERR_INVALID_CAP
           | Some si \<Rightarrow>
               let sc = cn_slots (h s) si in
               if \<not> cap_has_right sc CAP_RIGHTS_GRANT then Inl ERR_NO_RIGHTS
               else if c_is_valid (cn_slots (h d) (unat dst_idx)) \<noteq> 0 then Inl ERR_REVOKE_NEEDED
               else
                 let derived = cap_derive sc rights badge in
                 if c_is_valid derived = 0 then Inl ERR_INVALID_CAP
                 else
                   let cn = set_slot (unat dst_idx) derived (h d) in
                   Inr (h(d := cn\<lparr>cn_used := cn_used cn + 1\<rparr>)))
      | _ \<Rightarrow> Inl ERR_INVALID_ARG)"

text \<open>
  \<^verbatim>\<open>cnode_move\<close> does not compare \<^verbatim>\<open>dst_idx\<close> with the size of the array: an index of 256 or
  more is an access outside it (\<open>None\<close>).
\<close>

definition cnode_move ::
  "cnode_heap \<Rightarrow> nat option \<Rightarrow> cptr_t \<Rightarrow> nat option \<Rightarrow> cptr_t \<Rightarrow> (kerror_t + cnode_heap) option" where
  "cnode_move h dst dst_idx src src_idx =
     (case (dst, src) of
        (Some d, Some s) \<Rightarrow>
          (case cnode_lookup h src src_idx of
             None \<Rightarrow> Some (Inl ERR_INVALID_CAP)
           | Some si \<Rightarrow>
               if dst_idx \<ge> MAX_CAPS_PER_CNODE then None
               else if c_is_valid (cn_slots (h d) (unat dst_idx)) \<noteq> 0
               then Some (Inl ERR_REVOKE_NEEDED)
               else
                 let h1 = h(d := set_slot (unat dst_idx) (cn_slots (h s) si) (h d)) in
                 Some (Inr (h1(s := set_slot si zero_cap (h1 s)))))
      | _ \<Rightarrow> Some (Inl ERR_INVALID_ARG))"

definition cnode_delete :: "cnode_heap \<Rightarrow> nat option \<Rightarrow> cptr_t \<Rightarrow> kerror_t + cnode_heap" where
  "cnode_delete h p idx =
     (case p of
        None \<Rightarrow> Inl ERR_INVALID_ARG
      | Some n \<Rightarrow>
          if idx \<ge> MAX_CAPS_PER_CNODE then Inl ERR_INVALID_ARG
          else if c_is_valid (cn_slots (h n) (unat idx)) = 0 then Inl ERR_INVALID_CAP
          else
            let cn = set_slot (unat idx) zero_cap (h n) in
            Inr (h(n := cn\<lparr>cn_used := cn_used cn - 1\<rparr>)))"

subsection \<open>The capability space a store of nodes represents\<close>

text \<open>
  The abstract view: which capability, marked valid, sits in which slot of which node. Every
  operation is an update of this map.
\<close>

definition caps_of :: "cnode_heap \<Rightarrow> (nat \<times> nat) \<rightharpoonup> cap_t" where
  "caps_of h = (\<lambda>(n, i). if i < 256 \<and> c_is_valid (cn_slots (h n) i) \<noteq> 0 then Some (cn_slots (h n) i) else None)"

lemma set_slot_fields [simp]:
  "cn_slots (set_slot i c cn) = (cn_slots cn)(i := c)" "cn_guard (set_slot i c cn) = cn_guard cn"
  "cn_radix (set_slot i c cn) = cn_radix cn" "cn_guard_size (set_slot i c cn) = cn_guard_size cn"
  "cn_used (set_slot i c cn) = cn_used cn"
  by (simp_all add: set_slot_def)

lemma unat_less_256 [simp]: "unat (i :: u32) < 256 \<longleftrightarrow> i < 256"
  by (simp add: word_less_nat_alt)

lemma cnode_lookup_Some:
  assumes "cnode_lookup h p idx = Some i"
  shows "\<exists>n. p = Some n \<and> i < 256 \<and> c_is_valid (cn_slots (h n) i) \<noteq> 0 \<and>
    cheri_tag_get (c_hw_cap (cn_slots (h n) i)) \<and> caps_of h (n, i) = Some (cn_slots (h n) i)"
  using assms by (auto simp: cnode_lookup_def Let_def caps_of_def not_le split: option.splits if_splits)

text \<open>A node of radix 8 without guard, as \<open>cnode_init\<close> makes it, is indexed directly.\<close>

definition direct_node :: "cnode_t \<Rightarrow> bool" where
  "direct_node cn \<longleftrightarrow> cn_radix cn = 8 \<and> cn_guard_size cn = 0"

lemma and_255_small: "(idx :: u32) < 256 \<Longrightarrow> idx AND 255 = idx"
  using and_mask_small[of idx 8] by (simp add: mask_eq_exp_minus_1)

lemma cnode_lookup_direct:
  assumes "direct_node (h n)" "idx < 256"
  shows "cnode_lookup h (Some n) idx =
    (if c_is_valid (cn_slots (h n) (unat idx)) \<noteq> 0 \<and> cheri_tag_get (c_hw_cap (cn_slots (h n) (unat idx)))
     then Some (unat idx) else None)"
  using assms by (auto simp: cnode_lookup_def direct_node_def Let_def and_255_small)

lemma cnode_copy_Inr:
  assumes "cnode_copy h dst dst_idx src src_idx rights = Inr h'"
  shows "\<exists>d s si. dst = Some d \<and> src = Some s \<and> dst_idx < 256 \<and> cnode_lookup h src src_idx = Some si \<and>
    subrights rights (c_rights (cn_slots (h s) si)) \<and> caps_of h (d, unat dst_idx) = None \<and>
    h' = h(d := (set_slot (unat dst_idx)
        ((cn_slots (h s) si)\<lparr>c_rights := rights\<rparr>) (h d))\<lparr>cn_used := cn_used (h d) + 1\<rparr>)"
  using assms
  by (auto simp: cnode_copy_def Let_def caps_of_def rights_simps cap_derive_accepted not_le
      split: option.splits if_splits)

lemma cnode_mint_Inr:
  assumes "cnode_mint h dst dst_idx src src_idx rights badge = Inr h'"
  shows "\<exists>d s si. dst = Some d \<and> src = Some s \<and> dst_idx < 256 \<and> cnode_lookup h src src_idx = Some si \<and>
    subrights rights (c_rights (cn_slots (h s) si)) \<and> caps_of h (d, unat dst_idx) = None \<and>
    subrights CAP_RIGHTS_GRANT (c_rights (cn_slots (h s) si)) \<and>
    h' = h(d := (set_slot (unat dst_idx)
        ((cn_slots (h s) si)\<lparr>c_rights := rights, c_badge := badge\<rparr>) (h d))\<lparr>cn_used := cn_used (h d) + 1\<rparr>)"
  using assms
  by (auto simp: cnode_mint_def Let_def caps_of_def rights_simps cap_has_right_def not_le
      cap_derive_def split: option.splits if_splits)

lemma cnode_move_Inr:
  assumes "cnode_move h dst dst_idx src src_idx = Some (Inr h')"
  shows "\<exists>d s si. dst = Some d \<and> src = Some s \<and> dst_idx < 256 \<and> cnode_lookup h src src_idx = Some si \<and>
    caps_of h (d, unat dst_idx) = None \<and> (d, unat dst_idx) \<noteq> (s, si) \<and>
    (let h1 = h(d := set_slot (unat dst_idx) (cn_slots (h s) si) (h d)) in
     h' = h1(s := set_slot si zero_cap (h1 s)))"
  using assms
  by (auto simp: cnode_move_def caps_of_def not_le dest: cnode_lookup_Some
      split: option.splits if_splits)

lemma cnode_delete_Inr:
  assumes "cnode_delete h p idx = Inr h'"
  shows "\<exists>n. p = Some n \<and> idx < 256 \<and> caps_of h (n, unat idx) \<noteq> None \<and>
    h' = h(n := (set_slot (unat idx) zero_cap (h n))\<lparr>cn_used := cn_used (h n) - 1\<rparr>)"
  using assms
  by (auto simp: cnode_delete_def caps_of_def not_le Let_def split: option.splits if_splits)

subsection \<open>Authority\<close>

text \<open>
  \<open>cap_le c' c\<close>: the capability \<open>c'\<close> conveys no more than \<open>c\<close>, the same object with the same
  hardware bounds and a subset of the rights.
\<close>

definition cap_le :: "cap_t \<Rightarrow> cap_t \<Rightarrow> bool" where
  "cap_le c' c \<longleftrightarrow> c_type c' = c_type c \<and> c_u c' = c_u c \<and> c_hw_cap c' = c_hw_cap c \<and>
     subrights (c_rights c') (c_rights c)"

lemma cap_le_refl [simp]: "cap_le c c"
  by (simp add: cap_le_def)

lemma cap_le_trans: "cap_le a b \<Longrightarrow> cap_le b c \<Longrightarrow> cap_le a c"
  by (auto simp: cap_le_def intro: subrights_trans)

text \<open>Every valid capability of the store conveys no more than some capability of the set.\<close>

definition bounded_by :: "cap_t set \<Rightarrow> cnode_heap \<Rightarrow> bool" where
  "bounded_by S h \<longleftrightarrow> (\<forall>c \<in> ran (caps_of h). \<exists>c0 \<in> S. cap_le c c0)"

lemma bounded_byI: "(\<And>n i c. caps_of h (n, i) = Some c \<Longrightarrow> \<exists>c0\<in>S. cap_le c c0) \<Longrightarrow> bounded_by S h"
  by (auto simp: bounded_by_def ran_def)

lemma bounded_byD: "bounded_by S h \<Longrightarrow> caps_of h (n, i) = Some c \<Longrightarrow> \<exists>c0\<in>S. cap_le c c0"
  by (auto simp: bounded_by_def ran_def)

text \<open>
  The operations as the system-call interface issues them: on nodes that exist, with slot numbers
  cut to eight bits.
\<close>

datatype cnode_op =
    OpCopy nat u8 nat u8 u32
  | OpMint nat u8 nat u8 u32 u32
  | OpMove nat u8 nat u8
  | OpDelete nat u8

definition keep :: "'h \<Rightarrow> kerror_t + 'h \<Rightarrow> 'h" where
  "keep h r = (case r of Inl _ \<Rightarrow> h | Inr h' \<Rightarrow> h')"

lemma keep_simps [simp]: "keep h (Inl e) = h" "keep h (Inr h') = h'"
  by (simp_all add: keep_def)

fun cnode_step :: "cnode_heap \<Rightarrow> cnode_op \<Rightarrow> cnode_heap" where
  "cnode_step h (OpCopy d i s j r) = keep h (cnode_copy h (Some d) (ucast i) (Some s) (ucast j) r)"
| "cnode_step h (OpMint d i s j r b) = keep h (cnode_mint h (Some d) (ucast i) (Some s) (ucast j) r b)"
| "cnode_step h (OpMove d i s j) =
     (case cnode_move h (Some d) (ucast i) (Some s) (ucast j) of None \<Rightarrow> h | Some r \<Rightarrow> keep h r)"
| "cnode_step h (OpDelete n i) = keep h (cnode_delete h (Some n) (ucast i))"

lemma ucast_u8_less_256 [simp]: "(ucast (i :: u8) :: u32) < 256"
  using unat_u8_less[of i]
  by (subst unat_less_256[symmetric]) (simp add: unat_ucast_up del: unat_less_256)

lemma cnode_move_defined: "cnode_move h dst (ucast (i :: u8)) src j \<noteq> None"
  by (simp add: cnode_move_def not_le Let_def split: option.splits)

subsection \<open>Each operation as an update of the capability space\<close>

lemma caps_of_upd:
  "caps_of (h(n := (set_slot i c (h n))\<lparr>cn_used := u\<rparr>)) =
     (caps_of h)((n, i) := (if i < 256 \<and> c_is_valid c \<noteq> 0 then Some c else None))"
  by (auto simp: caps_of_def fun_eq_iff)

lemma caps_of_set_slot:
  "caps_of (h(n := set_slot i c (h n))) =
     (caps_of h)((n, i) := (if i < 256 \<and> c_is_valid c \<noteq> 0 then Some c else None))"
  by (auto simp: caps_of_def fun_eq_iff)

lemma cnode_copy_caps:
  assumes "cnode_copy h dst dst_idx src src_idx rights = Inr h'"
  shows "\<exists>d s si c. dst = Some d \<and> src = Some s \<and> cnode_lookup h src src_idx = Some si \<and>
    caps_of h (s, si) = Some c \<and> caps_of h (d, unat dst_idx) = None \<and>
    subrights rights (c_rights c) \<and>
    caps_of h' = (caps_of h)((d, unat dst_idx) \<mapsto> c\<lparr>c_rights := rights\<rparr>)"
proof -
  obtain d s si where *: "dst = Some d" "src = Some s" "dst_idx < 256"
      "cnode_lookup h src src_idx = Some si" "subrights rights (c_rights (cn_slots (h s) si))"
      "caps_of h (d, unat dst_idx) = None"
      "h' = h(d := (set_slot (unat dst_idx)
        ((cn_slots (h s) si)\<lparr>c_rights := rights\<rparr>) (h d))\<lparr>cn_used := cn_used (h d) + 1\<rparr>)"
    using cnode_copy_Inr[OF assms] by blast
  moreover have "c_is_valid (cn_slots (h s) si) \<noteq> 0" "caps_of h (s, si) = Some (cn_slots (h s) si)"
    using cnode_lookup_Some[OF *(4)] *(2) by auto
  ultimately show ?thesis by (auto simp: caps_of_upd)
qed

lemma cnode_mint_caps:
  assumes "cnode_mint h dst dst_idx src src_idx rights badge = Inr h'"
  shows "\<exists>d s si c. dst = Some d \<and> src = Some s \<and> cnode_lookup h src src_idx = Some si \<and>
    caps_of h (s, si) = Some c \<and> caps_of h (d, unat dst_idx) = None \<and>
    subrights rights (c_rights c) \<and> subrights CAP_RIGHTS_GRANT (c_rights c) \<and>
    caps_of h' = (caps_of h)((d, unat dst_idx) \<mapsto> c\<lparr>c_rights := rights, c_badge := badge\<rparr>)"
proof -
  obtain d s si where *: "dst = Some d" "src = Some s" "dst_idx < 256"
      "cnode_lookup h src src_idx = Some si" "subrights rights (c_rights (cn_slots (h s) si))"
      "subrights CAP_RIGHTS_GRANT (c_rights (cn_slots (h s) si))"
      "caps_of h (d, unat dst_idx) = None"
      "h' = h(d := (set_slot (unat dst_idx)
        ((cn_slots (h s) si)\<lparr>c_rights := rights, c_badge := badge\<rparr>) (h d))\<lparr>cn_used := cn_used (h d) + 1\<rparr>)"
    using cnode_mint_Inr[OF assms] by blast
  moreover have "c_is_valid (cn_slots (h s) si) \<noteq> 0" "caps_of h (s, si) = Some (cn_slots (h s) si)"
    using cnode_lookup_Some[OF *(4)] *(2) by auto
  ultimately show ?thesis by (auto simp: caps_of_upd)
qed

lemma cnode_move_caps:
  assumes "cnode_move h dst dst_idx src src_idx = Some (Inr h')"
  shows "\<exists>d s si c. dst = Some d \<and> src = Some s \<and> cnode_lookup h src src_idx = Some si \<and>
    caps_of h (s, si) = Some c \<and> caps_of h (d, unat dst_idx) = None \<and>
    caps_of h' = (caps_of h)((d, unat dst_idx) \<mapsto> c, (s, si) := None)"
proof -
  obtain d s si where *: "dst = Some d" "src = Some s" "dst_idx < 256"
      "cnode_lookup h src src_idx = Some si" "caps_of h (d, unat dst_idx) = None"
      "h' = (let h1 = h(d := set_slot (unat dst_idx) (cn_slots (h s) si) (h d)) in
        h1(s := set_slot si zero_cap (h1 s)))"
    using cnode_move_Inr[OF assms] by (auto simp: Let_def)
  moreover have "c_is_valid (cn_slots (h s) si) \<noteq> 0" "caps_of h (s, si) = Some (cn_slots (h s) si)"
    using cnode_lookup_Some[OF *(4)] *(2) by auto
  ultimately show ?thesis by (simp add: Let_def caps_of_set_slot del: fun_upd_apply)
qed

lemma cnode_delete_caps:
  assumes "cnode_delete h p idx = Inr h'"
  shows "\<exists>n. p = Some n \<and> caps_of h (n, unat idx) \<noteq> None \<and>
    caps_of h' = (caps_of h)((n, unat idx) := None)"
  using cnode_delete_Inr[OF assms] by (auto simp: caps_of_upd)

lemma bounded_by_upd:
  assumes "bounded_by S h" "caps_of h' = (caps_of h)((d, i) \<mapsto> c')" "caps_of h (s, j) = Some c"
    and "cap_le c' c"
  shows "bounded_by S h'"
proof (rule bounded_byI)
  fix n k x
  assume x: "caps_of h' (n, k) = Some x"
  show "\<exists>c0\<in>S. cap_le x c0"
  proof (cases "(n, k) = (d, i)")
    case True
    then have "x = c'" using x assms(2) by simp
    moreover obtain c0 where "c0 \<in> S" "cap_le c c0" using bounded_byD[OF assms(1,3)] by blast
    ultimately show ?thesis using assms(4) by (blast intro: cap_le_trans)
  next
    case False
    then have "caps_of h (n, k) = Some x" using x assms(2) by auto
    then show ?thesis by (rule bounded_byD[OF assms(1)])
  qed
qed

lemma bounded_by_subset:
  assumes "bounded_by S h" "\<And>p c. caps_of h' p = Some c \<Longrightarrow> \<exists>q. caps_of h q = Some c"
  shows "bounded_by S h'"
  using assms unfolding bounded_by_def ran_def by blast

lemma node_op_bounded:
  assumes b: "bounded_by S h"
  shows "bounded_by S (keep h (cnode_copy h d i s j r))" "bounded_by S (keep h (cnode_mint h d i s j r bd))"
    "cnode_move h d i s j = Some res \<Longrightarrow> bounded_by S (keep h res)" "bounded_by S (keep h (cnode_delete h d i))"
proof -
  have sub: "bounded_by S h'" if "caps_of h' = (caps_of h)(q \<mapsto> c, p := None) \<and> caps_of h p = Some c \<or> caps_of h' = (caps_of h)(p := None)" for h' p q c
  proof (rule bounded_by_subset[OF b])
    show "\<exists>q. caps_of h q = Some x" if "caps_of h' p' = Some x" for p' x
      using that \<open>caps_of h' = _ \<and> _ \<or> _\<close> by (metis fun_upd_apply option.distinct(1))
  qed
  show "bounded_by S (keep h (cnode_copy h d i s j r))"
    using b by (cases "cnode_copy h d i s j r") (auto dest!: cnode_copy_caps intro: bounded_by_upd[OF b] simp: cap_le_def)
  show "bounded_by S (keep h (cnode_mint h d i s j r bd))"
    using b by (cases "cnode_mint h d i s j r bd") (auto dest!: cnode_mint_caps intro: bounded_by_upd[OF b] simp: cap_le_def)
  show "bounded_by S (keep h res)" if "cnode_move h d i s j = Some res"
    using b that sub by (cases res) (auto dest!: cnode_move_caps, metis)
  show "bounded_by S (keep h (cnode_delete h d i))"
    using b sub by (cases "cnode_delete h d i") (auto dest!: cnode_delete_caps, metis)
qed

lemma cnode_step_bounded: "bounded_by S h \<Longrightarrow> bounded_by S (cnode_step h a)"
proof (cases a)
  case (OpMove d i s j)
  assume b: "bounded_by S h"
  obtain r where "cnode_move h (Some d) (ucast i) (Some s) (ucast j) = Some r"
    using cnode_move_defined[of h "Some d" i "Some s" "ucast j"] by blast
  then show ?thesis using OpMove node_op_bounded(3)[OF b] by simp
qed (simp_all add: node_op_bounded)

interpretation cspace: invariant_machine cnode_step "bounded_by S" for S
  by unfold_locales (rule cnode_step_bounded)

subsection \<open>The slot counter\<close>

definition used_ok :: "cnode_t \<Rightarrow> bool" where
  "used_ok cn \<longleftrightarrow> unat (cn_used cn) = count_upto 256 (\<lambda>i. c_is_valid (cn_slots cn i) \<noteq> 0)"

lemma count_small: "count_upto 256 P < 2 ^ 32 - 1"
  using count_upto_le[of 256 P] by simp

lemma unat_inc_u32: "unat (x :: u32) < 2 ^ 32 - 1 \<Longrightarrow> unat (x + 1) = Suc (unat x)"
  by (subst unat_add_lem[THEN iffD1]) simp_all

lemma unat_dec_u32: "unat (x :: u32) = Suc n \<Longrightarrow> unat (x - 1) = n"
  by (subst unat_minus_one) auto

lemma used_ok_fill:
  assumes "used_ok cn" "i < 256" "c_is_valid (cn_slots cn i) = 0" "c_is_valid c \<noteq> 0"
  shows "used_ok ((set_slot i c cn)\<lparr>cn_used := cn_used cn + 1\<rparr>)"
proof -
  have "count_upto 256 (\<lambda>j. c_is_valid (cn_slots (set_slot i c cn) j) \<noteq> 0) =
      Suc (count_upto 256 (\<lambda>j. c_is_valid (cn_slots cn j) \<noteq> 0))"
    by (rule count_upto_set[where i = i]) (use assms in auto)
  moreover have "unat (cn_used cn) < 2 ^ 32 - 1"
    using assms(1) count_small by (simp add: used_ok_def)
  ultimately show ?thesis using assms(1) by (simp add: used_ok_def unat_inc_u32)
qed

lemma used_ok_empty:
  assumes "used_ok cn" "i < 256" "c_is_valid (cn_slots cn i) \<noteq> 0"
  shows "used_ok ((set_slot i zero_cap cn)\<lparr>cn_used := cn_used cn - 1\<rparr>)"
proof -
  have "count_upto 256 (\<lambda>j. c_is_valid (cn_slots cn j) \<noteq> 0) =
      Suc (count_upto 256 (\<lambda>j. c_is_valid (cn_slots (set_slot i zero_cap cn) j) \<noteq> 0))"
    by (rule count_upto_clear[where i = i]) (use assms in auto)
  then show ?thesis using assms(1) by (simp add: used_ok_def unat_dec_u32)
qed

lemma count_swap:
  assumes "i < n" "j < n" "i \<noteq> j" "\<not> P i" "P j"
  shows "count_upto n (P(i := True, j := False)) = count_upto n P"
proof -
  have "count_upto n (P(i := True)) = Suc (count_upto n P)"
    by (rule count_upto_set[where i = i]) (use assms in auto)
  moreover have "count_upto n (P(i := True)) = Suc (count_upto n (P(i := True, j := False)))"
    by (rule count_upto_clear[where i = j]) (use assms in auto)
  ultimately show ?thesis by simp
qed

lemma used_ok_swap:
  assumes "used_ok cn" "i < 256" "j < 256" "i \<noteq> j"
    and "c_is_valid (cn_slots cn i) = 0" "c_is_valid (cn_slots cn j) \<noteq> 0"
  shows "used_ok (set_slot j zero_cap (set_slot i (cn_slots cn j) cn))"
proof -
  let ?P = "\<lambda>k. c_is_valid (cn_slots cn k) \<noteq> 0"
  have "(\<lambda>k. c_is_valid (cn_slots (set_slot j zero_cap (set_slot i (cn_slots cn j) cn)) k) \<noteq> 0) =
      ?P(i := True, j := False)"
    using assms by (auto simp: fun_eq_iff)
  then show ?thesis
    using assms(1) count_swap[of i 256 j ?P] assms(2-6) by (simp add: used_ok_def)
qed

subsection \<open>Properties\<close>

text \<open>
  C8 (safety). No sequence of copies, mints, moves and deletes amplifies authority: every valid
  capability of the resulting nodes designates an object some capability of the initial nodes
  designated, with the same hardware bounds and at most its rights.
\<close>

theorem cnode_run_no_amplification:
  assumes "caps_of (foldl cnode_step h ops) (n, i) = Some c"
  shows "\<exists>m j c0. caps_of h (m, j) = Some c0 \<and> cap_le c c0"
proof -
  have "bounded_by (ran (caps_of h)) h"
    unfolding bounded_by_def using cap_le_refl by blast
  then have "bounded_by (ran (caps_of h)) (foldl cnode_step h ops)"
    by (rule cspace.run_inv)
  from bounded_byD[OF this assms] show ?thesis by (auto simp: ran_def)
qed

definition demo_heap :: cnode_heap where
  "demo_heap = (\<lambda>_. zero_cnode\<lparr>cn_radix := 8, cn_used := 1,
     cn_slots := (cn_slots zero_cnode)(3 := zero_cap\<lparr>c_type := CAP_ENDPOINT, c_rights := 7,
        c_is_valid := 1, c_hw_cap := zero_sim_cap\<lparr>hw_tag := 1\<rparr>\<rparr>)\<rparr>)"

lemma demo_heap_direct: "direct_node (demo_heap n)"
  by (simp add: demo_heap_def direct_node_def zero_cnode_def)

lemma demo_heap_lookup: "cnode_lookup demo_heap (Some n) 3 = Some 3"
  by (simp add: cnode_lookup_direct demo_heap_direct)
    (simp add: demo_heap_def cheri_tag_get_def)

lemma demo_heap_mint:
  "cnode_mint demo_heap (Some 0) 5 (Some 0) 3 1 9 =
     Inr (demo_heap(0 := (set_slot 5 (zero_cap\<lparr>c_type := CAP_ENDPOINT, c_rights := 1, c_badge := 9,
        c_is_valid := 1, c_hw_cap := zero_sim_cap\<lparr>hw_tag := 1\<rparr>\<rparr>) (demo_heap 0))\<lparr>cn_used := 2\<rparr>))"
  by (simp add: cnode_mint_def demo_heap_lookup)
    (simp add: demo_heap_def zero_cnode_def zero_cap_def cap_has_right_def cap_derive_def set_slot_def Let_def)

theorem cnode_run_no_amplification_witness:
  "\<exists>m j c0. caps_of demo_heap (m, j) = Some c0 \<and> subrights 1 (c_rights c0)"
proof -
  have "caps_of (foldl cnode_step demo_heap [OpMint 0 5 0 3 1 9]) (0, 5) =
      Some (zero_cap\<lparr>c_type := CAP_ENDPOINT, c_rights := 1, c_badge := 9,
        c_is_valid := 1, c_hw_cap := zero_sim_cap\<lparr>hw_tag := 1\<rparr>\<rparr>)"
    by (simp add: demo_heap_mint caps_of_def)
  from cnode_run_no_amplification[OF this] show ?thesis
    by (auto simp: cap_le_def)
qed

text \<open>
  (roundtrip). After a successful mint into a directly indexed node, looking the
  destination up finds the derived capability: the source capability with the requested rights,
  which it had, and the requested badge. Every other slot of every node is unchanged.
\<close>

theorem cnode_mint_lookup:
  assumes "cnode_mint h (Some d) dst_idx (Some s) src_idx rights badge = Inr h'"
    and "direct_node (h d)"
  shows "\<exists>si. cnode_lookup h (Some s) src_idx = Some si \<and>
    cnode_lookup h' (Some d) dst_idx = Some (unat dst_idx) \<and>
    cn_slots (h' d) (unat dst_idx) = (cn_slots (h s) si)\<lparr>c_rights := rights, c_badge := badge\<rparr> \<and>
    subrights rights (c_rights (cn_slots (h s) si)) \<and>
    (\<forall>n i. (n, i) \<noteq> (d, unat dst_idx) \<longrightarrow> cn_slots (h' n) i = cn_slots (h n) i)"
proof -
  obtain si where *: "dst_idx < 256" "cnode_lookup h (Some s) src_idx = Some si"
      "subrights rights (c_rights (cn_slots (h s) si))"
      "h' = h(d := (set_slot (unat dst_idx)
        ((cn_slots (h s) si)\<lparr>c_rights := rights, c_badge := badge\<rparr>) (h d))\<lparr>cn_used := cn_used (h d) + 1\<rparr>)"
    using cnode_mint_Inr[OF assms(1)] by auto
  have "c_is_valid (cn_slots (h s) si) \<noteq> 0" "cheri_tag_get (c_hw_cap (cn_slots (h s) si))"
    using cnode_lookup_Some[OF *(2)] by auto
  moreover have "direct_node (h' d)" using assms(2) *(4) by (simp add: direct_node_def)
  ultimately show ?thesis
    using *(1,2,3) cnode_lookup_direct[of h' d dst_idx] by (auto simp: *(4))
qed

theorem cnode_mint_lookup_witness:
  "\<exists>h'. cnode_mint demo_heap (Some 0) 5 (Some 0) 3 1 9 = Inr h' \<and>
     cnode_lookup h' (Some 0) 5 = Some 5"
  using cnode_mint_lookup[OF demo_heap_mint demo_heap_direct] demo_heap_mint by auto

text \<open>
  (invariant). The counter \<^verbatim>\<open>used\<close> of a node is the number of its valid slots: copy, mint and
  delete keep this for every node, and so does a move inside one node.
\<close>

theorem cnode_used_counts_valid_slots:
  assumes "\<And>n. used_ok (h n)"
    and "\<And>d i s j. a = OpMove d i s j \<Longrightarrow> d = s"
  shows "used_ok (cnode_step h a n)"
proof (cases a)
  case (OpCopy d i s j r)
  show ?thesis
  proof (cases "cnode_copy h (Some d) (ucast i) (Some s) (ucast j) r")
    case (Inr h')
    then show ?thesis using OpCopy assms(1) cnode_copy_Inr[OF Inr]
      by (auto simp: caps_of_def intro!: used_ok_fill dest!: cnode_lookup_Some split: if_splits)
  qed (use OpCopy assms(1) in simp)
next
  case (OpMint d i s j r b)
  show ?thesis
  proof (cases "cnode_mint h (Some d) (ucast i) (Some s) (ucast j) r b")
    case (Inr h')
    then show ?thesis using OpMint assms(1) cnode_mint_Inr[OF Inr]
      by (auto simp: caps_of_def intro!: used_ok_fill dest!: cnode_lookup_Some split: if_splits)
  qed (use OpMint assms(1) in simp)
next
  case (OpMove d i s j)
  then have ds: "d = s" using assms(2) by blast
  obtain r where r: "cnode_move h (Some d) (ucast i) (Some s) (ucast j) = Some r"
    using cnode_move_defined[of h "Some d" i "Some s" "ucast j"] by blast
  show ?thesis
  proof (cases r)
    case (Inr h')
    then show ?thesis
      using OpMove ds r assms(1) cnode_move_Inr[of h "Some d" "ucast i" "Some s" "ucast j" h']
      by (auto simp: caps_of_def Let_def intro!: used_ok_swap dest!: cnode_lookup_Some split: if_splits)
  qed (use OpMove r assms(1) in simp)
next
  case (OpDelete m i)
  show ?thesis
  proof (cases "cnode_delete h (Some m) (ucast i)")
    case (Inr h')
    then show ?thesis using OpDelete assms(1) cnode_delete_Inr[OF Inr]
      by (auto simp: caps_of_def intro!: used_ok_empty split: if_splits)
  qed (use OpDelete assms(1) in simp)
qed

lemma demo_heap_used: "used_ok (demo_heap n)"
proof -
  have "{i::nat. i < 256 \<and> c_is_valid (cn_slots (demo_heap n) i) \<noteq> 0} = {3}"
    by (auto simp: demo_heap_def zero_cnode_def)
  then show ?thesis by (simp add: used_ok_def count_upto_def) (simp add: demo_heap_def)
qed

theorem cnode_used_counts_valid_slots_witness:
  "used_ok (cnode_step demo_heap (OpMint 0 5 0 3 1 9) 0)"
  by (rule cnode_used_counts_valid_slots) (auto simp: demo_heap_used)

text \<open>
  (invariant). A move between two different nodes changes neither counter: when both counters
  were right before, both are wrong after.
\<close>

theorem cnode_move_across_miscounts:
  assumes "cnode_move h (Some d) dst_idx (Some s) src_idx = Some (Inr h')"
    and "d \<noteq> s" "used_ok (h d)" "used_ok (h s)"
  shows "\<not> used_ok (h' d) \<and> \<not> used_ok (h' s) \<and> cn_used (h' d) = cn_used (h d) \<and> cn_used (h' s) = cn_used (h s)"
proof -
  obtain si where *: "dst_idx < 256" "cnode_lookup h (Some s) src_idx = Some si"
      "c_is_valid (cn_slots (h d) (unat dst_idx)) = 0"
      "h' = h(d := set_slot (unat dst_idx) (cn_slots (h s) si) (h d), s := set_slot si zero_cap (h s))"
    using cnode_move_Inr[OF assms(1)] assms(2) by (auto simp: Let_def caps_of_def split: if_splits)
  have v: "c_is_valid (cn_slots (h s) si) \<noteq> 0" "si < 256" using cnode_lookup_Some[OF *(2)] by auto
  have "count_upto 256 (\<lambda>j. c_is_valid (cn_slots (h' d) j) \<noteq> 0) =
      Suc (count_upto 256 (\<lambda>j. c_is_valid (cn_slots (h d) j) \<noteq> 0))"
    by (rule count_upto_set[where i = "unat dst_idx"]) (use * v assms(2) in auto)
  moreover have "count_upto 256 (\<lambda>j. c_is_valid (cn_slots (h s) j) \<noteq> 0) =
      Suc (count_upto 256 (\<lambda>j. c_is_valid (cn_slots (h' s) j) \<noteq> 0))"
    by (rule count_upto_clear[where i = si]) (use * v in auto)
  ultimately show ?thesis using assms(2-4) *(4) by (simp add: used_ok_def)
qed

lemma demo_heap_move:
  "cnode_move demo_heap (Some 1) 7 (Some 0) 3 =
     Some (Inr (demo_heap(1 := set_slot 7 (cn_slots (demo_heap 0) 3) (demo_heap 1),
       0 := set_slot 3 zero_cap (demo_heap 0))))"
  by (simp add: cnode_move_def demo_heap_lookup Let_def) (simp add: demo_heap_def zero_cnode_def)

theorem cnode_move_across_miscounts_witness:
  "\<exists>h'. cnode_move demo_heap (Some 1) 7 (Some 0) 3 = Some (Inr h') \<and> \<not> used_ok (h' 1)"
  using cnode_move_across_miscounts[OF demo_heap_move _ demo_heap_used demo_heap_used] demo_heap_move
  by blast

text \<open>
  (safety). A move reads or writes outside the slot array exactly when its source is a valid
  capability and the destination index is 256 or more; with the eight-bit slot numbers of the
  system-call interface it never does.
\<close>

theorem cnode_move_in_bounds:
  "(cnode_move h dst dst_idx src src_idx = None \<longleftrightarrow>
     dst \<noteq> None \<and> cnode_lookup h src src_idx \<noteq> None \<and> 256 \<le> dst_idx) \<and>
   cnode_move h dst (ucast (i :: u8)) src src_idx \<noteq> None"
  using cnode_move_defined[of h dst i src src_idx]
  by (auto simp: cnode_move_def Let_def cnode_lookup_def split: option.splits)

end
