(* ===== verification/Thread.thy ===== *)
theory Thread
  imports CNode
begin

text \<open>
  Thread control blocks, \<^verbatim>\<open>kernel/include/tcb.h\<close> and \<^verbatim>\<open>kernel/src/tcb.c\<close>. A \<^verbatim>\<open>tcb_t *\<close> that
  may be \<open>NULL\<close> is an \<open>option\<close>; the \<^verbatim>\<open>void\<close> operations return the block they leave behind.
\<close>

datatype tcb_state_t =
    TCB_INACTIVE
  | TCB_RUNNABLE
  | TCB_BLOCKED_SEND
  | TCB_BLOCKED_RECV
  | TCB_BLOCKED_REPLY

record tcb_t =
  t_id :: u32
  t_state :: tcb_state_t
  t_pc :: u64
  t_sp :: u64
  t_csp :: sim_cap_t
  t_pcc :: sim_cap_t
  t_cspace :: "nat option"
  t_vspace_root :: u64
  t_asid :: asid_t
  t_time_partition :: u32
  t_sched_context :: u32
  t_priority :: u32
  t_ipc_buffer :: ipc_msg_t
  t_bound_notification :: u32
  t_bound_endpoint :: u32
  t_fault_addr :: u64
  t_fault_type :: u32

definition zero_tcb :: tcb_t where
  "zero_tcb = \<lparr>t_id = 0, t_state = TCB_INACTIVE, t_pc = 0, t_sp = 0, t_csp = zero_sim_cap,
     t_pcc = zero_sim_cap, t_cspace = None, t_vspace_root = 0, t_asid = 0, t_time_partition = 0,
     t_sched_context = 0, t_priority = 0, t_ipc_buffer = zero_msg, t_bound_notification = 0,
     t_bound_endpoint = 0, t_fault_addr = 0, t_fault_type = 0\<rparr>"

abbreviation (input) MAX_TCBS :: u32 where "MAX_TCBS \<equiv> 128"

record tcb_table_t =
  tt_threads :: "tcb_t arr"
  tt_count :: u32

definition tcb_configure ::
  "tcb_t option \<Rightarrow> nat option \<Rightarrow> u64 \<Rightarrow> asid_t \<Rightarrow> u32 \<Rightarrow> kerror_t + tcb_t" where
  "tcb_configure tp cspace vspace_root asid part =
     (case (tp, cspace) of
        (Some t, Some _) \<Rightarrow>
          Inr (t\<lparr>t_cspace := cspace, t_vspace_root := vspace_root, t_asid := asid,
                 t_time_partition := part, t_state := TCB_INACTIVE\<rparr>)
      | _ \<Rightarrow> Inl ERR_INVALID_ARG)"

definition tcb_set_regs ::
  "tcb_t option \<Rightarrow> u64 \<Rightarrow> u64 \<Rightarrow> sim_cap_t \<Rightarrow> sim_cap_t \<Rightarrow> kerror_t + tcb_t" where
  "tcb_set_regs tp pc sp pcc csp =
     (case tp of
        None \<Rightarrow> Inl ERR_INVALID_ARG
      | Some t \<Rightarrow>
          if \<not> cheri_tag_get pcc \<or> \<not> cheri_tag_get csp then Inl ERR_INVALID_CAP
          else Inr (t\<lparr>t_pc := pc, t_sp := sp, t_pcc := pcc, t_csp := csp\<rparr>))"

definition tcb_suspend :: "tcb_t option \<Rightarrow> tcb_t option" where
  "tcb_suspend tp = (case tp of None \<Rightarrow> None | Some t \<Rightarrow> Some (t\<lparr>t_state := TCB_INACTIVE\<rparr>))"

definition tcb_resume :: "tcb_t option \<Rightarrow> tcb_t option" where
  "tcb_resume tp =
     (case tp of
        None \<Rightarrow> None
      | Some t \<Rightarrow>
          if t_state t = TCB_INACTIVE \<or> t_state t = TCB_BLOCKED_RECV \<or>
             t_state t = TCB_BLOCKED_SEND \<or> t_state t = TCB_BLOCKED_REPLY
          then Some (t\<lparr>t_state := TCB_RUNNABLE\<rparr>) else Some t)"

definition tcb_is_runnable :: "tcb_t option \<Rightarrow> bool" where
  "tcb_is_runnable tp \<longleftrightarrow> (case tp of None \<Rightarrow> False | Some t \<Rightarrow> t_state t = TCB_RUNNABLE)"

definition tcb_wake_from_ipc :: "tcb_t option \<Rightarrow> u32 \<Rightarrow> kerror_t + tcb_t" where
  "tcb_wake_from_ipc tp sender_id =
     (case tp of
        None \<Rightarrow> Inl ERR_INVALID_ARG
      | Some t \<Rightarrow>
          if t_state t \<noteq> TCB_BLOCKED_RECV \<and> t_state t \<noteq> TCB_BLOCKED_REPLY then Inl ERR_INVALID_ARG
          else Inr (t\<lparr>t_state := TCB_RUNNABLE, t_fault_addr := 0, t_fault_type := 0\<rparr>))"

subsection \<open>Lemmas\<close>

definition upd_thread :: "nat \<Rightarrow> tcb_t \<Rightarrow> tcb_table_t \<Rightarrow> tcb_table_t" where
  "upd_thread i t tt = tt\<lparr>tt_threads := (tt_threads tt)(i := t)\<rparr>"

lemma upd_thread_fields [simp]:
  "tt_threads (upd_thread i t tt) = (tt_threads tt)(i := t)" "tt_count (upd_thread i t tt) = tt_count tt"
  by (simp_all add: upd_thread_def)

lemma tcb_resume_state [simp]:
  "tcb_resume (Some t) = Some (t\<lparr>t_state := TCB_RUNNABLE\<rparr>)"
  by (cases "t_state t") (auto simp: tcb_resume_def)

lemma tcb_wake_Inr:
  "tcb_wake_from_ipc (Some t) s = Inr t' \<longleftrightarrow>
     (t_state t = TCB_BLOCKED_RECV \<or> t_state t = TCB_BLOCKED_REPLY) \<and>
     t' = t\<lparr>t_state := TCB_RUNNABLE, t_fault_addr := 0, t_fault_type := 0\<rparr>"
  by (auto simp: tcb_wake_from_ipc_def)

end
