(* ===== verification/Endpoint.thy ===== *)
theory Endpoint
  imports Thread
begin

text \<open>
  Synchronous IPC endpoints, \<^verbatim>\<open>kernel/include/endpoint.h\<close> and \<^verbatim>\<open>kernel/src/endpoint.c\<close>: a
  rendezvous flag and a ring buffer of sixteen senders and messages. The operations wake threads of
  the global table \<^verbatim>\<open>g_tcbs\<close>, which is threaded through. The ring indices are bytes kept below
  sixteen by \<open>ring_inv\<close>, which every operation preserves.
\<close>

record endpoint_t =
  ep_has_sender :: bool
  ep_has_receiver :: bool
  ep_sender_tcb :: u32
  ep_receiver_tcb :: u32
  ep_pending_msg :: ipc_msg_t
  ep_pending :: bool
  ep_queue :: "u32 arr"
  ep_queue_msgs :: "ipc_msg_t arr"
  ep_q_head :: u8
  ep_q_tail :: u8
  ep_q_len :: u8
  ep_badge :: u64

definition zero_endpoint :: endpoint_t where
  "zero_endpoint = \<lparr>ep_has_sender = False, ep_has_receiver = False, ep_sender_tcb = 0,
     ep_receiver_tcb = 0, ep_pending_msg = zero_msg, ep_pending = False, ep_queue = (\<lambda>_. 0),
     ep_queue_msgs = (\<lambda>_. zero_msg), ep_q_head = 0, ep_q_tail = 0, ep_q_len = 0, ep_badge = 0\<rparr>"

text \<open>The result of \<open>tcb_wake_from_ipc\<close> is ignored: a thread that is not blocked is left alone.\<close>

definition wake_thread :: "tcb_table_t \<Rightarrow> u32 \<Rightarrow> u32 \<Rightarrow> tcb_table_t" where
  "wake_thread tt recvr sender =
     (if recvr < MAX_TCBS then
        (case tcb_wake_from_ipc (Some (tt_threads tt (unat recvr))) sender of
           Inl _ \<Rightarrow> tt
         | Inr t \<Rightarrow> upd_thread (unat recvr) t tt)
      else tt)"

definition resume_sender :: "tcb_table_t \<Rightarrow> u32 \<Rightarrow> tcb_table_t" where
  "resume_sender tt sender =
     (if sender < MAX_TCBS then
        (if t_state (tt_threads tt (unat sender)) = TCB_BLOCKED_SEND then
           (case tcb_resume (Some (tt_threads tt (unat sender))) of
              None \<Rightarrow> tt
            | Some t \<Rightarrow> upd_thread (unat sender) t tt)
         else tt)
      else tt)"

definition endpoint_send ::
  "endpoint_t option \<Rightarrow> tcb_table_t \<Rightarrow> u32 \<Rightarrow> ipc_msg_t option \<Rightarrow> kerror_t + (endpoint_t \<times> tcb_table_t)" where
  "endpoint_send epp tt sender msgp =
     (case (epp, msgp) of
        (Some ep, Some msg) \<Rightarrow>
          if msg_length msg > IPC_MSG_MAX then Inl ERR_INVALID_ARG
          else if msg_caps msg > IPC_CAPS_MAX then Inl ERR_INVALID_ARG
          else if ep_has_receiver ep then
            Inr (ep\<lparr>ep_pending_msg := msg, ep_pending := True, ep_has_receiver := False\<rparr>,
                 wake_thread tt (ep_receiver_tcb ep) sender)
          else if ep_q_len ep \<ge> 16 then Inl ERR_OVERFLOW
          else
            Inr (ep\<lparr>ep_queue := (ep_queue ep)(unat (ep_q_tail ep) := sender),
                    ep_queue_msgs := (ep_queue_msgs ep)(unat (ep_q_tail ep) := msg),
                    ep_q_tail := (ep_q_tail ep + 1) mod 16,
                    ep_q_len := ep_q_len ep + 1,
                    ep_pending_msg := msg,
                    ep_pending := True\<rparr>, tt)
      | _ \<Rightarrow> Inl ERR_INVALID_ARG)"

text \<open>The first component of the result is what is stored in \<^verbatim>\<open>*out\<close>, \<open>None\<close> when nothing is.\<close>

definition endpoint_recv ::
  "endpoint_t option \<Rightarrow> tcb_table_t \<Rightarrow> u32 \<Rightarrow> ipc_msg_t option \<Rightarrow>
   kerror_t + (ipc_msg_t option \<times> endpoint_t \<times> tcb_table_t)" where
  "endpoint_recv epp tt receiver outp =
     (case (epp, outp) of
        (Some ep, Some _) \<Rightarrow>
          if ep_q_len ep > 0 then
            let out = ep_queue_msgs ep (unat (ep_q_head ep));
                sender = ep_queue ep (unat (ep_q_head ep));
                ep1 = ep\<lparr>ep_q_head := (ep_q_head ep + 1) mod 16, ep_q_len := ep_q_len ep - 1\<rparr>;
                ep2 = (if ep_q_len ep1 = 0 then ep1\<lparr>ep_pending := False\<rparr>
                       else ep1\<lparr>ep_pending_msg := ep_queue_msgs ep1 (unat (ep_q_head ep1))\<rparr>) in
            Inr (Some out, ep2, resume_sender tt sender)
          else if ep_pending ep then
            Inr (Some (ep_pending_msg ep), ep\<lparr>ep_pending := False, ep_has_receiver := False\<rparr>, tt)
          else
            Inr (None, ep\<lparr>ep_has_receiver := True, ep_receiver_tcb := receiver\<rparr>, tt)
      | _ \<Rightarrow> Inl ERR_INVALID_ARG)"

text \<open>
  The store at \<^verbatim>\<open>q_tail\<close> and the reads at \<^verbatim>\<open>q_head\<close> are inside the arrays of the ring; otherwise a
  caller is undefined.
\<close>

definition endpoint_send_safe :: "endpoint_t \<Rightarrow> ipc_msg_t \<Rightarrow> bool" where
  "endpoint_send_safe ep msg \<longleftrightarrow>
     msg_length msg > IPC_MSG_MAX \<or> msg_caps msg > IPC_CAPS_MAX \<or> ep_has_receiver ep \<or> ep_q_len ep \<ge> 16 \<or> unat (ep_q_tail ep) < 16"

definition endpoint_recv_safe :: "endpoint_t \<Rightarrow> bool" where
  "endpoint_recv_safe ep \<longleftrightarrow> (ep_q_len ep > 0 \<longrightarrow> unat (ep_q_head ep) < 16)"

definition endpoint_call ::
  "endpoint_t option \<Rightarrow> tcb_table_t \<Rightarrow> u32 \<Rightarrow> ipc_msg_t option \<Rightarrow> ipc_msg_t option \<Rightarrow>
   kerror_t + (endpoint_t \<times> tcb_table_t)" where
  "endpoint_call epp tt caller msgp replyp =
     (if epp = None \<or> msgp = None \<or> replyp = None then Inl ERR_INVALID_ARG
      else endpoint_send epp tt caller msgp)"

subsection \<open>The ring buffer\<close>

definition ring_inv :: "endpoint_t \<Rightarrow> bool" where
  "ring_inv ep \<longleftrightarrow> unat (ep_q_head ep) < 16 \<and> unat (ep_q_len ep) \<le> 16 \<and>
     unat (ep_q_tail ep) = (unat (ep_q_head ep) + unat (ep_q_len ep)) mod 16"

lemma ring_safe: "ring_inv ep \<Longrightarrow> endpoint_send_safe ep msg" "ring_inv ep \<Longrightarrow> endpoint_recv_safe ep"
  by (simp_all add: ring_inv_def endpoint_send_safe_def endpoint_recv_safe_def)

text \<open>The queued senders and messages, oldest first.\<close>

definition ep_slot :: "endpoint_t \<Rightarrow> nat \<Rightarrow> u32 \<times> ipc_msg_t" where
  "ep_slot ep k = (ep_queue ep ((unat (ep_q_head ep) + k) mod 16),
     ep_queue_msgs ep ((unat (ep_q_head ep) + k) mod 16))"

definition ep_contents :: "endpoint_t \<Rightarrow> (u32 \<times> ipc_msg_t) list" where
  "ep_contents ep = map (ep_slot ep) [0..<unat (ep_q_len ep)]"

lemma length_ep_contents [simp]: "length (ep_contents ep) = unat (ep_q_len ep)"
  by (simp add: ep_contents_def)

lemma ring_inv_zero [simp]: "ring_inv zero_endpoint"
  by (simp add: ring_inv_def zero_endpoint_def)

lemma unat_inc_mod16: "unat (x :: u8) < 16 \<Longrightarrow> unat ((x + 1) mod 16) = (unat x + 1) mod 16"
proof -
  assume "unat x < 16"
  then have "unat (x + 1) = unat x + 1" by (subst unat_add_lem[THEN iffD1]) simp_all
  then show ?thesis by (simp add: unat_mod)
qed

lemma ring_ix_inj_le:
  fixes h j k :: nat
  assumes "j \<le> k" "k < 16" "(h + j) mod 16 = (h + k) mod 16"
  shows "j = k"
proof -
  have "16 dvd (h + k) - (h + j)"
    using assms(1,3) mod_eq_dvd_iff_nat[of "h + j" "h + k" 16] by simp
  then have "k - j = 0" using assms(2) dvd_imp_le[of 16 "k - j"] by (cases "k - j = 0") simp_all
  then show ?thesis using assms(1) by simp
qed

lemma ring_ix_inj:
  fixes h j k :: nat
  assumes "j < 16" "k < 16" "(h + j) mod 16 = (h + k) mod 16"
  shows "j = k"
  using ring_ix_inj_le[of j k h] ring_ix_inj_le[of k j h] assms by (metis nat_le_linear)

text \<open>The state after a send that finds no receiver, and after a receive that finds a message.\<close>

definition ep_push :: "u32 \<Rightarrow> ipc_msg_t \<Rightarrow> endpoint_t \<Rightarrow> endpoint_t" where
  "ep_push sender msg ep = ep\<lparr>ep_queue := (ep_queue ep)(unat (ep_q_tail ep) := sender),
      ep_queue_msgs := (ep_queue_msgs ep)(unat (ep_q_tail ep) := msg),
      ep_q_tail := (ep_q_tail ep + 1) mod 16, ep_q_len := ep_q_len ep + 1,
      ep_pending_msg := msg, ep_pending := True\<rparr>"

definition ep_pop :: "endpoint_t \<Rightarrow> endpoint_t" where
  "ep_pop ep = (let ep1 = ep\<lparr>ep_q_head := (ep_q_head ep + 1) mod 16, ep_q_len := ep_q_len ep - 1\<rparr> in
     if ep_q_len ep1 = 0 then ep1\<lparr>ep_pending := False\<rparr>
     else ep1\<lparr>ep_pending_msg := ep_queue_msgs ep1 (unat (ep_q_head ep1))\<rparr>)"

definition msg_ok :: "ipc_msg_t \<Rightarrow> bool" where
  "msg_ok m \<longleftrightarrow> msg_length m \<le> IPC_MSG_MAX \<and> msg_caps m \<le> IPC_CAPS_MAX"

lemma endpoint_send_queued:
  assumes "\<not> ep_has_receiver ep"
  shows "endpoint_send (Some ep) tt sender (Some msg) =
    (if \<not> msg_ok msg then Inl ERR_INVALID_ARG
     else if unat (ep_q_len ep) \<ge> 16 then Inl ERR_OVERFLOW
     else Inr (ep_push sender msg ep, tt))"
  using assms by (simp add: endpoint_send_def ep_push_def msg_ok_def word_le_nat_alt linorder_not_le[symmetric])

lemma endpoint_send_rendezvous:
  assumes "ep_has_receiver ep" "msg_ok msg"
  shows "endpoint_send (Some ep) tt sender (Some msg) =
    Inr (ep\<lparr>ep_pending_msg := msg, ep_pending := True, ep_has_receiver := False\<rparr>,
      wake_thread tt (ep_receiver_tcb ep) sender)"
  using assms by (simp add: endpoint_send_def msg_ok_def linorder_not_le[symmetric])

lemma ep_contents_Cons:
  assumes "0 < unat (ep_q_len ep)"
  shows "ep_contents ep = ep_slot ep 0 # map (ep_slot ep) [1..<unat (ep_q_len ep)]"
  using assms by (simp add: ep_contents_def upt_conv_Cons)

lemma endpoint_recv_queued:
  assumes "ring_inv ep" "0 < unat (ep_q_len ep)"
  shows "endpoint_recv (Some ep) tt receiver (Some out) =
    Inr (Some (snd (hd (ep_contents ep))), ep_pop ep, resume_sender tt (fst (hd (ep_contents ep))))"
proof -
  have "hd (ep_contents ep) = (ep_queue ep (unat (ep_q_head ep)), ep_queue_msgs ep (unat (ep_q_head ep)))"
    using assms by (simp add: ep_contents_Cons ep_slot_def ring_inv_def)
  then show ?thesis
    using assms(2) by (simp add: endpoint_recv_def ep_pop_def Let_def word_gt_0 unat_gt_0)
qed

lemma ep_push_ring:
  assumes "ring_inv ep" "unat (ep_q_len ep) < 16"
  shows "ring_inv (ep_push s m ep)" "ep_contents (ep_push s m ep) = ep_contents ep @ [(s, m)]"
proof -
  have len: "unat (ep_q_len ep + 1) = Suc (unat (ep_q_len ep))"
    using assms(2) by (subst unat_add_lem[THEN iffD1]) simp_all
  have tl: "unat (ep_q_tail ep) = (unat (ep_q_head ep) + unat (ep_q_len ep)) mod 16"
      "unat (ep_q_tail ep) < 16"
    using assms(1) by (simp_all add: ring_inv_def)
  show "ring_inv (ep_push s m ep)"
    using assms len tl unat_inc_mod16[of "ep_q_tail ep"]
    by (simp add: ring_inv_def ep_push_def mod_simps)
  have "ep_slot (ep_push s m ep) k = ep_slot ep k" if "k < unat (ep_q_len ep)" for k
  proof -
    have "(unat (ep_q_head ep) + k) mod 16 \<noteq> unat (ep_q_tail ep)"
      using ring_ix_inj[of k "unat (ep_q_len ep)" "unat (ep_q_head ep)"] that assms(2) tl(1) by auto
    then show ?thesis by (simp add: ep_slot_def ep_push_def)
  qed
  moreover have "ep_slot (ep_push s m ep) (unat (ep_q_len ep)) = (s, m)"
    using tl(1) by (simp add: ep_slot_def ep_push_def)
  moreover have "unat (ep_q_len (ep_push s m ep)) = Suc (unat (ep_q_len ep))"
    using len by (simp add: ep_push_def)
  ultimately show "ep_contents (ep_push s m ep) = ep_contents ep @ [(s, m)]"
    by (simp add: ep_contents_def)
qed

lemma ep_pop_fields:
  "ep_q_head (ep_pop ep) = (ep_q_head ep + 1) mod 16" "ep_q_len (ep_pop ep) = ep_q_len ep - 1"
  "ep_q_tail (ep_pop ep) = ep_q_tail ep" "ep_queue (ep_pop ep) = ep_queue ep"
  "ep_queue_msgs (ep_pop ep) = ep_queue_msgs ep" "ep_has_receiver (ep_pop ep) = ep_has_receiver ep"
  by (simp_all add: ep_pop_def Let_def)

lemma ep_pop_ring:
  assumes "ring_inv ep" "0 < unat (ep_q_len ep)"
  shows "ring_inv (ep_pop ep)" "ep_contents (ep_pop ep) = tl (ep_contents ep)"
proof -
  have len: "unat (ep_q_len ep - 1) = unat (ep_q_len ep) - 1"
    using assms(2) by (subst unat_minus_one) auto
  have hd: "unat ((ep_q_head ep + 1) mod 16) = (unat (ep_q_head ep) + 1) mod 16"
    using assms(1) unat_inc_mod16 by (simp add: ring_inv_def)
  obtain n where n: "unat (ep_q_len ep) = Suc n" using assms(2) by (cases "unat (ep_q_len ep)") auto
  have "(unat (ep_q_head ep) + Suc n) mod 16 = ((unat (ep_q_head ep) + 1) mod 16 + n) mod 16"
    by (simp add: mod_simps)
  then show "ring_inv (ep_pop ep)"
    using assms len hd n by (simp add: ring_inv_def ep_pop_fields)
  have "ep_slot (ep_pop ep) k = ep_slot ep (Suc k)" for k
    using hd by (simp add: ep_slot_def ep_pop_fields mod_simps)
  then have "ep_contents (ep_pop ep) = map (\<lambda>k. ep_slot ep (Suc k)) [0..<unat (ep_q_len ep) - 1]"
    using len by (simp add: ep_contents_def ep_pop_fields)
  also have "\<dots> = map (ep_slot ep) [1..<unat (ep_q_len ep)]"
    by (rule nth_equalityI) simp_all
  finally show "ep_contents (ep_pop ep) = tl (ep_contents ep)"
    using assms(2) by (simp add: ep_contents_Cons)
qed

subsection \<open>A bounded queue and its runs\<close>

text \<open>
  The contract a client of an endpoint relies on: a send appends to the backlog unless it is
  refused, a receive takes the oldest message or finds the backlog empty. A send is only covered
  in a \<open>ready\<close> state.
\<close>

datatype ('a, 'r) fifo_op = Put 'a | Get 'r

fun fifo_run ::
  "('q \<Rightarrow> 'a \<Rightarrow> 'q option) \<Rightarrow> ('q \<Rightarrow> 'r \<Rightarrow> 'm option \<times> 'q) \<Rightarrow> ('a \<Rightarrow> 'm) \<Rightarrow> 'q \<Rightarrow> ('a, 'r) fifo_op list \<Rightarrow>
   'm list \<times> 'm list \<times> 'q" where
  "fifo_run put get payload q [] = ([], [], q)"
| "fifo_run put get payload q (Put a # ops) =
     (case put q a of
        None \<Rightarrow> fifo_run put get payload q ops
      | Some q1 \<Rightarrow> (case fifo_run put get payload q1 ops of (acc, del, q2) \<Rightarrow> (payload a # acc, del, q2)))"
| "fifo_run put get payload q (Get r # ops) =
     (case get q r of
        (None, q1) \<Rightarrow> fifo_run put get payload q1 ops
      | (Some m, q1) \<Rightarrow> (case fifo_run put get payload q1 ops of (acc, del, q2) \<Rightarrow> (acc, m # del, q2)))"

text \<open>Every send of the run is made in a ready state.\<close>

fun fifo_disciplined ::
  "('q \<Rightarrow> 'a \<Rightarrow> 'q option) \<Rightarrow> ('q \<Rightarrow> 'r \<Rightarrow> 'm option \<times> 'q) \<Rightarrow> ('q \<Rightarrow> bool) \<Rightarrow> 'q \<Rightarrow> ('a, 'r) fifo_op list \<Rightarrow> bool" where
  "fifo_disciplined put get ready q [] \<longleftrightarrow> True"
| "fifo_disciplined put get ready q (Put a # ops) \<longleftrightarrow>
     ready q \<and> fifo_disciplined put get ready (case put q a of None \<Rightarrow> q | Some q1 \<Rightarrow> q1) ops"
| "fifo_disciplined put get ready q (Get r # ops) \<longleftrightarrow>
     fifo_disciplined put get ready (snd (get q r)) ops"

locale bounded_fifo =
  fixes put :: "'q \<Rightarrow> 'a \<Rightarrow> 'q option"
    and get :: "'q \<Rightarrow> 'r \<Rightarrow> 'm option \<times> 'q"
    and payload :: "'a \<Rightarrow> 'm"
    and contents :: "'q \<Rightarrow> 'm list"
    and inv :: "'q \<Rightarrow> bool"
    and ready :: "'q \<Rightarrow> bool"
    and capacity :: nat
  assumes put_Some: "inv q \<Longrightarrow> ready q \<Longrightarrow> put q a = Some q1 \<Longrightarrow> inv q1 \<and> contents q1 = contents q @ [payload a]"
    and get_empty: "inv q \<Longrightarrow> contents q = [] \<Longrightarrow> \<exists>q1. get q r = (None, q1) \<and> inv q1 \<and> contents q1 = []"
    and get_Cons: "inv q \<Longrightarrow> contents q = m # ms \<Longrightarrow> \<exists>q1. get q r = (Some m, q1) \<and> inv q1 \<and> contents q1 = ms"
    and bounded: "inv q \<Longrightarrow> length (contents q) \<le> capacity"
begin

lemma run_fifo:
  assumes "inv q" "fifo_disciplined put get ready q ops" "fifo_run put get payload q ops = (acc, del, q2)"
  shows "inv q2 \<and> contents q @ acc = del @ contents q2"
  using assms
proof (induction ops arbitrary: q acc del)
  case Nil
  then show ?case by simp
next
  case (Cons op ops)
  show ?case
  proof (cases op)
    case (Put a)
    show ?thesis
    proof (cases "put q a")
      case None
      then show ?thesis using Cons.IH[of q acc del] Cons.prems Put by simp
    next
      case (Some q1)
      then obtain acc1 where run: "fifo_run put get payload q1 ops = (acc1, del, q2)" and acc: "acc = payload a # acc1"
        using Cons.prems(3) Put by (auto split: prod.splits)
      have "inv q1 \<and> contents q1 = contents q @ [payload a]"
        using put_Some[OF Cons.prems(1) _ Some] Cons.prems(2) Put by simp
      then show ?thesis using Cons.IH[OF _ _ run] Cons.prems(2) Put Some acc by simp
    qed
  next
    case (Get r)
    show ?thesis
    proof (cases "contents q")
      case Nil
      obtain q1 where q1: "get q r = (None, q1)" "inv q1" "contents q1 = []"
        using get_empty[OF Cons.prems(1) Nil] by blast
      then show ?thesis using Cons.IH[of q1 acc del] Cons.prems Get Nil by simp
    next
      case (Cons m ms)
      obtain q1 where q1: "get q r = (Some m, q1)" "inv q1" "contents q1 = ms"
        using get_Cons[OF Cons.prems(1) Cons] by blast
      then obtain del1 where run: "fifo_run put get payload q1 ops = (acc, del1, q2)" and del: "del = m # del1"
        using Cons.prems(3) Get by (auto split: prod.splits)
      show ?thesis using Cons.IH[OF q1(2) _ run] Cons.prems(2) Get q1 Cons del by simp
    qed
  qed
qed

end

subsection \<open>The endpoint as a bounded queue\<close>

text \<open>
  A message is in the ring, or, after a send has met a waiting receiver, in \<^verbatim>\<open>pending_msg\<close> until
  the receiver comes back for it (the hand-off). \<open>ep_inv\<close> says which of the two is in use.
\<close>

definition ep_inv :: "endpoint_t \<Rightarrow> bool" where
  "ep_inv ep \<longleftrightarrow> ring_inv ep \<and> (ep_q_len ep \<noteq> 0 \<longrightarrow> ep_pending ep) \<and> (ep_pending ep \<longrightarrow> \<not> ep_has_receiver ep)"

definition ep_handoff :: "endpoint_t \<Rightarrow> bool" where
  "ep_handoff ep \<longleftrightarrow> ep_pending ep \<and> ep_q_len ep = 0"

definition ep_backlog :: "endpoint_t \<Rightarrow> ipc_msg_t list" where
  "ep_backlog ep = (if ep_handoff ep then [ep_pending_msg ep] else map snd (ep_contents ep))"

definition ep_put :: "endpoint_t \<times> tcb_table_t \<Rightarrow> u32 \<times> ipc_msg_t \<Rightarrow> (endpoint_t \<times> tcb_table_t) option" where
  "ep_put q a = (case endpoint_send (Some (fst q)) (snd q) (fst a) (Some (snd a)) of Inl _ \<Rightarrow> None | Inr q1 \<Rightarrow> Some q1)"

definition ep_get :: "endpoint_t \<times> tcb_table_t \<Rightarrow> u32 \<Rightarrow> ipc_msg_t option \<times> endpoint_t \<times> tcb_table_t" where
  "ep_get q r = (case endpoint_recv (Some (fst q)) (snd q) r (Some zero_msg) of Inl _ \<Rightarrow> (None, q) | Inr x \<Rightarrow> x)"

lemma ep_inv_zero [simp]: "ep_inv zero_endpoint"
  by (simp add: ep_inv_def) (simp add: zero_endpoint_def)

lemma ep_contents_empty: "ep_q_len ep = 0 \<Longrightarrow> ep_contents ep = []"
  by (simp add: ep_contents_def)

lemma ep_put_correct:
  assumes "ep_inv ep" "\<not> ep_handoff ep" "ep_put (ep, tt) (s, m) = Some (ep1, tt1)"
  shows "ep_inv ep1 \<and> ep_backlog ep1 = ep_backlog ep @ [m]"
proof (cases "ep_has_receiver ep")
  case True
  then have len: "ep_q_len ep = 0" using assms(1) by (auto simp: ep_inv_def)
  have "msg_ok m" using assms(3) True
    by (auto simp: ep_put_def endpoint_send_def msg_ok_def split: if_splits)
  then have "ep1 = ep\<lparr>ep_pending_msg := m, ep_pending := True, ep_has_receiver := False\<rparr>"
    using assms(3) endpoint_send_rendezvous[OF True] by (simp add: ep_put_def)
  then show ?thesis using assms len
    by (simp add: ep_inv_def ep_backlog_def ep_handoff_def ring_inv_def ep_contents_empty)
next
  case False
  then have e: "ep1 = ep_push s m ep" "unat (ep_q_len ep) < 16"
    using assms(3) endpoint_send_queued[OF False, of tt s m] by (auto simp: ep_put_def split: if_splits)
  have "unat (ep_q_len ep + 1) = Suc (unat (ep_q_len ep))"
    using e(2) by (subst unat_add_lem[THEN iffD1]) simp_all
  then have nz: "ep_q_len ep1 \<noteq> 0" using e(1) by (auto simp: ep_push_def simp flip: unat_eq_0)
  have "ring_inv ep" using assms(1) by (simp add: ep_inv_def)
  then have "ring_inv ep1" "ep_contents ep1 = ep_contents ep @ [(s, m)]"
    using ep_push_ring e by simp_all
  moreover have "ep_pending ep1" "\<not> ep_has_receiver ep1" using e(1) False by (simp_all add: ep_push_def)
  ultimately show ?thesis using nz assms(2) by (auto simp: ep_inv_def ep_backlog_def ep_handoff_def)
qed

lemma ep_put_refuses:
  assumes "ep_inv ep" "\<not> ep_handoff ep"
  shows "ep_put (ep, tt) (s, m) = None \<longleftrightarrow> \<not> msg_ok m \<or> 16 \<le> length (ep_backlog ep)"
proof (cases "ep_has_receiver ep")
  case True
  then have "ep_q_len ep = 0" using assms(1) by (auto simp: ep_inv_def)
  then show ?thesis using True assms(2)
    by (auto simp: ep_put_def endpoint_send_def msg_ok_def ep_backlog_def ep_contents_empty)
next
  case False
  then show ?thesis using assms(2)
    by (auto simp: ep_put_def endpoint_send_queued ep_backlog_def)
qed

lemma ep_get_correct:
  assumes "ep_inv ep"
  shows "case ep_get (ep, tt) r of (om, ep1, tt1) \<Rightarrow>
    ep_inv ep1 \<and> om = (if ep_backlog ep = [] then None else Some (hd (ep_backlog ep))) \<and>
    ep_backlog ep1 = tl (ep_backlog ep)"
proof (cases "ep_q_len ep = 0")
  case True
  then show ?thesis using assms
    by (simp add: ep_get_def endpoint_recv_def ep_inv_def ep_backlog_def ep_handoff_def ep_contents_empty ring_inv_def)
next
  case False
  have ring: "ring_inv ep" and pos: "0 < unat (ep_q_len ep)" and nr: "\<not> ep_has_receiver ep" and pend: "ep_pending ep"
    using assms False by (auto simp: ep_inv_def unat_gt_0)
  have ne: "ep_contents ep \<noteq> []" using pos length_ep_contents[of ep] by (metis less_numeral_extra(3) list.size(3))
  have "ep_pending (ep_pop ep) \<longleftrightarrow> ep_q_len (ep_pop ep) \<noteq> 0"
    using pend by (simp add: ep_pop_def Let_def)
  then have "ep_inv (ep_pop ep)" "\<not> ep_handoff (ep_pop ep)"
    using ep_pop_ring(1)[OF ring pos] nr by (auto simp: ep_inv_def ep_handoff_def ep_pop_fields)
  then show ?thesis
    using False ne ep_pop_ring(2)[OF ring pos] endpoint_recv_queued[OF ring pos, of tt r zero_msg]
    by (auto simp: ep_get_def ep_backlog_def ep_handoff_def hd_map map_tl)
qed

interpretation epq: bounded_fifo ep_put ep_get snd "ep_backlog \<circ> fst" "ep_inv \<circ> fst" "\<lambda>q. \<not> ep_handoff (fst q)" 16
proof (unfold_locales, goal_cases)
  case (1 q a q1)
  then show ?case using ep_put_correct[of "fst q" "snd q" "fst a" "snd a" "fst q1" "snd q1"] by simp
next
  case (2 q r)
  then show ?case using ep_get_correct[of "fst q" "snd q" r] by (cases "ep_get q r") auto
next
  case (3 q m ms r)
  then show ?case using ep_get_correct[of "fst q" "snd q" r] by (cases "ep_get q r") auto
next
  case (4 q)
  then show ?case by (auto simp: ep_backlog_def ep_inv_def ring_inv_def)
qed

subsection \<open>Properties\<close>

lemma ep_run_demo:
  "fifo_disciplined ep_put ep_get (\<lambda>q. \<not> ep_handoff (fst q)) (zero_endpoint, \<lparr>tt_threads = (\<lambda>_. zero_tcb), tt_count = 0\<rparr>)
     [Put (1, zero_msg), Put (2, zero_msg\<lparr>msg_label := 7\<rparr>), Get 3, Get 3, Get 3, Put (1, zero_msg)]"
  by code_simp

text \<open>
  C14 (functional). Messages are delivered in the order they were accepted and none is lost or
  duplicated: over every run of sends and receives from a fresh endpoint in which no message is
  sent during a hand-off, the accepted messages are the delivered ones followed by the backlog,
  and the backlog never exceeds sixteen messages.
\<close>

theorem endpoint_fifo:
  assumes "fifo_disciplined ep_put ep_get (\<lambda>q. \<not> ep_handoff (fst q)) (zero_endpoint, tt) ops"
    and "fifo_run ep_put ep_get snd (zero_endpoint, tt) ops = (acc, del, ep2, tt2)"
  shows "acc = del @ ep_backlog ep2 \<and> length (ep_backlog ep2) \<le> 16 \<and> ep_inv ep2"
proof -
  have "ep_backlog zero_endpoint = []"
    by (simp add: ep_backlog_def ep_handoff_def ep_contents_def zero_endpoint_def)
  then show ?thesis
    using epq.run_fifo[OF _ assms] epq.bounded[of "(ep2, tt2)"] by simp
qed

theorem endpoint_fifo_witness:
  "\<exists>acc del ep2 tt2. fifo_run ep_put ep_get snd (zero_endpoint, \<lparr>tt_threads = (\<lambda>_. zero_tcb), tt_count = 0\<rparr>)
     [Put (1, zero_msg), Put (2, zero_msg\<lparr>msg_label := 7\<rparr>), Get 3, Get 3, Get 3, Put (1, zero_msg)] = (acc, del, ep2, tt2) \<and>
     acc = del @ ep_backlog ep2 \<and> length (ep_backlog ep2) \<le> 16 \<and> ep_inv ep2"
proof -
  let ?q = "(zero_endpoint, \<lparr>tt_threads = (\<lambda>_. zero_tcb), tt_count = 0\<rparr>)"
  let ?ops = "[Put (1, zero_msg), Put (2, zero_msg\<lparr>msg_label := 7\<rparr>), Get 3, Get 3, Get 3, Put (1, zero_msg)]"
  obtain acc del ep2 tt2 where r: "fifo_run ep_put ep_get snd ?q ?ops = (acc, del, ep2, tt2)"
    by (metis prod_cases4)
  show ?thesis using r endpoint_fifo[OF ep_run_demo r] by blast
qed

text \<open>
  (error). A send on an endpoint that is not in a hand-off is refused exactly when the message
  claims more than thirty words or three capabilities, or sixteen messages are waiting; an accepted
  send appends its message to the backlog and keeps the invariant of the endpoint.
\<close>

theorem endpoint_send_accepts:
  assumes "ep_inv ep" "\<not> ep_handoff ep"
  shows "(case endpoint_send (Some ep) tt sender (Some msg) of
      Inl e \<Rightarrow> (\<not> msg_ok msg \<and> e = ERR_INVALID_ARG) \<or>
               (msg_ok msg \<and> length (ep_backlog ep) = 16 \<and> e = ERR_OVERFLOW)
    | Inr (ep1, tt1) \<Rightarrow> msg_ok msg \<and> length (ep_backlog ep) < 16 \<and> ep_inv ep1 \<and>
               ep_backlog ep1 = ep_backlog ep @ [msg])"
proof (cases "endpoint_send (Some ep) tt sender (Some msg)")
  case (Inl e)
  then have "\<not> msg_ok msg \<or> 16 \<le> length (ep_backlog ep)"
    using ep_put_refuses[OF assms, of tt sender msg] by (simp add: ep_put_def)
  moreover have "length (ep_backlog ep) \<le> 16" using epq.bounded[of "(ep, tt)"] assms(1) by simp
  moreover have "e = (if msg_ok msg then ERR_OVERFLOW else ERR_INVALID_ARG)"
    using Inl by (auto simp: endpoint_send_def msg_ok_def split: if_splits)
  ultimately show ?thesis using Inl by auto
next
  case (Inr q)
  then have put: "ep_put (ep, tt) (sender, msg) = Some (fst q, snd q)" by (simp add: ep_put_def)
  then have "msg_ok msg \<and> length (ep_backlog ep) < 16"
    using ep_put_refuses[OF assms, of tt sender msg] by auto
  then show ?thesis using Inr ep_put_correct[OF assms put] by (simp add: split_beta)
qed

theorem endpoint_send_accepts_witness:
  "case endpoint_send (Some zero_endpoint) \<lparr>tt_threads = (\<lambda>_. zero_tcb), tt_count = 0\<rparr> 4 (Some zero_msg) of
      Inl e \<Rightarrow> (\<not> msg_ok zero_msg \<and> e = ERR_INVALID_ARG) \<or>
               (msg_ok zero_msg \<and> length (ep_backlog zero_endpoint) = 16 \<and> e = ERR_OVERFLOW)
    | Inr (ep1, tt1) \<Rightarrow> msg_ok zero_msg \<and> length (ep_backlog zero_endpoint) < 16 \<and> ep_inv ep1 \<and>
               ep_backlog ep1 = ep_backlog zero_endpoint @ [zero_msg]"
  by (rule endpoint_send_accepts[OF ep_inv_zero]) (simp add: ep_handoff_def zero_endpoint_def)

text \<open>
  C39 (safety). The discipline of the run theorem is needed: when a second message is sent while
  the first is in a hand-off, the receiver is given the second one and the first is never
  delivered, although both sends returned success.
\<close>

theorem endpoint_handoff_loses_message:
  assumes "ep_inv ep" "ep_handoff ep" "msg_ok m2"
  shows "\<exists>ep1 tt1 ep2 tt2. endpoint_send (Some ep) tt s2 (Some m2) = Inr (ep1, tt1) \<and>
     endpoint_recv (Some ep1) tt1 r (Some out) = Inr (Some m2, ep2, tt2) \<and> ep_backlog ep2 = []"
proof -
  have h: "\<not> ep_has_receiver ep" "ep_q_len ep = 0" "ring_inv ep"
    using assms(1,2) by (auto simp: ep_inv_def ep_handoff_def)
  then have snd: "endpoint_send (Some ep) tt s2 (Some m2) = Inr (ep_push s2 m2 ep, tt)"
    using assms(3) by (simp add: endpoint_send_queued)
  have push: "ring_inv (ep_push s2 m2 ep)" "ep_contents (ep_push s2 m2 ep) = [(s2, m2)]"
    using ep_push_ring[OF h(3), of s2 m2] h(2) ep_contents_empty[OF h(2)] by simp_all
  have pos: "0 < unat (ep_q_len (ep_push s2 m2 ep))" using h(2) by (simp add: ep_push_def)
  have "ep_backlog (ep_pop (ep_push s2 m2 ep)) = []"
    using ep_pop_ring(2)[OF push(1) pos] push(2) h(2)
    by (simp add: ep_backlog_def ep_handoff_def ep_pop_def ep_push_def Let_def)
  then show ?thesis using snd endpoint_recv_queued[OF push(1) pos, of tt r out] push(2) by simp
qed

theorem endpoint_handoff_loses_message_witness:
  "\<exists>ep1 tt1 ep2 tt2. endpoint_send (Some (zero_endpoint\<lparr>ep_pending := True\<rparr>))
        \<lparr>tt_threads = (\<lambda>_. zero_tcb), tt_count = 0\<rparr> 5 (Some (zero_msg\<lparr>msg_label := 9\<rparr>)) = Inr (ep1, tt1) \<and>
     endpoint_recv (Some ep1) tt1 2 (Some zero_msg) = Inr (Some (zero_msg\<lparr>msg_label := 9\<rparr>), ep2, tt2) \<and> ep_backlog ep2 = []"
  by (rule endpoint_handoff_loses_message)
    (simp_all add: ep_inv_def ep_handoff_def ring_inv_def msg_ok_def zero_endpoint_def zero_msg_def)

text \<open>
  (functional). A send that meets a blocked receiver makes that receiver runnable and touches
  no other thread; a send that queues touches no thread at all.
\<close>

theorem endpoint_send_wakes_only_receiver:
  assumes "endpoint_send (Some ep) tt sender (Some msg) = Inr (ep1, tt1)"
  shows "tt_threads tt1 i =
    (if ep_has_receiver ep \<and> unat (ep_receiver_tcb ep) = i \<and> i < 128 \<and>
        t_state (tt_threads tt i) \<in> {TCB_BLOCKED_RECV, TCB_BLOCKED_REPLY}
     then (tt_threads tt i)\<lparr>t_state := TCB_RUNNABLE, t_fault_addr := 0, t_fault_type := 0\<rparr>
     else tt_threads tt i)"
proof (cases "ep_has_receiver ep")
  case True
  then have "tt1 = wake_thread tt (ep_receiver_tcb ep) sender"
    using assms by (auto simp: endpoint_send_def split: if_splits)
  then show ?thesis using True
    by (auto simp: wake_thread_def tcb_wake_from_ipc_def word_less_nat_alt)
next
  case False
  then have "tt1 = tt" using assms by (auto simp: endpoint_send_def split: if_splits)
  then show ?thesis using False by simp
qed

theorem endpoint_send_wakes_only_receiver_witness:
  "t_state (tt_threads (snd (projr (endpoint_send (Some (zero_endpoint\<lparr>ep_has_receiver := True, ep_receiver_tcb := 3\<rparr>))
     \<lparr>tt_threads = (\<lambda>_. zero_tcb\<lparr>t_state := TCB_BLOCKED_RECV\<rparr>), tt_count = 0\<rparr> 5 (Some zero_msg)))) 3) = TCB_RUNNABLE"
proof -
  let ?ep = "zero_endpoint\<lparr>ep_has_receiver := True, ep_receiver_tcb := 3\<rparr>"
  let ?tt = "\<lparr>tt_threads = (\<lambda>_. zero_tcb\<lparr>t_state := TCB_BLOCKED_RECV\<rparr>), tt_count = 0\<rparr>"
  have "\<exists>e t. endpoint_send (Some ?ep) ?tt 5 (Some zero_msg) = Inr (e, t)"
    by (simp add: endpoint_send_def zero_msg_def)
  then obtain e t where r: "endpoint_send (Some ?ep) ?tt 5 (Some zero_msg) = Inr (e, t)" by blast
  show ?thesis using endpoint_send_wakes_only_receiver[OF r, of 3] r by simp
qed

end
