(* ===== verification/Sched.thy ===== *)
theory Sched
  imports Thread
begin

text \<open>
  The time-partition scheduler, \<^verbatim>\<open>kernel/include/sched.h\<close> and \<^verbatim>\<open>kernel/src/sched.c\<close>: eight
  partitions with a window each in a major frame of 10 ms, 64 scheduling contexts, the tick that
  switches partitions and replenishes budgets, and the choice of the next thread. The flush of the
  microarchitectural state has no effect on the modelled state and is an output of the tick. The
  value read by \<^verbatim>\<open>rdtime\<close> is a parameter of \<open>wcet_check\<close>.
\<close>

record time_partition_t =
  tp_id :: u32
  tp_name :: u64
  tp_offset_us :: u64
  tp_budget_us :: u64
  tp_used_us :: u64
  tp_criticality :: u8
  tp_color_base :: u16
  tp_active :: bool

record sched_context_t =
  sc_bound :: bool
  sc_tcb_id :: u32
  sc_partition_id :: u32
  sc_budget_us :: u64
  sc_period_us :: u64
  sc_remaining_us :: u64
  sc_deadline :: u64
  sc_priority :: u8
  sc_is_realtime :: bool
  sc_consumed_this_period :: u64

record sched_state_t =
  s_partitions :: "time_partition_t arr"
  s_num_partitions :: u32
  s_major_frame_start :: u64
  s_current_partition :: u32
  s_contexts :: "sched_context_t arr"
  s_ready_bitmap :: "u32 arr"
  s_ready_queues :: "u32 arr arr"

definition zero_partition :: time_partition_t where
  "zero_partition = \<lparr>tp_id = 0, tp_name = 0, tp_offset_us = 0, tp_budget_us = 0, tp_used_us = 0,
     tp_criticality = 0, tp_color_base = 0, tp_active = False\<rparr>"

definition zero_sched_context :: sched_context_t where
  "zero_sched_context = \<lparr>sc_bound = False, sc_tcb_id = 0, sc_partition_id = 0, sc_budget_us = 0,
     sc_period_us = 0, sc_remaining_us = 0, sc_deadline = 0, sc_priority = 0, sc_is_realtime = False,
     sc_consumed_this_period = 0\<rparr>"

abbreviation (input) MAJOR_FRAME_US :: u64 where "MAJOR_FRAME_US \<equiv> 10000"
abbreviation (input) MAX_SCHED_CONTEXTS :: u32 where "MAX_SCHED_CONTEXTS \<equiv> 64"
abbreviation (input) WCET_KERNEL_MAX_US :: u64 where "WCET_KERNEL_MAX_US \<equiv> 5"

definition sched_init :: sched_state_t where
  "sched_init = \<lparr>s_partitions = (\<lambda>_. zero_partition), s_num_partitions = 0, s_major_frame_start = 0,
     s_current_partition = 0, s_contexts = (\<lambda>_. zero_sched_context), s_ready_bitmap = (\<lambda>_. 0),
     s_ready_queues = (\<lambda>_ _. 0)\<rparr>"

text \<open>The test of one existing window against the requested one.\<close>

definition window_clash :: "time_partition_t \<Rightarrow> u64 \<Rightarrow> u64 \<Rightarrow> bool" where
  "window_clash p offset budget \<longleftrightarrow>
     (let a = tp_offset_us p; b = a + tp_budget_us p; c = offset; d = offset + budget in
      \<not> (d \<le> a \<or> c \<ge> b))"

definition sched_partition_create ::
  "sched_state_t option \<Rightarrow> u32 \<Rightarrow> u64 \<Rightarrow> u64 \<Rightarrow> u8 \<Rightarrow> kerror_t + sched_state_t" where
  "sched_partition_create sp pid offset budget crit =
     (case sp of
        None \<Rightarrow> Inl ERR_INVALID_ARG
      | Some s \<Rightarrow>
          if pid \<ge> MAX_PARTITIONS then Inl ERR_INVALID_ARG
          else if offset + budget > MAJOR_FRAME_US then Inl ERR_INVALID_ARG
          else if first_index (unat (s_num_partitions s)) (\<lambda>i. window_clash (s_partitions s i) offset budget) \<noteq> None
            then Inl ERR_INVALID_ARG
          else Inr (s\<lparr>s_partitions := (s_partitions s)(unat pid := (s_partitions s (unat pid))
                       \<lparr>tp_id := pid, tp_offset_us := offset, tp_budget_us := budget, tp_criticality := crit,
                        tp_color_base := ucast (pid * 2), tp_active := True\<rparr>),
                     s_num_partitions := (if pid \<ge> s_num_partitions s then pid + 1 else s_num_partitions s)\<rparr>))"

definition sched_context_bind ::
  "sched_state_t option \<Rightarrow> u32 \<Rightarrow> u32 \<Rightarrow> u32 \<Rightarrow> u64 \<Rightarrow> u64 \<Rightarrow> u8 \<Rightarrow> kerror_t + sched_state_t" where
  "sched_context_bind sp sc_id tcb_id part_id budget period prio =
     (case sp of
        None \<Rightarrow> Inl ERR_INVALID_ARG
      | Some s \<Rightarrow>
          if sc_id \<ge> MAX_SCHED_CONTEXTS then Inl ERR_INVALID_ARG
          else if part_id \<ge> MAX_PARTITIONS \<or> \<not> tp_active (s_partitions s (unat part_id)) then Inl ERR_INVALID_ARG
          else if budget = 0 \<or> period = 0 \<or> budget > period then Inl ERR_INVALID_ARG
          else if budget > tp_budget_us (s_partitions s (unat part_id)) then Inl ERR_INVALID_ARG
          else Inr (s\<lparr>s_contexts := (s_contexts s)(unat sc_id := (s_contexts s (unat sc_id))
                 \<lparr>sc_bound := True, sc_tcb_id := tcb_id, sc_partition_id := part_id, sc_budget_us := budget,
                  sc_period_us := period, sc_priority := prio, sc_remaining_us := budget,
                  sc_deadline := period\<rparr>)\<rparr>))"

definition in_window :: "time_partition_t \<Rightarrow> u64 \<Rightarrow> bool" where
  "in_window p frame_offset \<longleftrightarrow>
     frame_offset \<ge> tp_offset_us p \<and> frame_offset < tp_offset_us p + tp_budget_us p"

definition replenish :: "u64 \<Rightarrow> sched_context_t \<Rightarrow> sched_context_t" where
  "replenish now_us sc =
     (if \<not> sc_bound sc then sc
      else if now_us \<ge> sc_deadline sc then
        sc\<lparr>sc_remaining_us := sc_budget_us sc, sc_deadline := sc_deadline sc + sc_period_us sc,
           sc_consumed_this_period := 0\<rparr>
      else sc)"

text \<open>The second component lists the partitions that were flushed.\<close>

definition sched_tick :: "sched_state_t \<Rightarrow> u64 \<Rightarrow> sched_state_t \<times> u32 list" where
  "sched_tick s now_us =
     (let frame_offset = (now_us - s_major_frame_start s) mod MAJOR_FRAME_US;
          new_part = (case first_index (unat (s_num_partitions s)) (\<lambda>i. in_window (s_partitions s i) frame_offset) of
                        None \<Rightarrow> s_current_partition s
                      | Some i \<Rightarrow> of_nat i);
          (s1, flushed) = (if new_part \<noteq> s_current_partition s
                           then (s\<lparr>s_current_partition := new_part\<rparr>, [s_current_partition s])
                           else (s, [])) in
      (s1\<lparr>s_contexts := (\<lambda>i. if i < 64 then replenish now_us (s_contexts s1 i) else s_contexts s1 i)\<rparr>, flushed))"

text \<open>
  The nested loops of \<^verbatim>\<open>sched_pick_next\<close> over priorities and contexts, in their order. The thread
  table has 128 entries; an eligible context that names another thread is undefined behaviour.
\<close>

definition sc_eligible :: "sched_state_t \<Rightarrow> nat \<times> nat \<Rightarrow> bool" where
  "sc_eligible s pi \<longleftrightarrow>
     (case pi of (prio, i) \<Rightarrow>
        let sc = s_contexts s i in
        sc_bound sc \<and> sc_partition_id sc = s_current_partition s \<and> unat (sc_priority sc) = prio \<and>
        sc_remaining_us sc \<noteq> 0)"

fun pick_loop :: "sched_state_t \<Rightarrow> tcb_table_t \<Rightarrow> (nat \<times> nat) list \<Rightarrow> u32 option" where
  "pick_loop s tt [] = Some 0xFFFFFFFF"
| "pick_loop s tt ((prio, i) # rest) =
     (if \<not> sc_eligible s (prio, i) then pick_loop s tt rest
      else if unat (sc_tcb_id (s_contexts s i)) \<ge> 128 then None
      else if \<not> tcb_is_runnable (Some (tt_threads tt (unat (sc_tcb_id (s_contexts s i))))) then pick_loop s tt rest
      else Some (sc_tcb_id (s_contexts s i)))"

definition sched_pick_next :: "sched_state_t \<Rightarrow> tcb_table_t \<Rightarrow> u64 \<Rightarrow> u32 option" where
  "sched_pick_next s tt now_us = pick_loop s tt (List.product [0..<256] [0..<64])"

text \<open>The utilisation of one partition; a bound context with period zero is a division by zero.\<close>

fun util_loop :: "sched_state_t \<Rightarrow> nat \<Rightarrow> nat list \<Rightarrow> u64 \<Rightarrow> u64 option" where
  "util_loop s p [] acc = Some acc"
| "util_loop s p (i # is) acc =
     (if \<not> sc_bound (s_contexts s i) then util_loop s p is acc
      else if unat (sc_partition_id (s_contexts s i)) \<noteq> p then util_loop s p is acc
      else if sc_period_us (s_contexts s i) = 0 then None
      else util_loop s p is (acc + sc_budget_us (s_contexts s i) * 100 div sc_period_us (s_contexts s i)))"

fun schedulable_loop :: "sched_state_t \<Rightarrow> nat list \<Rightarrow> bool option" where
  "schedulable_loop s [] = Some True"
| "schedulable_loop s (p # ps) =
     (case util_loop s p [0..<64] 0 of
        None \<Rightarrow> None
      | Some util \<Rightarrow> if util > 99 then Some False else schedulable_loop s ps)"

definition sched_is_schedulable :: "sched_state_t \<Rightarrow> bool option" where
  "sched_is_schedulable s = schedulable_loop s [0..<unat (s_num_partitions s)]"

definition wcet_check :: "u64 \<Rightarrow> u64 \<Rightarrow> bool" where
  "wcet_check now entry_us \<longleftrightarrow> now - entry_us \<le> WCET_KERNEL_MAX_US * 1000"

subsection \<open>The window table\<close>

definition win_lo :: "time_partition_t \<Rightarrow> nat" where "win_lo p = unat (tp_offset_us p)"
definition win_hi :: "time_partition_t \<Rightarrow> nat" where "win_hi p = unat (tp_offset_us p) + unat (tp_budget_us p)"

definition windows_ok :: "sched_state_t \<Rightarrow> bool" where
  "windows_ok s \<longleftrightarrow> unat (s_num_partitions s) \<le> 8 \<and>
     (\<forall>i<8. win_hi (s_partitions s i) \<le> 10000) \<and>
     (\<forall>i<8. \<forall>j<8. i \<noteq> j \<longrightarrow> win_hi (s_partitions s i) \<le> win_lo (s_partitions s j) \<or>
                            win_hi (s_partitions s j) \<le> win_lo (s_partitions s i)) \<and>
     (\<forall>i. unat (s_num_partitions s) \<le> i \<longrightarrow> s_partitions s i = zero_partition)"

definition context_ok :: "sched_context_t \<Rightarrow> bool" where
  "context_ok sc \<longleftrightarrow> (sc_bound sc \<longrightarrow> 0 < unat (sc_budget_us sc) \<and> sc_budget_us sc \<le> sc_period_us sc \<and>
     sc_remaining_us sc = sc_budget_us sc \<and> unat (sc_partition_id sc) < 8 \<and> unat (sc_budget_us sc) \<le> 10000)"

definition sched_inv :: "sched_state_t \<Rightarrow> bool" where
  "sched_inv s \<longleftrightarrow> windows_ok s \<and> (\<forall>i. context_ok (s_contexts s i)) \<and> unat (s_current_partition s) < 8"

datatype sched_op =
    Sched_create u32 u64 u64 u8
  | Sched_bind u32 u32 u32 u64 u64 u8
  | Sched_tick u64

fun sched_step :: "sched_state_t \<Rightarrow> sched_op \<Rightarrow> sched_state_t" where
  "sched_step s (Sched_create i off bud crit) = (case sched_partition_create (Some s) i off bud crit of Inl _ \<Rightarrow> s | Inr s' \<Rightarrow> s')"
| "sched_step s (Sched_bind c t p bud per prio) = (case sched_context_bind (Some s) c t p bud per prio of Inl _ \<Rightarrow> s | Inr s' \<Rightarrow> s')"
| "sched_step s (Sched_tick now) = fst (sched_tick s now)"

text \<open>The end of a requested window does not wrap.\<close>

fun sched_allowed :: "sched_op \<Rightarrow> bool" where
  "sched_allowed (Sched_create i off bud crit) \<longleftrightarrow> unat off + unat bud < 2 ^ 64"
| "sched_allowed _ \<longleftrightarrow> True"

lemma sched_inv_init [simp]: "sched_inv sched_init"
  by (simp add: sched_inv_def windows_ok_def context_ok_def sched_init_def win_hi_def win_lo_def
      zero_partition_def zero_sched_context_def)

lemma in_window_iff:
  assumes "win_hi p \<le> 10000"
  shows "in_window p x \<longleftrightarrow> win_lo p \<le> unat x \<and> unat x < win_hi p"
proof -
  have "unat (tp_offset_us p + tp_budget_us p) = win_hi p"
    using assms unfolding win_hi_def by (subst unat_add_lem[THEN iffD1]) simp_all
  then show ?thesis by (simp add: in_window_def win_lo_def word_le_nat_alt word_less_nat_alt)
qed

lemma window_clash_iff:
  assumes "win_hi p \<le> 10000" "unat off + unat bud < 2 ^ 64"
  shows "window_clash p off bud \<longleftrightarrow> \<not> (unat off + unat bud \<le> win_lo p \<or> win_hi p \<le> unat off)"
proof -
  have "unat (tp_offset_us p + tp_budget_us p) = win_hi p"
    using assms(1) unfolding win_hi_def by (subst unat_add_lem[THEN iffD1]) simp_all
  moreover have "unat (off + bud) = unat off + unat bud"
    using assms(2) by (subst unat_add_lem[THEN iffD1]) simp_all
  ultimately show ?thesis by (simp add: window_clash_def Let_def win_lo_def word_le_nat_alt)
qed

lemma sched_partition_create_InrD:
  assumes "sched_partition_create (Some s) pid off bud crit = Inr s'"
  shows "unat pid < 8" "off + bud \<le> 10000"
    and "\<And>i. i < unat (s_num_partitions s) \<Longrightarrow> \<not> window_clash (s_partitions s i) off bud"
    and "s' = s\<lparr>s_partitions := (s_partitions s)(unat pid := (s_partitions s (unat pid))
                       \<lparr>tp_id := pid, tp_offset_us := off, tp_budget_us := bud, tp_criticality := crit,
                        tp_color_base := ucast (pid * 2), tp_active := True\<rparr>),
                     s_num_partitions := (if pid \<ge> s_num_partitions s then pid + 1 else s_num_partitions s)\<rparr>"
  using assms by (auto simp: sched_partition_create_def word_le_nat_alt word_less_nat_alt first_index_None_iff
      split: if_splits)

lemma sched_create_windows_ok:
  assumes "windows_ok s" "sched_partition_create (Some s) pid off bud crit = Inr s'" "unat off + unat bud < 2 ^ 64"
  shows "windows_ok s'"
proof -
  note d = sched_partition_create_InrD[OF assms(2)]
  have end': "unat off + unat bud \<le> 10000"
  proof -
    have "unat (off + bud) = unat off + unat bud"
      using assms(3) by (subst unat_add_lem[THEN iffD1]) simp_all
    then show ?thesis using d(2) by (simp add: word_le_nat_alt)
  qed
  have new: "win_lo (s_partitions s' (unat pid)) = unat off" "win_hi (s_partitions s' (unat pid)) = unat off + unat bud"
    using d(4) by (simp_all add: win_lo_def win_hi_def)
  have old: "s_partitions s' i = s_partitions s i" if "i \<noteq> unat pid" for i using d(4) that by simp
  have apart: "unat off + unat bud \<le> win_lo (s_partitions s i) \<or> win_hi (s_partitions s i) \<le> unat off" if "i < 8" for i
  proof (cases "i < unat (s_num_partitions s)")
    case True
    then show ?thesis using d(3)[OF True] window_clash_iff[OF _ assms(3)] assms(1) that by (auto simp: windows_ok_def)
  next
    case False
    then show ?thesis using assms(1) by (simp add: windows_ok_def win_hi_def zero_partition_def)
  qed
  have num: "unat (s_num_partitions s') = max (unat (s_num_partitions s)) (Suc (unat pid))"
  proof -
    have "unat (pid + 1) = Suc (unat pid)" using d(1) by (subst unat_add_lem[THEN iffD1]) simp_all
    then show ?thesis using d(4) by (auto simp: word_le_nat_alt max_def)
  qed
  have "win_hi (s_partitions s' i) \<le> 10000" if "i < 8" for i
    using that new(2) end' old assms(1) by (cases "i = unat pid") (auto simp: windows_ok_def)
  moreover have "win_hi (s_partitions s' i) \<le> win_lo (s_partitions s' j) \<or> win_hi (s_partitions s' j) \<le> win_lo (s_partitions s' i)"
    if "i < 8" "j < 8" "i \<noteq> j" for i j
    using that new old apart assms(1) by (cases "i = unat pid"; cases "j = unat pid") (auto simp: windows_ok_def)
  moreover have "s_partitions s' i = zero_partition" if "unat (s_num_partitions s') \<le> i" for i
    using that num old assms(1) by (auto simp: windows_ok_def)
  moreover have "unat (s_num_partitions s') \<le> 8" using num d(1) assms(1) by (auto simp: windows_ok_def)
  ultimately show ?thesis by (simp add: windows_ok_def)
qed

lemma sched_context_bind_InrD:
  assumes "sched_context_bind (Some s) c t p bud per prio = Inr s'"
  shows "unat c < 64" "unat p < 8" "tp_active (s_partitions s (unat p))" "bud \<noteq> 0" "bud \<le> per"
    "bud \<le> tp_budget_us (s_partitions s (unat p))"
    and "s' = s\<lparr>s_contexts := (s_contexts s)(unat c := (s_contexts s (unat c))
                 \<lparr>sc_bound := True, sc_tcb_id := t, sc_partition_id := p, sc_budget_us := bud,
                  sc_period_us := per, sc_priority := prio, sc_remaining_us := bud, sc_deadline := per\<rparr>)\<rparr>"
  using assms by (auto simp: sched_context_bind_def word_le_nat_alt word_less_nat_alt split: if_splits)

lemma replenish_ok: "context_ok sc \<Longrightarrow> context_ok (replenish now sc)"
  by (auto simp: context_ok_def replenish_def)

lemma sched_tick_fields:
  "s_partitions (fst (sched_tick s now)) = s_partitions s"
  "s_num_partitions (fst (sched_tick s now)) = s_num_partitions s"
  "s_contexts (fst (sched_tick s now)) = (\<lambda>i. if i < 64 then replenish now (s_contexts s i) else s_contexts s i)"
  "s_current_partition (fst (sched_tick s now)) =
     (case first_index (unat (s_num_partitions s))
        (\<lambda>i. in_window (s_partitions s i) ((now - s_major_frame_start s) mod 10000)) of
        None \<Rightarrow> s_current_partition s | Some i \<Rightarrow> of_nat i)"
  "s_major_frame_start (fst (sched_tick s now)) = s_major_frame_start s"
  "snd (sched_tick s now) =
     (if s_current_partition (fst (sched_tick s now)) \<noteq> s_current_partition s then [s_current_partition s] else [])"
  by (simp_all add: sched_tick_def Let_def cong: if_cong split: option.splits)

lemma sched_tick_inv: "sched_inv s \<Longrightarrow> sched_inv (fst (sched_tick s now))"
  by (auto simp: sched_inv_def windows_ok_def sched_tick_fields replenish_ok first_index_Some_iff unat_of_nat
      take_bit_nat_eq_self split: option.splits)

lemma sched_bind_inv:
  assumes "sched_inv s" "sched_context_bind (Some s) c t p bud per prio = Inr s'"
  shows "sched_inv s'"
proof -
  note d = sched_context_bind_InrD[OF assms(2)]
  have "win_hi (s_partitions s (unat p)) \<le> 10000" using assms(1) d(2) by (simp add: sched_inv_def windows_ok_def)
  then have "unat bud \<le> 10000" using d(6) by (simp add: win_hi_def word_le_nat_alt)
  then show ?thesis using assms(1) d
    by (auto simp: sched_inv_def windows_ok_def context_ok_def unat_gt_0)
qed

interpretation schedm: guarded_machine sched_step sched_inv sched_allowed
proof
  fix s a assume "sched_inv s" "sched_allowed a"
  then show "sched_inv (sched_step s a)"
  proof (cases a)
    case (Sched_create i off bud crit)
    show ?thesis
    proof (cases "sched_partition_create (Some s) i off bud crit")
      case (Inr s')
      have "windows_ok s'"
        using \<open>sched_inv s\<close> \<open>sched_allowed a\<close> Sched_create sched_create_windows_ok[OF _ Inr] by (simp add: sched_inv_def)
      then show ?thesis
        using \<open>sched_inv s\<close> Inr Sched_create sched_partition_create_InrD(4)[OF Inr] by (simp add: sched_inv_def)
    qed (use \<open>sched_inv s\<close> Sched_create in simp)
  qed (auto intro: sched_tick_inv sched_bind_inv split: sum.splits)
qed

subsection \<open>Choosing a thread\<close>

text \<open>The scan stops at an eligible context of a runnable thread, or of one the table does not have.\<close>

definition scan_stops :: "sched_state_t \<Rightarrow> tcb_table_t \<Rightarrow> nat \<times> nat \<Rightarrow> bool" where
  "scan_stops s tt pi \<longleftrightarrow> sc_eligible s pi \<and>
     (let id = unat (sc_tcb_id (s_contexts s (snd pi))) in 128 \<le> id \<or> t_state (tt_threads tt id) = TCB_RUNNABLE)"

lemma pick_loop_skips: "\<forall>x\<in>set pre. \<not> scan_stops s tt x \<Longrightarrow> pick_loop s tt (pre @ ps) = pick_loop s tt ps"
  by (induction pre) (auto simp: scan_stops_def tcb_is_runnable_def Let_def)

lemma pick_loop_stop:
  assumes "scan_stops s tt (prio, i)"
  shows "pick_loop s tt ((prio, i) # ps) =
    (if unat (sc_tcb_id (s_contexts s i)) < 128 then Some (sc_tcb_id (s_contexts s i)) else None)"
  using assms by (auto simp: scan_stops_def tcb_is_runnable_def Let_def)

lemma product_prefix:
  assumes "List.product [0..<m] [0..<n] = pre @ (a, b) # post" "(c, d) \<in> set pre"
  shows "c < a \<or> (c = a \<and> d < b)"
proof -
  have "sorted_wrt (\<lambda>x y. fst x < fst y \<or> (fst x = fst y \<and> snd x < snd y)) (List.product [0..<m] [0..<n])"
    for m :: nat
  proof (induction m)
    case (Suc m)
    have snoc: "List.product [0..<Suc m] [0..<n] = List.product [0..<m] [0..<n] @ map (Pair m) [0..<n]"
      by (simp add: product_concat_map)
    have "sorted_wrt (\<lambda>x y. fst x < fst y \<or> fst x = fst y \<and> snd x < snd y) (map (Pair m) [0..<n])"
      by (simp add: sorted_wrt_map)
    then show ?case using Suc.IH unfolding snoc by (auto simp: sorted_wrt_append)
  qed simp
  from this[of m] show ?thesis using assms(2) unfolding assms(1) by (fastforce simp: sorted_wrt_append)
qed

lemma windows_unique:
  assumes "windows_ok s" "i < 8" "j < 8" "in_window (s_partitions s i) x" "in_window (s_partitions s j) x"
  shows "i = j"
proof (rule ccontr)
  assume "i \<noteq> j"
  then have "win_hi (s_partitions s i) \<le> win_lo (s_partitions s j) \<or> win_hi (s_partitions s j) \<le> win_lo (s_partitions s i)"
    using assms(1-3) by (simp add: windows_ok_def)
  moreover have "win_hi (s_partitions s i) \<le> 10000" "win_hi (s_partitions s j) \<le> 10000"
    using assms(1-3) by (simp_all add: windows_ok_def)
  ultimately show False using assms(4,5) by (auto simp: in_window_iff)
qed

subsection \<open>Utilisation\<close>

text \<open>The share of a context in whole percent, rounded down, as the code computes it.\<close>

definition percent :: "sched_context_t \<Rightarrow> nat" where
  "percent sc = unat (sc_budget_us sc) * 100 div unat (sc_period_us sc)"

definition in_part :: "sched_state_t \<Rightarrow> nat \<Rightarrow> nat \<Rightarrow> bool" where
  "in_part s p i \<longleftrightarrow> sc_bound (s_contexts s i) \<and> unat (sc_partition_id (s_contexts s i)) = p"

definition util_of :: "sched_state_t \<Rightarrow> nat \<Rightarrow> nat list \<Rightarrow> nat" where
  "util_of s p is = sum_list (map (\<lambda>i. if in_part s p i then percent (s_contexts s i) else 0) is)"

lemma percent_word:
  assumes "context_ok sc" "sc_bound sc"
  shows "unat (sc_budget_us sc * 100 div sc_period_us sc) = percent sc" "percent sc \<le> 100" "sc_period_us sc \<noteq> 0"
proof -
  have b: "unat (sc_budget_us sc) \<le> 10000" "0 < unat (sc_budget_us sc)" "unat (sc_budget_us sc) \<le> unat (sc_period_us sc)"
    using assms by (simp_all add: context_ok_def word_le_nat_alt)
  have "unat (sc_budget_us sc * 100) = unat (sc_budget_us sc) * 100"
    using b(1) by (subst unat_mult_lem[THEN iffD1]) simp_all
  then show "unat (sc_budget_us sc * 100 div sc_period_us sc) = percent sc" by (simp add: percent_def unat_div)
  show "sc_period_us sc \<noteq> 0" using b by auto
  have "unat (sc_budget_us sc) * 100 div unat (sc_period_us sc) \<le> unat (sc_period_us sc) * 100 div unat (sc_period_us sc)"
    by (rule div_le_mono) (use b(3) in simp)
  then show "percent sc \<le> 100" using b by (simp add: percent_def)
qed

lemma util_of_Cons: "util_of s p (i # is) = (if in_part s p i then percent (s_contexts s i) else 0) + util_of s p is"
  by (simp add: util_of_def)

lemma util_loop_exact:
  assumes "\<forall>i. context_ok (s_contexts s i)" "unat acc + 100 * length is < 2 ^ 64"
  shows "\<exists>u. util_loop s p is acc = Some u \<and> unat u = unat acc + util_of s p is"
  using assms(2)
proof (induction "is" arbitrary: acc)
  case Nil
  then show ?case by (simp add: util_of_def)
next
  case (Cons i "is")
  show ?case
  proof (cases "in_part s p i")
    case True
    let ?u = "sc_budget_us (s_contexts s i) * 100 div sc_period_us (s_contexts s i)"
    have ok: "context_ok (s_contexts s i)" "sc_bound (s_contexts s i)" using assms(1) True by (simp_all add: in_part_def)
    note pw = percent_word[OF ok]
    have "unat (acc + ?u) = unat acc + percent (s_contexts s i)"
      using Cons.prems pw by (subst unat_add_lem[THEN iffD1]) simp_all
    moreover obtain u where "util_loop s p is (acc + ?u) = Some u" "unat u = unat (acc + ?u) + util_of s p is"
      using Cons.IH[of "acc + ?u"] Cons.prems pw(2) calculation by auto
    ultimately show ?thesis using True ok pw(3) by (auto simp: in_part_def util_of_Cons)
  next
    case False
    then have "util_loop s p (i # is) acc = util_loop s p is acc" by (auto simp: in_part_def)
    then show ?thesis using Cons.IH[of acc] Cons.prems False by (simp add: util_of_Cons)
  qed
qed

lemma schedulable_loop_exact:
  assumes "\<forall>i. context_ok (s_contexts s i)"
  shows "schedulable_loop s ps = Some (\<forall>p\<in>set ps. util_of s p [0..<64] \<le> 99)"
proof (induction ps)
  case (Cons p ps)
  obtain u where "util_loop s p [0..<64] 0 = Some u" "unat u = util_of s p [0..<64]"
    using util_loop_exact[OF assms, of 0 "[0..<64]" p] by auto
  then show ?case using Cons.IH by (auto simp: word_less_nat_alt)
qed simp

lemma util_of_le:
  assumes "\<And>i. i \<in> set is \<Longrightarrow> in_part s p i \<Longrightarrow> percent (s_contexts s i) \<le> k"
  shows "util_of s p is \<le> k * length is"
  using assms by (induction "is") (fastforce simp: util_of_def)+

subsection \<open>Properties\<close>

definition sched_demo :: "sched_op list" where
  "sched_demo = [Sched_create 0 0 4000 3, Sched_create 2 4000 5000 1, Sched_bind 0 5 2 100 1000 7, Sched_tick 24500]"

text \<open>
  C12 (safety). Temporal partitioning: after any run of partition creations whose windows do not
  wrap, context bindings and ticks, all windows lie within the major frame and no two partitions'
  windows share an instant of it.
\<close>

theorem sched_windows_disjoint:
  assumes "\<forall>a\<in>set ops. sched_allowed a" "s = foldl sched_step sched_init ops" "i < 8" "j < 8"
  shows "win_hi (s_partitions s i) \<le> 10000 \<and>
    (in_window (s_partitions s i) x \<and> in_window (s_partitions s j) x \<longrightarrow> i = j)"
proof -
  have "windows_ok s" using schedm.run_inv[OF sched_inv_init assms(1)] assms(2) by (simp add: sched_inv_def)
  then show ?thesis using assms(3,4) windows_unique by (auto simp: windows_ok_def)
qed

theorem sched_windows_disjoint_witness:
  "win_hi (s_partitions (foldl sched_step sched_init sched_demo) 0) \<le> 10000"
proof -
  have a: "\<forall>a\<in>set sched_demo. sched_allowed a" by (simp add: sched_demo_def)
  from sched_windows_disjoint[OF a refl, of 0 2] show ?thesis by simp
qed

text \<open>
  C26 (functional). A tick selects the partition whose window contains the current offset into the
  major frame, keeps the current one when none does, and flushes the microarchitectural state of
  the partition it leaves exactly when it switches.
\<close>

theorem sched_tick_selects:
  assumes "sched_inv s" "sched_tick s now = (s', flushed)"
    and "x = (now - s_major_frame_start s) mod 10000"
  shows "(\<forall>i<8. in_window (s_partitions s i) x \<longrightarrow> unat (s_current_partition s') = i) \<and>
    ((\<forall>i<8. \<not> in_window (s_partitions s i) x) \<longrightarrow> s_current_partition s' = s_current_partition s) \<and>
    flushed = (if s_current_partition s' = s_current_partition s then [] else [s_current_partition s])"
proof -
  let ?P = "\<lambda>i. in_window (s_partitions s i) x"
  have w: "windows_ok s" using assms(1) by (simp add: sched_inv_def)
  have none: "\<not> ?P i" if "unat (s_num_partitions s) \<le> i" for i
    using w that by (simp add: windows_ok_def in_window_def zero_partition_def)
  have uniq: "i = j" if "i < 8" "j < 8" "?P i" "?P j" for i j
    using windows_unique[OF w that] .
  have cur: "s_current_partition s' = (case first_index (unat (s_num_partitions s)) ?P of
      None \<Rightarrow> s_current_partition s | Some i \<Rightarrow> of_nat i)"
    and fl: "flushed = (if s_current_partition s' \<noteq> s_current_partition s then [s_current_partition s] else [])"
    using sched_tick_fields(4,6)[of s now] assms(2,3) by simp_all
  show ?thesis
  proof (cases "first_index (unat (s_num_partitions s)) ?P")
    case None
    then have "\<not> ?P i" for i using none by (cases "i < unat (s_num_partitions s)") (auto simp: first_index_None_iff)
    then show ?thesis using cur fl None by simp
  next
    case (Some i)
    then have i: "i < 8" "?P i" using w by (auto simp: first_index_Some_iff windows_ok_def)
    then have "unat (of_nat i :: u32) = i" by (simp add: unat_of_nat take_bit_nat_eq_self)
    then show ?thesis using cur fl Some i uniq by auto
  qed
qed

theorem sched_tick_selects_witness:
  "unat (s_current_partition (fst (sched_tick (foldl sched_step sched_init [Sched_create 2 100 50 1]) 10120))) = 2"
proof -
  let ?s = "foldl sched_step sched_init [Sched_create 2 100 50 1]"
  have inv: "sched_inv ?s" by (rule schedm.run_inv) simp_all
  obtain s' f where t: "sched_tick ?s 10120 = (s', f)" by (cases "sched_tick ?s 10120")
  have "in_window (s_partitions ?s 2) 120" "s_major_frame_start ?s = 0"
    by (simp_all add: sched_partition_create_def sched_init_def first_index_def in_window_def)
  then show ?thesis
    using sched_tick_selects[OF inv t refl] t by simp
qed

text \<open>What is not met before an entry of the scan comes no earlier in the order of priority and number.\<close>

lemma scan_order:
  assumes ps: "List.product [0..<256] [0..<64] = pre @ (q, i) # post" and m: "(r, j) \<in> set (List.product [0..<256] [0..<64])" "(r, j) \<notin> set pre"
  shows "q < r \<or> q = r \<and> i \<le> j"
proof (cases "(r, j) = (q, i)")
  case False
  then have "(r, j) \<in> set post" using m unfolding ps by auto
  then obtain p1 p2 where "post = p1 @ (r, j) # p2" by (meson split_list)
  then have "List.product [0..<256] [0..<64] = (pre @ (q, i) # p1) @ (r, j) # p2" using ps by simp
  from product_prefix[OF this, of q i] show ?thesis by auto
qed simp

text \<open>
  C17 (functional). The choice of the next thread, on every state: the contexts that can end the search
  are those bound in the current partition with budget left whose thread is runnable, or whose thread
  number lies outside the table of 128 threads. If there is none the idle value is returned. Otherwise the first one decides,
  in the order of priority number and then of index: its thread is returned if the table has it, and if
  not the access to the table is out of bounds and nothing is guaranteed (an invocation can bind such a number).
\<close>

theorem sched_pick_next_correct:
  "(\<forall>i<64. \<not> scan_stops s tt (unat (sc_priority (s_contexts s i)), i)) \<and> sched_pick_next s tt now = Some 0xFFFFFFFF \<or>
   (\<exists>i<64. scan_stops s tt (unat (sc_priority (s_contexts s i)), i) \<and>
      (\<forall>j<64. scan_stops s tt (unat (sc_priority (s_contexts s j)), j) \<longrightarrow>
         unat (sc_priority (s_contexts s i)) < unat (sc_priority (s_contexts s j)) \<or>
         sc_priority (s_contexts s i) = sc_priority (s_contexts s j) \<and> i \<le> j) \<and>
      sched_pick_next s tt now =
        (if unat (sc_tcb_id (s_contexts s i)) < 128 then Some (sc_tcb_id (s_contexts s i)) else None))"
proof -
  let ?ps = "List.product [0..<256] [0..<64]" and ?pr = "\<lambda>i. unat (sc_priority (s_contexts s i))"
  have mem: "(?pr j, j) \<in> set ?ps" if "j < 64" for j using that unat_u8_less by simp
  show ?thesis
  proof (cases "\<exists>x\<in>set ?ps. scan_stops s tt x")
    case False
    then show ?thesis using mem pick_loop_skips[of ?ps s tt "[]"] by (auto simp: sched_pick_next_def)
  next
    case True
    then obtain pre x post where *: "?ps = pre @ x # post" "scan_stops s tt x" "\<forall>y\<in>set pre. \<not> scan_stops s tt y"
      using split_list_first_prop[of ?ps "scan_stops s tt"] by blast
    obtain i where x: "x = (?pr i, i)" using *(2) by (cases x) (auto simp: scan_stops_def sc_eligible_def Let_def)
    have "x \<in> set ?ps" unfolding *(1) by simp
    then have i: "i < 64" using x by simp
    have "?pr i < ?pr j \<or> (sc_priority (s_contexts s i) = sc_priority (s_contexts s j) \<and> i \<le> j)"
      if "j < 64" "scan_stops s tt (?pr j, j)" for j
      using scan_order[OF *(1)[unfolded x] mem[OF that(1)]] *(3) that(2) by (auto simp: word_unat_eq_iff)
    moreover have "sched_pick_next s tt now = (if unat (sc_tcb_id (s_contexts s i)) < 128 then Some (sc_tcb_id (s_contexts s i)) else None)"
      using pick_loop_skips[OF *(3)] pick_loop_stop[OF *(2)[unfolded x]] by (simp add: sched_pick_next_def *(1) x)
    ultimately show ?thesis using i *(2) x by blast
  qed
qed

definition pick_demo :: sched_state_t where
  "pick_demo = sched_init\<lparr>s_contexts := (\<lambda>_. zero_sched_context)(9 := zero_sched_context
       \<lparr>sc_bound := True, sc_tcb_id := 5, sc_remaining_us := 10, sc_priority := 200\<rparr>)\<rparr>"

theorem sched_pick_next_correct_witness:
  "sched_pick_next pick_demo \<lparr>tt_threads = (\<lambda>_. zero_tcb\<lparr>t_state := TCB_RUNNABLE\<rparr>), tt_count = 6\<rparr> 0 = Some 5"
proof -
  let ?tt = "\<lparr>tt_threads = (\<lambda>_. zero_tcb\<lparr>t_state := TCB_RUNNABLE\<rparr>), tt_count = 6\<rparr>"
  have el: "scan_stops pick_demo ?tt (unat (sc_priority (s_contexts pick_demo i)), i) \<longleftrightarrow> i = 9" for i
    by (simp add: pick_demo_def scan_stops_def sc_eligible_def zero_sched_context_def sched_init_def)
  have "sc_tcb_id (s_contexts pick_demo 9) = 5" by (simp add: pick_demo_def)
  then show ?thesis using sched_pick_next_correct[of pick_demo ?tt 0] unfolding el by (auto dest: spec[of _ 9])
qed

text \<open>
  (invariant). Budgets are never consumed: in every reachable state every bound context has its
  whole budget left, so the test of the scheduler for an exhausted budget never excludes a thread.
  The period and the budget are positive with the budget at most the period.
\<close>

theorem sched_budget_never_consumed:
  assumes "\<forall>a\<in>set ops. sched_allowed a" "s = foldl sched_step sched_init ops" "sc_bound (s_contexts s i)"
  shows "sc_remaining_us (s_contexts s i) = sc_budget_us (s_contexts s i) \<and>
    0 < sc_budget_us (s_contexts s i) \<and> sc_budget_us (s_contexts s i) \<le> sc_period_us (s_contexts s i)"
proof -
  have "sched_inv s" using schedm.run_inv[OF sched_inv_init assms(1)] assms(2) by simp
  then show ?thesis using assms(3) by (simp add: sched_inv_def context_ok_def word_less_nat_alt)
qed

lemma sched_demo_bound: "sc_bound (s_contexts (foldl sched_step sched_init sched_demo) 0)"
  by (simp add: sched_demo_def sched_partition_create_def sched_context_bind_def sched_init_def first_index_def
      zero_partition_def window_clash_def sched_tick_fields replenish_def)

theorem sched_budget_never_consumed_witness:
  "0 < sc_remaining_us (s_contexts (foldl sched_step sched_init sched_demo) 0)"
proof -
  have a: "\<forall>a\<in>set sched_demo. sched_allowed a" by (simp add: sched_demo_def)
  show ?thesis using sched_budget_never_consumed[OF a refl sched_demo_bound] by simp
qed

text \<open>
  C35 (functional). In every state reached by operations none of which asks for a partition window whose end
  wraps past 2^64 (\<^verbatim>\<open>sched_partition_create\<close> does not refuse such a window, and a budget bound in it
  can overflow the sum), the schedulability test returns (no bound context has
  period zero) and its verdict is exact for the integer utilisation it computes: it accepts when
  for every partition the percentages of the contexts bound in it, each rounded down, add up to at
  most 99, without overflow.
\<close>

theorem sched_is_schedulable_exact:
  assumes "\<forall>a\<in>set ops. sched_allowed a" "s = foldl sched_step sched_init ops"
  shows "sched_is_schedulable s = Some (\<forall>p<unat (s_num_partitions s).
     (\<Sum>i | i < 64 \<and> in_part s p i. unat (sc_budget_us (s_contexts s i)) * 100 div unat (sc_period_us (s_contexts s i))) \<le> 99)"
proof -
  have "util_of s p [0..<64] = (\<Sum>i | i < 64 \<and> in_part s p i. percent (s_contexts s i))" for p
  proof -
    have "util_of s p [0..<64] = (\<Sum>i\<in>{0..<64}. if in_part s p i then percent (s_contexts s i) else 0)"
      by (simp add: util_of_def interv_sum_list_conv_sum_set_nat)
    also have "\<dots> = (\<Sum>i\<in>{i\<in>{0..<64}. in_part s p i}. percent (s_contexts s i))"
      by (rule sum.inter_filter[symmetric]) simp
    finally show ?thesis by (simp add: atLeast0LessThan lessThan_def)
  qed
  moreover have "sched_inv s" using schedm.run_inv[OF sched_inv_init assms(1)] assms(2) by simp
  ultimately show ?thesis
    using schedulable_loop_exact[of s "[0..<unat (s_num_partitions s)]"]
    by (simp add: sched_is_schedulable_def sched_inv_def percent_def Ball_def)
qed

theorem sched_is_schedulable_exact_witness: "sched_is_schedulable (foldl sched_step sched_init sched_demo) \<noteq> None"
proof -
  have a: "\<forall>a\<in>set sched_demo. sched_allowed a" by (simp add: sched_demo_def)
  show ?thesis using sched_is_schedulable_exact[OF a refl] by simp
qed

text \<open>
  (safety). Because every percentage is rounded down, the test does not bound the utilisation:
  it accepts every state in which each context asks for less than two percent of its period, also
  when all 64 contexts are bound in one partition and together demand more than its whole time.
\<close>

theorem sched_is_schedulable_overcommits:
  assumes "sched_inv s" "\<forall>i<64. unat (sc_budget_us (s_contexts s i)) * 100 < 2 * unat (sc_period_us (s_contexts s i))"
  shows "sched_is_schedulable s = Some True"
proof -
  have "percent (s_contexts s i) \<le> 1" if "i < 64" for i
    using assms(2) that less_mult_imp_div_less[of "unat (sc_budget_us (s_contexts s i)) * 100" 2]
    by (fastforce simp: percent_def)
  then have "util_of s p [0..<64] \<le> 1 * length [0..<64]" for p
    by (intro util_of_le) simp
  then have "util_of s p [0..<64] \<le> 99" for p by (rule order_trans) simp
  then show ?thesis using assms(1)
    by (simp add: sched_is_schedulable_def schedulable_loop_exact sched_inv_def)
qed

definition overcommitted :: sched_state_t where
  "overcommitted = sched_init\<lparr>
     s_partitions := (\<lambda>_. zero_partition)(0 := zero_partition\<lparr>tp_budget_us := 10000, tp_active := True\<rparr>), s_num_partitions := 1,
     s_contexts := (\<lambda>_. zero_sched_context\<lparr>sc_bound := True, sc_budget_us := 199, sc_remaining_us := 199, sc_period_us := 10000\<rparr>)\<rparr>"

theorem sched_is_schedulable_overcommits_witness:
  "sched_is_schedulable overcommitted = Some True \<and>
   (\<Sum>i<64. unat (sc_budget_us (s_contexts overcommitted i))) > 10000 \<and>
   (\<forall>i. sc_period_us (s_contexts overcommitted i) = 10000 \<and> in_part overcommitted 0 i)"
proof -
  have "sched_inv overcommitted"
    by (auto simp: overcommitted_def sched_inv_def windows_ok_def context_ok_def sched_init_def win_lo_def win_hi_def
        zero_partition_def zero_sched_context_def)
  moreover have "\<forall>i<64. unat (sc_budget_us (s_contexts overcommitted i)) * 100 < 2 * unat (sc_period_us (s_contexts overcommitted i))"
    by (simp add: overcommitted_def)
  ultimately show ?thesis
    using sched_is_schedulable_overcommits by (simp add: overcommitted_def in_part_def zero_sched_context_def)
qed

end
