(* ===== verification/Revoke.thy ===== *)
theory Revoke
  imports Capability
begin

text \<open>
  The capability derivation tree, \<^verbatim>\<open>kernel/include/revoke.h\<close> and \<^verbatim>\<open>kernel/src/revoke.c\<close>: 1024
  nodes linked by parent, first-child and next-sibling indices, \<^verbatim>\<open>0xFFFF\<close> being the null index.
  The loops follow indices found in memory, so they may leave the array or never end; such a run
  is \<open>None\<close>. The operations are shown to implement a forest given by the parent indices alone.
\<close>

record mdb_node_t =
  mn_valid :: bool
  mn_cptr :: cptr_t
  mn_cnode_id :: u32
  mn_slot :: cptr_t
  mn_parent :: u32
  mn_first_child :: u32
  mn_next_sibling :: u32
  mn_cap :: cap_t
  mn_revocable :: bool

record mdb_tree_t =
  mdb_nodes :: "mdb_node_t arr"
  mdb_count :: u32
  mdb_free_head :: u32

abbreviation (input) NIL :: u32 where "NIL \<equiv> 0xFFFF"
abbreviation (input) MAX_MDB_NODES :: u32 where "MAX_MDB_NODES \<equiv> 1024"

definition zero_mdb_node :: mdb_node_t where
  "zero_mdb_node = \<lparr>mn_valid = False, mn_cptr = 0, mn_cnode_id = 0, mn_slot = 0, mn_parent = 0,
     mn_first_child = 0, mn_next_sibling = 0, mn_cap = zero_cap, mn_revocable = False\<rparr>"

definition set_node :: "nat \<Rightarrow> mdb_node_t \<Rightarrow> mdb_tree_t \<Rightarrow> mdb_tree_t" where
  "set_node i n m = m\<lparr>mdb_nodes := (mdb_nodes m)(i := n)\<rparr>"

definition mdb_init :: mdb_tree_t where
  "mdb_init = \<lparr>mdb_nodes = (\<lambda>i. if i < 1024 then zero_mdb_node\<lparr>mn_parent := NIL\<rparr> else zero_mdb_node),
     mdb_count = 0, mdb_free_head = 0\<rparr>"

definition mdb_insert ::
  "mdb_tree_t option \<Rightarrow> u32 \<Rightarrow> cptr_t \<Rightarrow> cap_t \<Rightarrow> u32 option \<Rightarrow> kerror_t + (u32 \<times> mdb_tree_t)" where
  "mdb_insert mp parent_idx cptr cap outp =
     (case (mp, outp) of
        (Some m, Some _) \<Rightarrow>
          if mdb_count m \<ge> MAX_MDB_NODES then Inl ERR_NO_MEM
          else (case find (\<lambda>i. \<not> mn_valid (mdb_nodes m i)) [unat (mdb_free_head m)..<1024] of
             None \<Rightarrow> Inl ERR_NO_MEM
           | Some i \<Rightarrow>
               let idx = of_nat i :: u32;
                   n = zero_mdb_node\<lparr>mn_valid := True, mn_cptr := cptr, mn_cap := cap, mn_parent := parent_idx,
                         mn_first_child := NIL, mn_next_sibling := NIL, mn_revocable := True\<rparr>;
                   m1 = set_node i n m;
                   m2 = (if parent_idx \<noteq> NIL \<and> parent_idx < MAX_MDB_NODES \<and> mn_valid (mdb_nodes m1 (unat parent_idx))
                         then let m' = set_node i (n\<lparr>mn_next_sibling := mn_first_child (mdb_nodes m1 (unat parent_idx))\<rparr>) m1
                              in set_node (unat parent_idx) ((mdb_nodes m' (unat parent_idx))\<lparr>mn_first_child := idx\<rparr>) m'
                         else m1);
                   m3 = m2\<lparr>mdb_count := mdb_count m2 + 1\<rparr> in
               Inr (idx, if idx = mdb_free_head m3 then m3\<lparr>mdb_free_head := idx + 1\<rparr> else m3))
      | _ \<Rightarrow> Inl ERR_INVALID_ARG)"

text \<open>What \<^verbatim>\<open>mdb_revoke_recursive\<close> does to a node once its children are gone.\<close>

definition clear_node :: "nat \<Rightarrow> mdb_tree_t \<Rightarrow> mdb_tree_t" where
  "clear_node i m =
     (let m1 = set_node i ((mdb_nodes m i)\<lparr>mn_cap := zero_cap, mn_valid := False\<rparr>) m;
          m2 = (if of_nat i < mdb_free_head m1 then m1\<lparr>mdb_free_head := of_nat i\<rparr> else m1) in
      m2\<lparr>mdb_count := mdb_count m2 - 1\<rparr>)"

text \<open>
  The loop over a chain of siblings, with the body of \<^verbatim>\<open>mdb_revoke_recursive\<close> for each of them:
  the loop over its own children, then the clearing of the node.
\<close>

partial_function (option) revoke_loop :: "mdb_tree_t \<Rightarrow> u32 \<Rightarrow> mdb_tree_t option" where
  "revoke_loop m child =
     (if child = NIL then Some m
      else if child \<ge> MAX_MDB_NODES then None
      else Option.bind (revoke_loop m (mn_first_child (mdb_nodes m (unat child))))
             (\<lambda>m1. revoke_loop (clear_node (unat child) m1) (mn_next_sibling (mdb_nodes m (unat child)))))"

definition mdb_revoke_recursive :: "mdb_tree_t \<Rightarrow> u32 \<Rightarrow> mdb_tree_t option" where
  "mdb_revoke_recursive m idx =
     (if idx \<ge> MAX_MDB_NODES then None
      else Option.bind (revoke_loop m (mn_first_child (mdb_nodes m (unat idx)))) (\<lambda>m1. Some (clear_node (unat idx) m1)))"

definition mdb_revoke :: "mdb_tree_t option \<Rightarrow> u32 \<Rightarrow> (kerror_t + mdb_tree_t) option" where
  "mdb_revoke mp idx =
     (case mp of
        None \<Rightarrow> Some (Inl ERR_INVALID_ARG)
      | Some m \<Rightarrow>
          if idx \<ge> MAX_MDB_NODES then Some (Inl ERR_INVALID_ARG)
          else if \<not> mn_valid (mdb_nodes m (unat idx)) then Some (Inl ERR_INVALID_CAP)
          else Option.bind (revoke_loop m (mn_first_child (mdb_nodes m (unat idx))))
             (\<lambda>m1. Some (Inr (set_node (unat idx) ((mdb_nodes m1 (unat idx))\<lparr>mn_first_child := NIL\<rparr>) m1))))"

text \<open>The pointer the deletion loop moves along: a first-child or next-sibling field of a node.\<close>

datatype link = First nat | Next nat

fun get_link :: "mdb_tree_t \<Rightarrow> link \<Rightarrow> u32" where
  "get_link m (First i) = mn_first_child (mdb_nodes m i)"
| "get_link m (Next i) = mn_next_sibling (mdb_nodes m i)"

fun set_link :: "link \<Rightarrow> u32 \<Rightarrow> mdb_tree_t \<Rightarrow> mdb_tree_t" where
  "set_link (First i) v m = set_node i ((mdb_nodes m i)\<lparr>mn_first_child := v\<rparr>) m"
| "set_link (Next i) v m = set_node i ((mdb_nodes m i)\<lparr>mn_next_sibling := v\<rparr>) m"

partial_function (option) unlink_loop :: "mdb_tree_t \<Rightarrow> link \<Rightarrow> u32 \<Rightarrow> mdb_tree_t option" where
  "unlink_loop m p idx =
     (if get_link m p = NIL then Some m
      else if get_link m p = idx then Some (set_link p (mn_next_sibling (mdb_nodes m (unat idx))) m)
      else if get_link m p \<ge> MAX_MDB_NODES then None
      else unlink_loop m (Next (unat (get_link m p))) idx)"

definition mdb_delete :: "mdb_tree_t option \<Rightarrow> u32 \<Rightarrow> (kerror_t + mdb_tree_t) option" where
  "mdb_delete mp idx =
     (case mp of
        None \<Rightarrow> Some (Inl ERR_INVALID_ARG)
      | Some m \<Rightarrow>
          if idx \<ge> MAX_MDB_NODES then Some (Inl ERR_INVALID_ARG)
          else if \<not> mn_valid (mdb_nodes m (unat idx)) then Some (Inl ERR_INVALID_CAP)
          else if mn_first_child (mdb_nodes m (unat idx)) \<noteq> NIL then Some (Inl ERR_REVOKE_NEEDED)
          else
            let par = mn_parent (mdb_nodes m (unat idx)) in
            Option.bind
              (if par \<noteq> NIL then (if par \<ge> MAX_MDB_NODES then None else unlink_loop m (First (unat par)) idx) else Some m)
              (\<lambda>m1.
                let m2 = set_node (unat idx) (zero_mdb_node\<lparr>mn_parent := NIL, mn_first_child := NIL, mn_next_sibling := NIL\<rparr>) m1;
                    m3 = (if idx < mdb_free_head m2 then m2\<lparr>mdb_free_head := idx\<rparr> else m2) in
                Some (Inr (m3\<lparr>mdb_count := mdb_count m3 - 1\<rparr>))))"

definition mdb_lookup :: "mdb_tree_t \<Rightarrow> u32 \<Rightarrow> cptr_t \<Rightarrow> u32" where
  "mdb_lookup m cnode_id slot =
     (case first_index 1024 (\<lambda>i.
         mn_valid (mdb_nodes m i) \<and>
         ((mn_cnode_id (mdb_nodes m i) = cnode_id \<and> mn_slot (mdb_nodes m i) = slot) \<or>
          (mn_cptr (mdb_nodes m i) = slot \<and> cnode_id = 0) \<or>
          mn_cptr (mdb_nodes m i) = (push_bit 8 cnode_id OR slot))) of
        None \<Rightarrow> NIL
      | Some i \<Rightarrow> of_nat i)"

partial_function (option) mdb_is_descendant :: "mdb_tree_t \<Rightarrow> u32 \<Rightarrow> u32 \<Rightarrow> bool option" where
  "mdb_is_descendant m ancestor cur =
     (if cur \<noteq> NIL \<and> cur < MAX_MDB_NODES then
        if cur = ancestor then Some True
        else mdb_is_descendant m ancestor (mn_parent (mdb_nodes m (unat cur)))
      else Some False)"

subsection \<open>The forest\<close>

abbreviation valid_at :: "mdb_tree_t \<Rightarrow> nat \<Rightarrow> bool" where "valid_at m i \<equiv> i < 1024 \<and> mn_valid (mdb_nodes m i)"
abbreviation parent_of :: "mdb_tree_t \<Rightarrow> nat \<Rightarrow> nat" where "parent_of m i \<equiv> unat (mn_parent (mdb_nodes m i))"

text \<open>The children of a node, by the parent indices.\<close>

definition children :: "mdb_tree_t \<Rightarrow> nat \<Rightarrow> nat set" where
  "children m i = {k. valid_at m k \<and> parent_of m k = i}"

text \<open>A chain of siblings, by the next-sibling indices.\<close>

fun siblings :: "mdb_tree_t \<Rightarrow> u32 \<Rightarrow> nat list \<Rightarrow> bool" where
  "siblings m a [] \<longleftrightarrow> a = NIL"
| "siblings m a (x # xs) \<longleftrightarrow> unat a = x \<and> x < 1024 \<and> siblings m (mn_next_sibling (mdb_nodes m x)) xs"

text \<open>\<open>within m a d\<close>: node \<open>d\<close> is \<open>a\<close> or derived from it.\<close>

inductive within :: "mdb_tree_t \<Rightarrow> nat \<Rightarrow> nat \<Rightarrow> bool" for m a where
  within_self: "within m a a"
| within_step: "within m a p \<Longrightarrow> d \<in> children m p \<Longrightarrow> within m a d"

inductive_cases within_cases: "within m a d"

definition depth_ok :: "mdb_tree_t \<Rightarrow> (nat \<Rightarrow> nat) \<Rightarrow> bool" where
  "depth_ok m dep \<longleftrightarrow> (\<forall>k. valid_at m k \<longrightarrow> mn_parent (mdb_nodes m k) \<noteq> NIL \<longrightarrow>
     valid_at m (parent_of m k) \<and> dep k = Suc (dep (parent_of m k)))"

definition kids_ok :: "mdb_tree_t \<Rightarrow> bool" where
  "kids_ok m \<longleftrightarrow> (\<forall>i. valid_at m i \<longrightarrow>
     (\<exists>xs. siblings m (mn_first_child (mdb_nodes m i)) xs \<and> distinct xs \<and> set xs = children m i))"

definition mdb_count_ok :: "mdb_tree_t \<Rightarrow> bool" where
  "mdb_count_ok m \<longleftrightarrow> unat (mdb_count m) = count_upto 1024 (\<lambda>i. mn_valid (mdb_nodes m i)) \<and>
     unat (mdb_free_head m) \<le> 1024 \<and> (\<forall>i<unat (mdb_free_head m). mn_valid (mdb_nodes m i))"

definition mdb_inv :: "mdb_tree_t \<Rightarrow> bool" where
  "mdb_inv m \<longleftrightarrow> kids_ok m \<and> (\<exists>dep. depth_ok m dep) \<and> mdb_count_ok m"

subsection \<open>Descendants\<close>

lemma nat_idx [simp]: "i < 1024 \<Longrightarrow> unat (of_nat i :: u32) = i"
  by (simp add: unat_of_nat take_bit_nat_eq_self)

lemma idx_eq_iff: "i < 1024 \<Longrightarrow> unat (a :: u32) = i \<longleftrightarrow> a = of_nat i"
  by (auto simp: word_unat_eq_iff)

lemma idx_not_nil [simp]: "i < 1024 \<Longrightarrow> (of_nat i :: u32) \<noteq> 0xFFFF"
  by (auto simp: word_unat_eq_iff)

lemma within_valid: "within m a d \<Longrightarrow> valid_at m a \<Longrightarrow> valid_at m d"
  by (induction rule: within.induct) (auto simp: children_def)

lemma children_depth:
  assumes "depth_ok m dep" "k \<in> children m p" "p < 1024"
  shows "valid_at m p" "dep k = Suc (dep p)"
proof -
  have k: "valid_at m k" "parent_of m k = p" using assms(2) by (simp_all add: children_def)
  then have "mn_parent (mdb_nodes m k) \<noteq> 0xFFFF" using assms(3) by auto
  then show "valid_at m p" "dep k = Suc (dep p)" using assms(1) k by (auto simp: depth_ok_def)
qed

lemma within_depth:
  assumes "depth_ok m dep" "within m a d" "valid_at m a"
  shows "d = a \<or> dep a < dep d"
  using assms(2,3)
proof (induction rule: within.induct)
  case (within_step p d)
  then show ?case using children_depth[OF assms(1) within_step.hyps(2)] within_valid[OF within_step.hyps(1)] by auto
qed simp

lemma within_first:
  "within m a d \<longleftrightarrow> d = a \<or> (\<exists>z\<in>children m a. within m z d)"
proof
  assume "within m a d" then show "d = a \<or> (\<exists>z\<in>children m a. within m z d)"
    by (induction rule: within.induct) (auto intro: within.intros)
next
  have "within m z d \<Longrightarrow> z \<in> children m a \<Longrightarrow> within m a d" for z
    by (induction rule: within.induct) (auto intro: within.intros)
  then show "d = a \<or> (\<exists>z\<in>children m a. within m z d) \<Longrightarrow> within m a d" by (auto intro: within.intros)
qed

text \<open>At most one node of a given depth has a given node among its descendants.\<close>

lemma within_unique:
  assumes "depth_ok m dep" "within m x d" "within m y d" "valid_at m x" "valid_at m y" "dep x = dep y"
  shows "x = y"
  using assms(2,3)
proof (induction rule: within.induct)
  case within_self
  then show ?case using within_depth[OF assms(1) within_self assms(5)] assms(6) by auto
next
  case (within_step p d)
  have p: "parent_of m d = p" "p < 1024"
    using within_step.hyps within_valid[OF within_step.hyps(1) assms(4)] by (auto simp: children_def)
  from within_step.prems show ?case
  proof (cases rule: within.cases)
    case within_self
    have "dep p < dep d" using children_depth[OF assms(1) within_step.hyps(2) p(2)] by simp
    moreover have "dep x \<le> dep p" using within_depth[OF assms(1) within_step.hyps(1) assms(4)] by auto
    ultimately show ?thesis using within_self assms(6) by simp
  next
    case (within_step q)
    then have "q = p" using p by (simp add: children_def)
    then show ?thesis using within_step \<open>within m y p \<Longrightarrow> x = y\<close> by simp
  qed
qed

subsection \<open>Revocation\<close>

definition same_links :: "mdb_tree_t \<Rightarrow> mdb_tree_t \<Rightarrow> bool" where
  "same_links m m' \<longleftrightarrow> (\<forall>i. mn_first_child (mdb_nodes m' i) = mn_first_child (mdb_nodes m i) \<and>
     mn_next_sibling (mdb_nodes m' i) = mn_next_sibling (mdb_nodes m i) \<and>
     mn_parent (mdb_nodes m' i) = mn_parent (mdb_nodes m i))"

lemma set_node_nodes [simp]:
  "mdb_nodes (set_node i n m) = (mdb_nodes m)(i := n)" "mdb_count (set_node i n m) = mdb_count m"
  "mdb_free_head (set_node i n m) = mdb_free_head m"
  by (simp_all add: set_node_def)

lemma clear_node_nodes [simp]:
  "mdb_nodes (clear_node i m) = (mdb_nodes m)(i := (mdb_nodes m i)\<lparr>mn_cap := zero_cap, mn_valid := False\<rparr>)"
  "mdb_count (clear_node i m) = mdb_count m - 1"
  "mdb_free_head (clear_node i m) = (if of_nat i < mdb_free_head m then of_nat i else mdb_free_head m)"
  by (simp_all add: clear_node_def Let_def)

definition clear_nodes :: "nat list \<Rightarrow> mdb_tree_t \<Rightarrow> mdb_tree_t" where
  "clear_nodes is m = fold clear_node is m"

lemma clear_nodes_simps [simp]:
  "clear_nodes [] m = m" "clear_nodes (i # is) m = clear_nodes is (clear_node i m)"
  "clear_nodes (is @ js) m = clear_nodes js (clear_nodes is m)"
  by (simp_all add: clear_nodes_def)

lemma clear_nodes_nodes:
  "mdb_nodes (clear_nodes is m) j =
     (if j \<in> set is then (mdb_nodes m j)\<lparr>mn_cap := zero_cap, mn_valid := False\<rparr> else mdb_nodes m j)"
  by (induction "is" arbitrary: m) auto

lemma clear_nodes_links [simp]: "same_links m0 (clear_nodes is m) = same_links m0 m"
  by (simp add: same_links_def clear_nodes_nodes)

lemma clear_node_links [simp]: "same_links m0 (clear_node i m) = same_links m0 m"
  by (auto simp: same_links_def)

lemma same_links_refl [simp]: "same_links m m"
  by (simp add: same_links_def)

text \<open>The subtrees below the children of a node, the node itself and the subtrees of its later siblings.\<close>

lemma revoke_subtree:
  assumes dep: "depth_ok m0 dep" and x: "valid_at m0 x" "dep x = e"
    and d1: "distinct d1" "set d1 = {d. \<exists>z\<in>set zs. within m0 z d}" "set zs = children m0 x" "\<forall>z\<in>set zs. valid_at m0 z \<and> dep z = Suc e"
    and d2: "distinct d2" "set d2 = {d. \<exists>y\<in>set ys. within m0 y d}" and ys: "\<forall>y\<in>set ys. valid_at m0 y \<and> dep y = e" "x \<notin> set ys"
  shows "distinct (d1 @ x # d2)" "set (d1 @ x # d2) = {d. \<exists>y\<in>set (x # ys). within m0 y d}"
proof -
  have sub: "insert x (set d1) = {d. within m0 x d}"
    using d1(2,3) within_first[of m0 x] by auto
  have "x \<notin> set d1"
  proof
    assume "x \<in> set d1"
    then obtain z where "z \<in> set zs" "within m0 z x" using d1(2) by blast
    then show False using within_depth[OF dep, of z x] d1(4) x(2) by auto
  qed
  moreover have "insert x (set d1) \<inter> set d2 = {}"
  proof (rule ccontr)
    assume "insert x (set d1) \<inter> set d2 \<noteq> {}"
    then obtain d y where "within m0 x d" "within m0 y d" "y \<in> set ys" using sub d2(2) by blast
    then show False using within_unique[OF dep, of x d y] x ys by auto
  qed
  ultimately show "distinct (d1 @ x # d2)" using d1(1) d2(1) by auto
  show "set (d1 @ x # d2) = {d. \<exists>y\<in>set (x # ys). within m0 y d}" using sub d2(2) by auto
qed

lemma revoke_loop_children:
  assumes "kids_ok m0" "depth_ok m0 dep" "\<forall>k<1024. dep k \<le> B"
  shows "\<lbrakk>\<forall>x\<in>set xs. valid_at m0 x \<and> dep x = e; B - e < n \<or> xs = []; siblings m0 a xs; distinct xs; same_links m0 m\<rbrakk> \<Longrightarrow>
    \<exists>ds. revoke_loop m a = Some (clear_nodes ds m) \<and> distinct ds \<and> set ds = {d. \<exists>x\<in>set xs. within m0 x d}"
proof (induction n arbitrary: xs a m e)
  case 0
  then show ?case by (simp add: revoke_loop.simps)
next
  case (Suc n)
  from Suc.prems show ?case
  proof (induction xs arbitrary: a m)
    case Nil
    then show ?case by (simp add: revoke_loop.simps)
  next
    case (Cons x ys)
    have x: "valid_at m0 x" "dep x = e" "unat a = x" using Cons.prems by auto
    then have a: "a \<noteq> 0xFFFF" "\<not> a \<ge> 1024" by (auto simp: word_le_nat_alt)
    obtain zs where zs: "siblings m0 (mn_first_child (mdb_nodes m0 x)) zs" "distinct zs" "set zs = children m0 x"
      using assms(1) x(1) unfolding kids_ok_def by blast
    have zd: "valid_at m0 z \<and> dep z = Suc e" if "z \<in> set zs" for z
      using that zs(3) children_depth[OF assms(2), of z x] x by (auto simp: children_def)
    then have bound: "B - Suc e < n \<or> zs = []"
    proof (cases zs)
      case (Cons z zs')
      then have "Suc e \<le> B" using zd[of z] assms(3) by auto
      then show ?thesis using Suc.prems(2) Cons.prems(2) by auto
    qed simp
    obtain d1 where d1: "revoke_loop m (mn_first_child (mdb_nodes m0 x)) = Some (clear_nodes d1 m)" "distinct d1"
      "set d1 = {d. \<exists>z\<in>set zs. within m0 z d}"
      using Suc.IH[OF _ bound zs(1,2) Cons.prems(5)] zd by blast
    let ?m = "clear_node x (clear_nodes d1 m)"
    have "same_links m0 ?m" using Cons.prems(5) by simp
    then obtain d2 where d2: "revoke_loop ?m (mn_next_sibling (mdb_nodes m0 x)) = Some (clear_nodes d2 ?m)" "distinct d2"
      "set d2 = {d. \<exists>y\<in>set ys. within m0 y d}"
      using Cons.IH[of "mn_next_sibling (mdb_nodes m0 x)" ?m] Cons.prems by auto
    have links: "mn_first_child (mdb_nodes m x) = mn_first_child (mdb_nodes m0 x)"
      "mn_next_sibling (mdb_nodes m x) = mn_next_sibling (mdb_nodes m0 x)"
      using Cons.prems(5) by (simp_all add: same_links_def)
    have "revoke_loop m a = Some (clear_nodes (d1 @ x # d2) m)"
      using a x(3) d1(1) d2(1) links by (subst revoke_loop.simps) simp
    moreover have "distinct (d1 @ x # d2)" "set (d1 @ x # d2) = {d. \<exists>y\<in>set (x # ys). within m0 y d}"
      using revoke_subtree[OF assms(2) x(1,2) d1(2,3) zs(3) _ d2(2,3)] zd Cons.prems(1,4) by auto
    ultimately show ?case by blast
  qed
qed

lemma clear_node_count_ok:
  assumes "mdb_count_ok m" "valid_at m i"
  shows "mdb_count_ok (clear_node i m)"
proof -
  have "count_upto 1024 (\<lambda>j. mn_valid (mdb_nodes m j)) = Suc (count_upto 1024 (\<lambda>j. mn_valid (mdb_nodes (clear_node i m) j)))"
    by (rule count_upto_clear[where i = i]) (use assms(2) in auto)
  moreover from this have "unat (mdb_count m - 1) = unat (mdb_count m) - 1"
    using assms(1) by (subst unat_minus_one) (auto simp: mdb_count_ok_def)
  ultimately show ?thesis using assms by (auto simp: mdb_count_ok_def word_less_nat_alt)
qed

lemma clear_nodes_count_ok:
  assumes "mdb_count_ok m" "distinct ds" "\<forall>d\<in>set ds. valid_at m d"
  shows "mdb_count_ok (clear_nodes ds m)"
  using assms
proof (induction ds arbitrary: m)
  case (Cons d ds)
  have "mdb_count_ok (clear_node d m)" using Cons.prems clear_node_count_ok by simp
  moreover have "\<forall>e\<in>set ds. valid_at (clear_node d m) e" using Cons.prems by auto
  ultimately show ?case using Cons.IH Cons.prems(2) by simp
qed simp

lemma siblings_cong:
  assumes "siblings m a xs" "\<And>x. x \<in> set xs \<Longrightarrow> mn_next_sibling (mdb_nodes m' x) = mn_next_sibling (mdb_nodes m x)"
  shows "siblings m' a xs"
  using assms by (induction xs arbitrary: a) auto

text \<open>What a revocation leaves: the proper descendants are cleared and the node has no children.\<close>

definition revoked :: "mdb_tree_t \<Rightarrow> nat \<Rightarrow> nat set" where
  "revoked m i = {d. within m i d \<and> d \<noteq> i}"

lemma mdb_revoke_runs:
  assumes "mdb_inv m" "valid_at m (unat idx)"
  shows "\<exists>ds. mdb_revoke (Some m) idx = Some (Inr (set_node (unat idx) ((mdb_nodes m (unat idx))\<lparr>mn_first_child := 0xFFFF\<rparr>) (clear_nodes ds m))) \<and>
    distinct ds \<and> set ds = revoked m (unat idx)"
proof -
  obtain dep where dep: "depth_ok m dep" and kids: "kids_ok m" using assms(1) by (auto simp: mdb_inv_def)
  define B where "B = Max (dep ` {..<1024})"
  have B: "\<forall>k<1024. dep k \<le> B" unfolding B_def by (auto intro!: Max_ge)
  obtain xs where xs: "siblings m (mn_first_child (mdb_nodes m (unat idx))) xs" "distinct xs" "set xs = children m (unat idx)"
    using kids assms(2) unfolding kids_ok_def by blast
  have xd: "\<forall>x\<in>set xs. valid_at m x \<and> dep x = Suc (dep (unat idx))"
    using xs(3) children_depth[OF dep, of _ "unat idx"] assms(2) by (auto simp: children_def)
  obtain ds where ds: "revoke_loop m (mn_first_child (mdb_nodes m (unat idx))) = Some (clear_nodes ds m)" "distinct ds"
    "set ds = {d. \<exists>x\<in>set xs. within m x d}"
    using revoke_loop_children[OF kids dep B xd disjI1[OF lessI] xs(1,2) same_links_refl] by blast
  have "set ds = revoked m (unat idx)"
  proof -
    have "d \<noteq> unat idx" if "x \<in> set xs" "within m x d" for x d
      using within_depth[OF dep that(2)] xd that(1) by fastforce
    then show ?thesis unfolding revoked_def within_first[of m "unat idx"] ds(3) xs(3) by (auto simp: xs(3))
  qed
  moreover from this have "unat idx \<notin> set ds" by (simp add: revoked_def)
  ultimately show ?thesis using ds(1,2) assms(2)
    by (intro exI[of _ ds]) (auto simp: mdb_revoke_def word_le_nat_alt clear_nodes_nodes)
qed

text \<open>A tree from which the proper descendants of a node have been removed.\<close>

definition pruned :: "mdb_tree_t \<Rightarrow> nat \<Rightarrow> mdb_tree_t \<Rightarrow> bool" where
  "pruned m x m' \<longleftrightarrow> (\<forall>i. valid_at m' i \<longleftrightarrow> valid_at m i \<and> i \<notin> revoked m x) \<and>
     (\<forall>i. mn_parent (mdb_nodes m' i) = mn_parent (mdb_nodes m i) \<and> mn_next_sibling (mdb_nodes m' i) = mn_next_sibling (mdb_nodes m i)) \<and>
     (\<forall>i. i \<notin> revoked m x \<longrightarrow> mn_first_child (mdb_nodes m' i) = (if i = x then 0xFFFF else mn_first_child (mdb_nodes m i)))"

lemma revoked_down:
  assumes "valid_at m k" "parent_of m k = x \<or> parent_of m k \<in> revoked m x" "k \<noteq> x"
  shows "k \<in> revoked m x"
  using assms by (auto simp: revoked_def children_def intro: within.intros)

lemma revoked_up:
  assumes "k \<in> revoked m x" "parent_of m k \<noteq> x"
  shows "parent_of m k \<in> revoked m x"
proof -
  obtain p where "within m x p" "k \<in> children m p" using assms(1) by (auto simp: revoked_def elim: within_cases)
  then show ?thesis using assms(2) by (simp add: children_def revoked_def)
qed

lemma pruned_kids:
  assumes "pruned m x m'" "kids_ok m" "depth_ok m dep" "valid_at m x"
  shows "kids_ok m'"
  unfolding kids_ok_def
proof (intro allI impI)
  note P = assms(1)[unfolded pruned_def]
  have ch: "children m' i = {k \<in> children m i. k \<notin> revoked m x}" for i using P by (auto simp: children_def)
  fix i assume i: "valid_at m' i"
  then have im: "valid_at m i" "i \<notin> revoked m x" using P by auto
  obtain xs where xs: "siblings m (mn_first_child (mdb_nodes m i)) xs" "distinct xs" "set xs = children m i"
    using assms(2) im(1) unfolding kids_ok_def by blast
  show "\<exists>xs. siblings m' (mn_first_child (mdb_nodes m' i)) xs \<and> distinct xs \<and> set xs = children m' i"
  proof (cases "i = x")
    case True
    have "parent_of m x \<noteq> x" using children_depth(2)[OF assms(3), of x x] assms(4) by (auto simp: children_def)
    then have "k \<in> revoked m x" if "k \<in> children m x" for k
      using that revoked_down[of k m x] by (cases "k = x") (simp_all add: children_def)
    then have "children m' x = {}" using ch[of x] by blast
    then show ?thesis using True P im(2) by (intro exI[of _ "[]"]) simp
  next
    case False
    then have "children m' i = children m i" using ch[of i] revoked_up[where m = m and x = x] im(2) by (auto simp: children_def)
    then show ?thesis using xs siblings_cong[OF xs(1), of m'] P False im(2) by auto
  qed
qed

lemma pruned_depth:
  assumes "pruned m x m'" "depth_ok m dep" "valid_at m x"
  shows "depth_ok m' dep"
  unfolding depth_ok_def
proof (intro allI impI)
  note P = assms(1)[unfolded pruned_def]
  fix k assume k: "valid_at m' k" "mn_parent (mdb_nodes m' k) \<noteq> 0xFFFF"
  then have km: "valid_at m k" "k \<notin> revoked m x" "mn_parent (mdb_nodes m k) \<noteq> 0xFFFF" using P by auto
  then have p: "valid_at m (parent_of m k)" "dep k = Suc (dep (parent_of m k))" using assms(2) by (auto simp: depth_ok_def)
  have "parent_of m k \<notin> revoked m x"
  proof
    assume r: "parent_of m k \<in> revoked m x"
    then have "k = x" using revoked_down[OF km(1) disjI2[OF r]] km(2) by blast
    then show False using r p within_depth[OF assms(2), of x "parent_of m k"] assms(3) by (auto simp: revoked_def)
  qed
  then have "valid_at m' (parent_of m k)" using p(1) P by blast
  moreover have "parent_of m' k = parent_of m k" using P by simp
  ultimately show "valid_at m' (parent_of m' k) \<and> dep k = Suc (dep (parent_of m' k))" using p(2) by presburger
qed

lemma mdb_revoke_inv:
  assumes "mdb_inv m" "valid_at m (unat idx)" "mdb_revoke (Some m) idx = Some (Inr m')"
  shows "mdb_inv m'" "\<And>i. i < 1024 \<Longrightarrow> mn_valid (mdb_nodes m' i) \<longleftrightarrow> mn_valid (mdb_nodes m i) \<and> i \<notin> revoked m (unat idx)"
    and "\<And>i. i \<in> revoked m (unat idx) \<Longrightarrow> mn_cap (mdb_nodes m' i) = zero_cap"
    and "\<And>i. i \<notin> revoked m (unat idx) \<Longrightarrow> i \<noteq> unat idx \<Longrightarrow> mdb_nodes m' i = mdb_nodes m i"
    and "mdb_nodes m' (unat idx) = (mdb_nodes m (unat idx))\<lparr>mn_first_child := 0xFFFF\<rparr>"
proof -
  let ?x = "unat idx"
  obtain ds where ds: "m' = set_node ?x ((mdb_nodes m ?x)\<lparr>mn_first_child := 0xFFFF\<rparr>) (clear_nodes ds m)"
    "distinct ds" "set ds = revoked m ?x"
    using mdb_revoke_runs[OF assms(1,2)] assms(3) by auto
  have notx: "?x \<notin> revoked m ?x" by (simp add: revoked_def)
  show val: "mn_valid (mdb_nodes m' i) \<longleftrightarrow> mn_valid (mdb_nodes m i) \<and> i \<notin> revoked m ?x" if "i < 1024" for i
    using ds notx by (simp add: clear_nodes_nodes)
  show "mn_cap (mdb_nodes m' i) = zero_cap" if "i \<in> revoked m ?x" for i
    using ds that notx by (auto simp: clear_nodes_nodes)
  show "mdb_nodes m' i = mdb_nodes m i" if "i \<notin> revoked m ?x" "i \<noteq> ?x" for i
    using ds that by (simp add: clear_nodes_nodes)
  show "mdb_nodes m' ?x = (mdb_nodes m ?x)\<lparr>mn_first_child := 0xFFFF\<rparr>" using ds by simp
  have "pruned m ?x m'" using ds notx by (auto simp: pruned_def clear_nodes_nodes)
  moreover obtain dep where "depth_ok m dep" "kids_ok m" using assms(1) by (auto simp: mdb_inv_def)
  ultimately have "kids_ok m'" "depth_ok m' dep" using pruned_kids pruned_depth assms(2) by blast+
  moreover have "\<forall>d\<in>set ds. valid_at m d" using ds(3) within_valid[OF _ assms(2)] by (auto simp: revoked_def)
  then have "mdb_count_ok (clear_nodes ds m)" using clear_nodes_count_ok[OF _ ds(2)] assms(1) by (simp add: mdb_inv_def)
  moreover have "mn_valid (mdb_nodes m' j) = mn_valid (mdb_nodes (clear_nodes ds m) j)" for j
    using ds(1,3) notx by (simp add: clear_nodes_nodes)
  ultimately show "mdb_inv m'" using ds(1) by (auto simp: mdb_inv_def mdb_count_ok_def)
qed

subsection \<open>Insertion\<close>

definition parent_ok :: "mdb_tree_t \<Rightarrow> u32 \<Rightarrow> bool" where
  "parent_ok m p \<longleftrightarrow> p = 0xFFFF \<or> valid_at m (unat p)"

definition new_node :: "mdb_tree_t \<Rightarrow> u32 \<Rightarrow> cptr_t \<Rightarrow> cap_t \<Rightarrow> mdb_node_t" where
  "new_node m p cptr cap = zero_mdb_node\<lparr>mn_valid := True, mn_cptr := cptr, mn_cap := cap, mn_parent := p,
     mn_first_child := 0xFFFF, mn_next_sibling := (if p = 0xFFFF then 0xFFFF else mn_first_child (mdb_nodes m (unat p))),
     mn_revocable := True\<rparr>"

abbreviation (input) inserted_nodes :: "mdb_tree_t \<Rightarrow> nat \<Rightarrow> u32 \<Rightarrow> cptr_t \<Rightarrow> cap_t \<Rightarrow> u32 \<Rightarrow> nat \<Rightarrow> mdb_node_t" where
  "inserted_nodes m i p cptr cap idx \<equiv> (\<lambda>j. if j = i then new_node m p cptr cap
     else if p \<noteq> 0xFFFF \<and> j = unat p then (mdb_nodes m j)\<lparr>mn_first_child := idx\<rparr> else mdb_nodes m j)"

lemma mdb_insert_InrD:
  assumes "mdb_insert (Some m) p cptr cap (Some out) = Inr (idx, m')" "parent_ok m p"
  obtains i where "i < 1024" "idx = of_nat i" "\<not> mn_valid (mdb_nodes m i)" "unat (mdb_count m) < 1024"
    "\<forall>j. unat (mdb_free_head m) \<le> j \<and> j < i \<longrightarrow> mn_valid (mdb_nodes m j)" "unat (mdb_free_head m) \<le> i"
    "mdb_nodes m' = inserted_nodes m i p cptr cap idx"
    "mdb_count m' = mdb_count m + 1"
    "mdb_free_head m' = (if idx = mdb_free_head m then idx + 1 else mdb_free_head m)"
proof -
  have c: "\<not> mdb_count m \<ge> 1024" using assms(1) by (auto simp: mdb_insert_def)
  obtain i where f: "find (\<lambda>i. \<not> mn_valid (mdb_nodes m i)) [unat (mdb_free_head m)..<1024] = Some i"
    using assms(1) c by (auto simp: mdb_insert_def split: option.splits)
  then obtain n where n: "n < 1024 - unat (mdb_free_head m)" "i = unat (mdb_free_head m) + n" "\<not> mn_valid (mdb_nodes m i)"
    "\<forall>j<n. mn_valid (mdb_nodes m (unat (mdb_free_head m) + j))"
    by (auto simp: find_Some_iff)
  then have i: "i < 1024" "unat (mdb_free_head m) \<le> i" by simp_all
  have below: "\<forall>j. unat (mdb_free_head m) \<le> j \<and> j < i \<longrightarrow> mn_valid (mdb_nodes m j)"
  proof (intro allI impI)
    fix j assume "unat (mdb_free_head m) \<le> j \<and> j < i"
    then show "mn_valid (mdb_nodes m j)" using n(2) n(4)[THEN spec[of _ "j - unat (mdb_free_head m)"]] by auto
  qed
  have ne: "unat p \<noteq> i" if "p \<noteq> 0xFFFF" using that assms(2) n(3) by (auto simp: parent_ok_def)
  have r: "idx = of_nat i \<and> mdb_nodes m' = inserted_nodes m i p cptr cap idx \<and>
    mdb_count m' = mdb_count m + 1 \<and> mdb_free_head m' = (if idx = mdb_free_head m then idx + 1 else mdb_free_head m)"
    using assms c f ne
    by (auto simp: mdb_insert_def Let_def new_node_def parent_ok_def word_less_nat_alt fun_eq_iff split: if_splits)
  show ?thesis using that i n(3) c below r by (simp add: word_le_nat_alt)
qed

lemma mdb_insert_count_ok:
  assumes "mdb_count_ok m" "mdb_insert (Some m) p cptr cap (Some out) = Inr (idx, m')" "parent_ok m p"
  shows "mdb_count_ok m'"
proof -
  obtain i where i: "i < 1024" "idx = of_nat i" "\<not> mn_valid (mdb_nodes m i)" "unat (mdb_count m) < 1024"
    "\<forall>j. unat (mdb_free_head m) \<le> j \<and> j < i \<longrightarrow> mn_valid (mdb_nodes m j)" "unat (mdb_free_head m) \<le> i"
    "mdb_nodes m' = inserted_nodes m i p cptr cap idx"
    "mdb_count m' = mdb_count m + 1" "mdb_free_head m' = (if idx = mdb_free_head m then idx + 1 else mdb_free_head m)"
    by (rule mdb_insert_InrD[OF assms(2,3)])
  have val: "mn_valid (mdb_nodes m' j) \<longleftrightarrow> j = i \<or> mn_valid (mdb_nodes m j)" for j
    using i(7) by (simp add: new_node_def)
  have "count_upto 1024 (\<lambda>j. mn_valid (mdb_nodes m' j)) = Suc (count_upto 1024 (\<lambda>j. mn_valid (mdb_nodes m j)))"
    by (rule count_upto_set[where i = i]) (use i(1,3) val in auto)
  moreover have "unat (mdb_count m + 1) = Suc (unat (mdb_count m))"
    using i(4) by (subst unat_add_lem[THEN iffD1]) simp_all
  moreover have "unat (idx + 1) = Suc i"
    using i(1,2) by (subst unat_add_lem[THEN iffD1]) simp_all
  moreover have "unat (mdb_free_head m) = i" if "idx = mdb_free_head m" using that i(1,2) nat_idx[of i] by simp
  ultimately show ?thesis using assms(1) i(1,5,6,8,9) val by (auto simp: mdb_count_ok_def less_Suc_eq)
qed

text \<open>The fields, children and sibling lists after an insertion.\<close>

lemma inserted_fields:
  assumes "mdb_nodes m' = inserted_nodes m i p cptr cap idx"
  shows "mn_valid (mdb_nodes m' j) \<longleftrightarrow> j = i \<or> mn_valid (mdb_nodes m j)"
    "mn_parent (mdb_nodes m' j) = (if j = i then p else mn_parent (mdb_nodes m j))"
    "j \<noteq> i \<Longrightarrow> mn_next_sibling (mdb_nodes m' j) = mn_next_sibling (mdb_nodes m j)"
    "j \<noteq> i \<Longrightarrow> p = 0xFFFF \<or> j \<noteq> unat p \<Longrightarrow> mn_first_child (mdb_nodes m' j) = mn_first_child (mdb_nodes m j)"
  using assms by (auto simp: new_node_def)

lemma inserted_children:
  assumes "i < 1024" and nodes: "mdb_nodes m' = inserted_nodes m i p cptr cap idx"
    and "\<not> mn_valid (mdb_nodes m i)" "j < 1024"
  shows "children m' j = (if p \<noteq> 0xFFFF \<and> j = unat p then insert i (children m j) else children m j)"
  using assms(1,3,4) inserted_fields(1,2)[OF nodes] by (auto simp: children_def)

lemma insert_kids:
  assumes kids: "kids_ok m" and dep: "depth_ok m dep" and i: "i < 1024" "idx = of_nat i" "\<not> mn_valid (mdb_nodes m i)"
    and p: "parent_ok m p" and nodes: "mdb_nodes m' = inserted_nodes m i p cptr cap idx"
  shows "kids_ok m'"
  unfolding kids_ok_def
proof (intro allI impI)
  fix j assume j: "valid_at m' j"
  note fields = inserted_fields[OF nodes] and ch = inserted_children[OF i(1) nodes i(3)]
  have orphan: "children m i = {}" using children_depth(1)[OF dep _ i(1)] i(3) by blast
  show "\<exists>xs. siblings m' (mn_first_child (mdb_nodes m' j)) xs \<and> distinct xs \<and> set xs = children m' j"
  proof (cases "j = i")
    case True
    have "children m' i = {}" using ch[OF i(1)] orphan p i(3) by (auto simp: parent_ok_def)
    then show ?thesis using True nodes by (intro exI[of _ "[]"]) (simp add: new_node_def)
  next
    case False
    then obtain xs where xs: "siblings m (mn_first_child (mdb_nodes m j)) xs" "distinct xs" "set xs = children m j"
      using kids j fields(1) unfolding kids_ok_def by blast
    have ni: "i \<notin> set xs" using xs(3) i(3) by (simp add: children_def)
    then have sib: "siblings m' (mn_first_child (mdb_nodes m j)) xs"
      using siblings_cong[OF xs(1), of m'] fields(3) by metis
    show ?thesis
    proof (cases "p \<noteq> 0xFFFF \<and> j = unat p")
      case True
      then have "siblings m' (mn_first_child (mdb_nodes m' j)) (i # xs)"
        using sib nodes False i by (simp add: new_node_def)
      then show ?thesis using True xs ni ch j by (intro exI[of _ "i # xs"]) auto
    next
      case False
      then show ?thesis using sib fields(4)[OF \<open>j \<noteq> i\<close>] xs ch j by (intro exI[of _ xs]) auto
    qed
  qed
qed

lemma mdb_insert_forest:
  assumes "mdb_inv m" "mdb_insert (Some m) p cptr cap (Some out) = Inr (idx, m')" "parent_ok m p"
  shows "mdb_inv m'" "valid_at m' (unat idx)" "\<not> valid_at m (unat idx)"
    and "p \<noteq> 0xFFFF \<Longrightarrow> unat idx \<in> children m' (unat p)" "\<And>j. j \<noteq> unat idx \<Longrightarrow> mn_valid (mdb_nodes m' j) = mn_valid (mdb_nodes m j)"
    and "mn_cap (mdb_nodes m' (unat idx)) = cap" "\<And>j. j \<noteq> unat idx \<Longrightarrow> mn_cap (mdb_nodes m' j) = mn_cap (mdb_nodes m j)"
proof -
  obtain i where i: "i < 1024" "idx = of_nat i" "\<not> mn_valid (mdb_nodes m i)"
    and nodes: "mdb_nodes m' = inserted_nodes m i p cptr cap idx"
    by (rule mdb_insert_InrD[OF assms(2,3)])
  have ix: "unat idx = i" using i by simp
  obtain dep where dep: "depth_ok m dep" and kids: "kids_ok m" using assms(1) by (auto simp: mdb_inv_def)
  note val = inserted_fields(1)[OF nodes] and par = inserted_fields(2)[OF nodes]
  have "kids_ok m'" by (rule insert_kids[OF kids dep i assms(3) nodes])
  moreover have "depth_ok m' (dep(i := Suc (dep (unat p))))"
    using dep assms(3) i(1,3) val par by (auto simp: depth_ok_def parent_ok_def)
  moreover have "mdb_count_ok m'" using mdb_insert_count_ok[OF _ assms(2,3)] assms(1) by (simp add: mdb_inv_def)
  ultimately show "mdb_inv m'" by (auto simp: mdb_inv_def)
  show "valid_at m' (unat idx)" "\<not> valid_at m (unat idx)" using i val ix by auto
  show "unat idx \<in> children m' (unat p)" if "p \<noteq> 0xFFFF" using that inserted_children[OF i(1) nodes i(3), of "unat p"] assms(3) ix by (auto simp: parent_ok_def)
  show "mn_valid (mdb_nodes m' j) = mn_valid (mdb_nodes m j)" if "j \<noteq> unat idx" for j using that val ix by simp
  show "mn_cap (mdb_nodes m' (unat idx)) = cap" using nodes ix by (simp add: new_node_def)
  show "mn_cap (mdb_nodes m' j) = mn_cap (mdb_nodes m j)" if "j \<noteq> unat idx" for j using nodes that ix by simp
qed

lemma mdb_insert_full:
  assumes "mdb_inv m"
  shows "mdb_insert (Some m) p cptr cap (Some out) = Inl e \<longleftrightarrow>
     e = ERR_NO_MEM \<and> (\<forall>i<1024. mn_valid (mdb_nodes m i))"
proof (cases "mdb_count m \<ge> 1024")
  case True
  have cnt: "unat (mdb_count m) = count_upto 1024 (\<lambda>i. mn_valid (mdb_nodes m i))" using assms by (simp add: mdb_inv_def mdb_count_ok_def)
  have "unat (mdb_count m) \<le> 1024" unfolding cnt by (rule count_upto_le)
  then have "count_upto 1024 (\<lambda>i. mn_valid (mdb_nodes m i)) = 1024" using cnt True by (simp add: word_le_nat_alt)
  then have "\<forall>i<1024. mn_valid (mdb_nodes m i)" using count_upto_full[of 1024 "\<lambda>i. mn_valid (mdb_nodes m i)"] by auto
  then show ?thesis using True by (auto simp: mdb_insert_def)
next
  case False
  have "count_upto 1024 (\<lambda>i. mn_valid (mdb_nodes m i)) \<noteq> 1024"
    using assms False by (auto simp: mdb_inv_def mdb_count_ok_def word_le_nat_alt)
  then have "\<exists>i<1024. \<not> mn_valid (mdb_nodes m i)"
    using count_upto_cong[of 1024 "\<lambda>i. mn_valid (mdb_nodes m i)" "\<lambda>_. True"] by (auto simp: count_upto_def)
  then obtain i where i: "i < 1024" "\<not> mn_valid (mdb_nodes m i)" by blast
  then have "unat (mdb_free_head m) \<le> i" using assms by (auto simp: mdb_inv_def mdb_count_ok_def linorder_not_le[symmetric])
  then have "find (\<lambda>i. \<not> mn_valid (mdb_nodes m i)) [unat (mdb_free_head m)..<1024] \<noteq> None"
    using i by (auto simp: find_None_iff)
  then show ?thesis using False i by (auto simp: mdb_insert_def Let_def)
qed

subsection \<open>Deletion\<close>

lemma siblings_less: "siblings m a xs \<Longrightarrow> x \<in> set xs \<Longrightarrow> x < 1024"
  by (induction xs arbitrary: a) auto

lemma unlink_loop_chain:
  assumes "siblings m (get_link m l) (as @ x # bs)" "x \<notin> set as"
  shows "unlink_loop m l (of_nat x) =
    Some (set_link (if as = [] then l else Next (last as)) (mn_next_sibling (mdb_nodes m x)) m)"
  using assms
proof (induction as arbitrary: l)
  case Nil
  then have "get_link m l = of_nat x" "x < 1024" by (auto simp: idx_eq_iff)
  then show ?case by (subst unlink_loop.simps) simp
next
  case (Cons y as)
  have y: "unat (get_link m l) = y" "y < 1024" "x \<noteq> y" using Cons.prems by auto
  have "x < 1024" using siblings_less[OF Cons.prems(1)] by simp
  then have "get_link m l \<noteq> of_nat x" using y by auto
  moreover have "get_link m l \<noteq> 0xFFFF" "\<not> get_link m l \<ge> 1024" using y by (auto simp: word_le_nat_alt)
  ultimately have "unlink_loop m l (of_nat x) = unlink_loop m (Next y) (of_nat x)"
    using y by (subst unlink_loop.simps) simp
  then show ?case using Cons.IH[of "Next y"] Cons.prems by simp
qed

lemma splice_chain:
  assumes "siblings m (get_link m l) (as @ x # bs)" "distinct (as @ x # bs)" "\<And>i. l = Next i \<Longrightarrow> i \<notin> set (as @ x # bs)"
    and "m' = set_link (if as = [] then l else Next (last as)) (mn_next_sibling (mdb_nodes m x)) m"
  shows "siblings m' (get_link m' l) (as @ bs)"
  using assms
proof (induction as arbitrary: l)
  case Nil
  have "siblings m' (mn_next_sibling (mdb_nodes m x)) bs"
    by (rule siblings_cong[of m]) (use Nil in \<open>cases l; auto\<close>)+
  then show ?case using Nil by (cases l) auto
next
  case (Cons y as)
  have "siblings m' (get_link m' (Next y)) (as @ bs)"
    using Cons.prems by (intro Cons.IH) (auto split: if_splits)
  moreover have "get_link m' l = get_link m l"
    using Cons.prems(3,4) last_in_set[of "y # as"] by (cases l) (auto split: if_splits)
  ultimately show ?case using Cons.prems(1) by simp
qed

text \<open>The unlinking changes one link only: the first child of the parent or the next sibling of a child.\<close>

lemma mdb_delete_unlink:
  assumes "mdb_inv m" "valid_at m (unat idx)" "mn_parent (mdb_nodes m (unat idx)) \<noteq> 0xFFFF"
  obtains l as bs m1 where
    "unlink_loop m (First (parent_of m (unat idx))) idx = Some m1"
    "m1 = set_link l (mn_next_sibling (mdb_nodes m (unat idx))) m"
    "l = First (parent_of m (unat idx)) \<or> (\<exists>z. l = Next z \<and> z \<in> children m (parent_of m (unat idx)) \<and> z \<noteq> unat idx)"
    "siblings m1 (mn_first_child (mdb_nodes m1 (parent_of m (unat idx)))) (as @ bs)"
    "distinct (as @ bs)" "set (as @ bs) = children m (parent_of m (unat idx)) - {unat idx}"
proof -
  let ?x = "unat idx" and ?p = "parent_of m (unat idx)"
  have p: "valid_at m ?p" using assms by (auto simp: mdb_inv_def depth_ok_def)
  then obtain xs where xs: "siblings m (mn_first_child (mdb_nodes m ?p)) xs" "distinct xs" "set xs = children m ?p"
    using assms(1) unfolding mdb_inv_def kids_ok_def by blast
  have "?x \<in> set xs" using xs(3) assms(2) by (simp add: children_def)
  then obtain as bs where ab: "xs = as @ ?x # bs" by (meson split_list)
  define l where "l = (if as = [] then First ?p else Next (last as))"
  define m1 where "m1 = set_link l (mn_next_sibling (mdb_nodes m ?x)) m"
  have "unlink_loop m (First ?p) (of_nat ?x) = Some m1"
    unfolding m1_def l_def by (rule unlink_loop_chain) (use xs ab in auto)
  moreover have "siblings m1 (get_link m1 (First ?p)) (as @ bs)"
    by (rule splice_chain) (use xs ab m1_def l_def in auto)
  moreover have "l = First ?p \<or> (\<exists>z. l = Next z \<and> z \<in> children m ?p \<and> z \<noteq> ?x)"
  proof (cases "as = []")
    case False
    then have la: "last as \<in> set as" by simp
    moreover have "?x \<notin> set as" using xs ab by simp
    ultimately have "last as \<noteq> ?x" by metis
    moreover have "last as \<in> children m ?p" using la xs ab by auto
    ultimately show ?thesis using False l_def by simp
  qed (simp add: l_def)
  moreover have "set (as @ bs) = children m ?p - {?x}" "distinct (as @ bs)" using xs ab by auto
  ultimately show ?thesis using that m1_def by simp
qed

definition dead_node :: mdb_node_t where
  "dead_node = zero_mdb_node\<lparr>mn_parent := 0xFFFF, mn_first_child := 0xFFFF, mn_next_sibling := 0xFFFF\<rparr>"

text \<open>The deletion of a leaf, as the change it makes to the forest.\<close>

definition deletes :: "mdb_tree_t \<Rightarrow> nat \<Rightarrow> mdb_tree_t \<Rightarrow> bool" where
  "deletes m x m' \<longleftrightarrow> mdb_nodes m' x = dead_node \<and>
     (\<forall>j. j \<noteq> x \<longrightarrow> (\<exists>fc nx. mdb_nodes m' j = (mdb_nodes m j)\<lparr>mn_first_child := fc, mn_next_sibling := nx\<rparr>)) \<and>
     (\<forall>j. j \<noteq> x \<longrightarrow> valid_at m j \<longrightarrow> (\<exists>xs. siblings m' (mn_first_child (mdb_nodes m' j)) xs \<and> distinct xs \<and> set xs = children m j - {x})) \<and>
     mdb_count m' = mdb_count m - 1 \<and> mdb_free_head m' = (if of_nat x < mdb_free_head m then of_nat x else mdb_free_head m)"

definition finish_delete :: "u32 \<Rightarrow> mdb_tree_t \<Rightarrow> mdb_tree_t" where
  "finish_delete idx m = (set_node (unat idx) dead_node m)
     \<lparr>mdb_free_head := (if idx < mdb_free_head m then idx else mdb_free_head m), mdb_count := mdb_count m - 1\<rparr>"

lemma finish_delete_fields [simp]:
  "mdb_nodes (finish_delete idx m) = (mdb_nodes m)(unat idx := dead_node)"
  "mdb_count (finish_delete idx m) = mdb_count m - 1"
  "mdb_free_head (finish_delete idx m) = (if idx < mdb_free_head m then idx else mdb_free_head m)"
  by (simp_all add: finish_delete_def)

lemma siblings_finish: "siblings m a xs \<Longrightarrow> unat idx \<notin> set xs \<Longrightarrow> siblings (finish_delete idx m) a xs"
  by (erule siblings_cong) auto

lemma mdb_delete_root:
  assumes "mdb_inv m" "valid_at m (unat idx)" "mn_first_child (mdb_nodes m (unat idx)) = 0xFFFF"
    and "mn_parent (mdb_nodes m (unat idx)) = 0xFFFF"
  shows "\<exists>m'. mdb_delete (Some m) idx = Some (Inr m') \<and> deletes m (unat idx) m'"
proof (intro exI conjI)
  show "mdb_delete (Some m) idx = Some (Inr (finish_delete idx m))"
    using assms(2-4) by (simp add: mdb_delete_def word_le_nat_alt Let_def dead_node_def finish_delete_def)
  have "\<exists>xs. siblings (finish_delete idx m) (mn_first_child (mdb_nodes (finish_delete idx m) j)) xs \<and> distinct xs \<and>
      set xs = children m j - {unat idx}" if j: "j \<noteq> unat idx" "valid_at m j" for j
  proof -
    obtain xs where xs: "siblings m (mn_first_child (mdb_nodes m j)) xs" "distinct xs" "set xs = children m j"
      using assms(1) j(2) unfolding mdb_inv_def kids_ok_def by blast
    have "unat idx \<notin> set xs" using xs(3) assms(4) j by (auto simp: children_def)
    then show ?thesis using xs j siblings_finish[OF xs(1)] by (intro exI[of _ xs]) auto
  qed
  moreover have "\<exists>fc nx. mdb_nodes m j = (mdb_nodes m j)\<lparr>mn_first_child := fc, mn_next_sibling := nx\<rparr>" for j
    by (intro exI[of _ "mn_first_child (mdb_nodes m j)"] exI[of _ "mn_next_sibling (mdb_nodes m j)"]) simp
  ultimately show "deletes m (unat idx) (finish_delete idx m)" by (simp add: deletes_def)
qed

lemma set_link_keeps:
  "\<exists>fc nx. mdb_nodes (set_link l v m) j = (mdb_nodes m j)\<lparr>mn_first_child := fc, mn_next_sibling := nx\<rparr>"
  "mdb_count (set_link l v m) = mdb_count m" "mdb_free_head (set_link l v m) = mdb_free_head m"
proof -
  show "\<exists>fc nx. mdb_nodes (set_link l v m) j = (mdb_nodes m j)\<lparr>mn_first_child := fc, mn_next_sibling := nx\<rparr>"
    by (intro exI[of _ "mn_first_child (mdb_nodes (set_link l v m) j)"]
        exI[of _ "mn_next_sibling (mdb_nodes (set_link l v m) j)"]) (cases l; simp)
  show "mdb_count (set_link l v m) = mdb_count m" "mdb_free_head (set_link l v m) = mdb_free_head m"
    by (cases l; simp)+
qed

text \<open>The sibling lists after a deletion.\<close>

lemma delete_kids:
  assumes inv: "mdb_inv m" and m1: "m1 = set_link l v m"
    and l: "l = First (parent_of m (unat idx)) \<or> (\<exists>z. l = Next z \<and> z \<in> children m (parent_of m (unat idx)) \<and> z \<noteq> unat idx)"
    and sib: "siblings m1 (mn_first_child (mdb_nodes m1 (parent_of m (unat idx)))) (as @ bs)"
    and dist: "distinct (as @ bs)" and st: "set (as @ bs) = children m (parent_of m (unat idx)) - {unat idx}"
    and j: "j \<noteq> unat idx" "valid_at m j"
  shows "\<exists>xs. siblings (finish_delete idx m1) (mn_first_child (mdb_nodes m1 j)) xs \<and> distinct xs \<and> set xs = children m j - {unat idx}"
proof (cases "j = parent_of m (unat idx)")
    case True
    then show ?thesis using siblings_finish[OF sib, of idx] dist st by (intro exI[of _ "as @ bs"]) auto
  next
    case False
    obtain xs where xs: "siblings m (mn_first_child (mdb_nodes m j)) xs" "distinct xs" "set xs = children m j"
      using inv j(2) unfolding mdb_inv_def kids_ok_def by blast
    have nx: "unat idx \<notin> set xs" using xs(3) False by (auto simp: children_def)
    have "mn_next_sibling (mdb_nodes m1 k) = mn_next_sibling (mdb_nodes m k)" if "k \<in> set xs" for k
    proof -
      have "k \<notin> children m (parent_of m (unat idx))" using that xs(3) False by (simp add: children_def)
      then have "l \<noteq> Next k" using l by blast
      then show ?thesis unfolding m1 by (cases l) simp_all
    qed
    then have "siblings (finish_delete idx m1) (mn_first_child (mdb_nodes m j)) xs"
      using siblings_finish[OF siblings_cong[OF xs(1)] nx] by blast
    moreover have "mn_first_child (mdb_nodes m1 j) = mn_first_child (mdb_nodes m j)"
      using l False unfolding m1 by (cases l) simp_all
    ultimately show ?thesis using xs nx by (intro exI[of _ xs]) auto
  qed

lemma mdb_delete_child:
  assumes "mdb_inv m" "valid_at m (unat idx)" "mn_first_child (mdb_nodes m (unat idx)) = 0xFFFF"
    and "mn_parent (mdb_nodes m (unat idx)) \<noteq> 0xFFFF"
  shows "\<exists>m'. mdb_delete (Some m) idx = Some (Inr m') \<and> deletes m (unat idx) m'"
proof -
  let ?x = "unat idx" and ?p = "parent_of m (unat idx)"
  obtain l as bs m1 where u: "unlink_loop m (First ?p) idx = Some m1"
    and m1: "m1 = set_link l (mn_next_sibling (mdb_nodes m ?x)) m"
    and l: "l = First ?p \<or> (\<exists>z. l = Next z \<and> z \<in> children m ?p \<and> z \<noteq> ?x)"
    and sib: "siblings m1 (mn_first_child (mdb_nodes m1 ?p)) (as @ bs)"
    and dist: "distinct (as @ bs)" and st: "set (as @ bs) = children m ?p - {?x}"
    by (rule mdb_delete_unlink[OF assms(1,2,4)])
  have p: "valid_at m ?p" using assms(1,2,4) by (auto simp: mdb_inv_def depth_ok_def)
  note kid = delete_kids[OF assms(1) m1 l sib dist st]
  note keeps = set_link_keeps[of l "mn_next_sibling (mdb_nodes m ?x)" m, folded m1]
  have "deletes m ?x (finish_delete idx m1)"
    unfolding deletes_def
  proof (intro conjI allI impI)
    fix j assume "j \<noteq> ?x"
    then have same: "mdb_nodes (finish_delete idx m1) j = mdb_nodes m1 j" by simp
    show "\<exists>fc nx. mdb_nodes (finish_delete idx m1) j = (mdb_nodes m j)\<lparr>mn_first_child := fc, mn_next_sibling := nx\<rparr>"
      unfolding same by (rule keeps(1))
    show "\<exists>xs. siblings (finish_delete idx m1) (mn_first_child (mdb_nodes (finish_delete idx m1) j)) xs \<and> distinct xs \<and>
      set xs = children m j - {?x}" if "valid_at m j"
      unfolding same by (rule kid[OF \<open>j \<noteq> ?x\<close> that])
  qed (simp_all add: keeps(2,3))
  moreover have "mdb_delete (Some m) idx = Some (Inr (finish_delete idx m1))"
    using assms(2-4) u p by (simp add: mdb_delete_def word_le_nat_alt Let_def dead_node_def finish_delete_def)
  ultimately show ?thesis by blast
qed

lemma deletes_inv:
  assumes "mdb_inv m" "valid_at m x" "mn_first_child (mdb_nodes m x) = 0xFFFF" "deletes m x m'"
  shows "mdb_inv m'" "\<And>i. mn_valid (mdb_nodes m' i) \<longleftrightarrow> mn_valid (mdb_nodes m i) \<and> i \<noteq> x"
    "\<And>i. i \<noteq> x \<Longrightarrow> mn_cap (mdb_nodes m' i) = mn_cap (mdb_nodes m i)"
proof -
  obtain dep where dep: "depth_ok m dep" using assms(1) by (auto simp: mdb_inv_def)
  have node: "\<exists>fc nx. mdb_nodes m' j = (mdb_nodes m j)\<lparr>mn_first_child := fc, mn_next_sibling := nx\<rparr>" if "j \<noteq> x" for j
    using assms(4) that by (simp add: deletes_def)
  show val: "mn_valid (mdb_nodes m' i) \<longleftrightarrow> mn_valid (mdb_nodes m i) \<and> i \<noteq> x" for i
    using node[of i] assms(4) by (cases "i = x") (auto simp: deletes_def dead_node_def zero_mdb_node_def)
  show "mn_cap (mdb_nodes m' i) = mn_cap (mdb_nodes m i)" if "i \<noteq> x" for i using node[OF that] by auto
  have par: "mn_parent (mdb_nodes m' i) = mn_parent (mdb_nodes m i)" if "i \<noteq> x" for i using node[OF that] by auto
  have leaf: "children m x = {}"
  proof -
    obtain xs where "siblings m 0xFFFF xs" "set xs = children m x"
      using assms(1-3) unfolding mdb_inv_def kids_ok_def by metis
    then show ?thesis by (cases xs) auto
  qed
  have ch: "children m' j = children m j - {x}" for j using val par by (auto simp: children_def)
  have "kids_ok m'" using assms(4) val ch unfolding kids_ok_def deletes_def by simp
  moreover have "depth_ok m' dep"
  proof -
    have "parent_of m k \<noteq> x" if "valid_at m k" for k using leaf that by (auto simp: children_def)
    then show ?thesis using dep val par unfolding depth_ok_def by simp
  qed
  moreover have "mdb_count_ok m'"
  proof -
    have "mdb_count_ok (clear_node x m)" using assms(1,2) clear_node_count_ok by (simp add: mdb_inv_def)
    moreover have "mn_valid (mdb_nodes m' j) = mn_valid (mdb_nodes (clear_node x m) j)" for j using val by simp
    ultimately show ?thesis using assms(4) by (simp add: mdb_count_ok_def deletes_def)
  qed
  ultimately show "mdb_inv m'" by (auto simp: mdb_inv_def)
qed

lemma mdb_delete_runs:
  assumes "mdb_inv m" "valid_at m (unat idx)" "mn_first_child (mdb_nodes m (unat idx)) = 0xFFFF"
  shows "\<exists>m'. mdb_delete (Some m) idx = Some (Inr m') \<and> deletes m (unat idx) m'"
  using mdb_delete_root[OF assms] mdb_delete_child[OF assms] by blast

subsection \<open>Runs\<close>

datatype mdb_op = Mdb_insert u32 cptr_t cap_t | Mdb_revoke u32 | Mdb_delete u32

text \<open>An operation that returns an error leaves the tree as it is.\<close>

fun mdb_step :: "mdb_tree_t \<Rightarrow> mdb_op \<Rightarrow> mdb_tree_t option" where
  "mdb_step m (Mdb_insert p cptr cap) = (case mdb_insert (Some m) p cptr cap (Some 0) of Inl _ \<Rightarrow> Some m | Inr (_, m1) \<Rightarrow> Some m1)"
| "mdb_step m (Mdb_revoke i) = Option.bind (mdb_revoke (Some m) i) (\<lambda>r. Some (case r of Inl _ \<Rightarrow> m | Inr m1 \<Rightarrow> m1))"
| "mdb_step m (Mdb_delete i) = Option.bind (mdb_delete (Some m) i) (\<lambda>r. Some (case r of Inl _ \<Rightarrow> m | Inr m1 \<Rightarrow> m1))"

text \<open>A node is only inserted as a root or below a node in use.\<close>

fun mdb_allowed :: "mdb_tree_t \<Rightarrow> mdb_op \<Rightarrow> bool" where
  "mdb_allowed m (Mdb_insert p cptr cap) \<longleftrightarrow> parent_ok m p"
| "mdb_allowed m _ \<longleftrightarrow> True"

lemma mdb_inv_init [simp]: "mdb_inv mdb_init"
  by (simp add: mdb_inv_def kids_ok_def depth_ok_def mdb_count_ok_def mdb_init_def zero_mdb_node_def
      if_distrib[of mn_valid])

lemma mdb_step_safe:
  assumes "mdb_inv m" "mdb_allowed m a"
  shows "\<exists>m1. mdb_step m a = Some m1 \<and> mdb_inv m1"
proof (cases a)
  case (Mdb_insert p cptr cap)
  then show ?thesis using assms mdb_insert_forest(1)[OF assms(1)] by (auto split: sum.splits)
next
  case (Mdb_revoke i)
  show ?thesis
  proof (cases "valid_at m (unat i)")
    case True
    then obtain m1 where "mdb_revoke (Some m) i = Some (Inr m1)" using mdb_revoke_runs[OF assms(1)] by blast
    then show ?thesis using Mdb_revoke mdb_revoke_inv(1)[OF assms(1) True] by simp
  next
    case False
    then show ?thesis using Mdb_revoke assms(1) by (auto simp: mdb_revoke_def word_le_nat_alt)
  qed
next
  case (Mdb_delete i)
  show ?thesis
  proof (cases "valid_at m (unat i) \<and> mn_first_child (mdb_nodes m (unat i)) = 0xFFFF")
    case True
    then obtain m1 where "mdb_delete (Some m) i = Some (Inr m1)" "deletes m (unat i) m1"
      using mdb_delete_runs[OF assms(1)] by blast
    then show ?thesis using Mdb_delete deletes_inv(1)[OF assms(1)] True by auto
  next
    case False
    then show ?thesis using Mdb_delete assms(1) by (auto simp: mdb_delete_def word_le_nat_alt)
  qed
qed

interpretation mdbm: checked_machine mdb_step mdb_inv mdb_allowed
  by unfold_locales (rule mdb_step_safe)

subsection \<open>Ancestry\<close>

lemma within_parent:
  assumes "valid_at m d" "d \<noteq> a"
  shows "within m a d \<longleftrightarrow> within m a (parent_of m d)"
  using assms by (auto simp: children_def elim: within_cases intro: within.intros)

lemma is_descendant_walk:
  assumes "depth_ok m dep" "unat a < 1024"
  shows "valid_at m (unat d) \<Longrightarrow> mdb_is_descendant m a d = Some (within m (unat a) (unat d))"
proof (induction "dep (unat d)" arbitrary: d rule: less_induct)
  case less
  let ?p = "mn_parent (mdb_nodes m (unat d))"
  have d: "d \<noteq> 0xFFFF" "d < 1024" using less.prems by (auto simp: word_less_nat_alt)
  show ?case
  proof (cases "d = a")
    case True
    then show ?thesis using d by (subst mdb_is_descendant.simps) (simp add: within.intros)
  next
    case False
    then have up: "mdb_is_descendant m a d = mdb_is_descendant m a ?p" "within m (unat a) (unat d) = within m (unat a) (unat ?p)"
      using d within_parent[OF less.prems] by (subst mdb_is_descendant.simps, simp, simp add: word_unat_eq_iff)
    show ?thesis
    proof (cases "?p = 0xFFFF")
      case True
      have "\<not> within m (unat a) (unat ?p)"
        using True assms(2) by (auto simp: children_def elim: within_cases)
      then show ?thesis using up True by (simp add: mdb_is_descendant.simps)
    next
      case False
      then show ?thesis using less assms(1) up by (auto simp: depth_ok_def)
    qed
  qed
qed

subsection \<open>Properties\<close>

definition mdb_demo :: "mdb_op list" where
  "mdb_demo = [Mdb_insert 0xFFFF 1 zero_cap, Mdb_insert 0 2 zero_cap, Mdb_revoke 0, Mdb_delete 0]"

lemma mdb_first_insert:
  "mdb_insert (Some mdb_init) 0xFFFF c cap (Some 0) =
     Inr (0, \<lparr>mdb_nodes = (mdb_nodes mdb_init)(0 := new_node mdb_init 0xFFFF c cap), mdb_count = 1, mdb_free_head = 1\<rparr>)"
proof -
  have "find (\<lambda>i. \<not> mn_valid (mdb_nodes mdb_init i)) [0..<1024] = Some 0"
    by (subst upt_conv_Cons) (simp_all add: mdb_init_def zero_mdb_node_def)
  then show ?thesis by (simp add: mdb_insert_def new_node_def set_node_def Let_def) (simp add: mdb_init_def)
qed

lemma mdb_demo_allowed: "run_allowed mdb_step mdb_allowed mdb_init mdb_demo"
  by (auto simp: mdb_demo_def mdb_first_insert parent_ok_def new_node_def split: option.splits)

text \<open>
  C16 (termination). The derivation tree is safe to walk: in every run of insertions (as a root or
  below a node in use), revocations and deletions from the empty tree, every loop and recursion of
  the component ends and stays inside the node array, and the tree keeps its shape: sibling chains
  without repetition that list exactly the nodes in use with that parent, no cycle of parents, and
  the right count and free hint.
\<close>

theorem mdb_run_safe:
  assumes "run_allowed mdb_step mdb_allowed mdb_init ops"
  shows "\<exists>m. run_steps mdb_step mdb_init ops = Some m \<and> mdb_inv m"
  using mdbm.run_safe[OF mdb_inv_init assms] .

theorem mdb_run_safe_witness: "\<exists>m. run_steps mdb_step mdb_init mdb_demo = Some m \<and> mdb_inv m"
  by (rule mdb_run_safe) (rule mdb_demo_allowed)

text \<open>
  C10 (functional). Revoking a node returns and removes exactly its derivatives: every proper
  descendant is invalid with its capability cleared, the node itself stays and has no children,
  and no other node is touched.
\<close>

theorem mdb_revoke_exact:
  assumes "mdb_inv m" "unat idx < 1024" "mn_valid (mdb_nodes m (unat idx))"
  shows "\<exists>m'. mdb_revoke (Some m) idx = Some (Inr m') \<and> mdb_inv m' \<and> children m' (unat idx) = {} \<and>
    (\<forall>d<1024. if within m (unat idx) d \<and> d \<noteq> unat idx
       then \<not> mn_valid (mdb_nodes m' d) \<and> mn_cap (mdb_nodes m' d) = zero_cap
       else mdb_nodes m' d = (if d = unat idx then (mdb_nodes m d)\<lparr>mn_first_child := 0xFFFF\<rparr> else mdb_nodes m d))"
proof -
  have v: "valid_at m (unat idx)" using assms by simp
  obtain m' where m': "mdb_revoke (Some m) idx = Some (Inr m')" using mdb_revoke_runs[OF assms(1) v] by blast
  note r = mdb_revoke_inv[OF assms(1) v m']
  have "valid_at m' (unat idx)" using assms(2,3) r(5) by simp
  then obtain xs where xs: "siblings m' (mn_first_child (mdb_nodes m' (unat idx))) xs" "set xs = children m' (unat idx)"
    using r(1) unfolding mdb_inv_def kids_ok_def by blast
  then have "children m' (unat idx) = {}" using r(5) by (cases xs) auto
  then show ?thesis using m' r by (intro exI[of _ m']) (auto simp: revoked_def)
qed

lemma mdb_one_root_inv:
  "mdb_inv \<lparr>mdb_nodes = (mdb_nodes mdb_init)(0 := new_node mdb_init 0xFFFF c cap), mdb_count = 1, mdb_free_head = 1\<rparr>"
  by (rule mdb_insert_forest(1)[OF mdb_inv_init mdb_first_insert]) (simp add: parent_ok_def)

theorem mdb_revoke_exact_witness:
  "\<exists>m'. mdb_revoke (Some \<lparr>mdb_nodes = (mdb_nodes mdb_init)(0 := new_node mdb_init 0xFFFF 1 zero_cap), mdb_count = 1, mdb_free_head = 1\<rparr>) 0 =
     Some (Inr m') \<and> mdb_inv m' \<and> children m' 0 = {}"
  using mdb_revoke_exact[OF mdb_one_root_inv, of 0 1 zero_cap] by (auto simp: new_node_def)

text \<open>
  (error). A node is deleted only when nothing is derived from it. A node in use with
  derivatives is refused with \<^verbatim>\<open>ERR_REVOKE_NEEDED\<close>; otherwise the deletion returns, that node alone
  leaves the tree, every other node keeps its capability and the tree keeps its shape.
\<close>

theorem mdb_delete_needs_revoke:
  assumes "mdb_inv m" "unat idx < 1024" "mn_valid (mdb_nodes m (unat idx))"
  shows "if children m (unat idx) \<noteq> {} then mdb_delete (Some m) idx = Some (Inl ERR_REVOKE_NEEDED)
    else \<exists>m'. mdb_delete (Some m) idx = Some (Inr m') \<and> mdb_inv m' \<and>
      (\<forall>i. mn_valid (mdb_nodes m' i) \<longleftrightarrow> mn_valid (mdb_nodes m i) \<and> i \<noteq> unat idx) \<and>
      (\<forall>i. i \<noteq> unat idx \<longrightarrow> mn_cap (mdb_nodes m' i) = mn_cap (mdb_nodes m i))"
proof -
  have v: "valid_at m (unat idx)" using assms by simp
  then obtain xs where xs: "siblings m (mn_first_child (mdb_nodes m (unat idx))) xs" "set xs = children m (unat idx)"
    using assms(1) unfolding mdb_inv_def kids_ok_def by blast
  show ?thesis
  proof (cases "mn_first_child (mdb_nodes m (unat idx)) = 0xFFFF")
    case True
    then have "children m (unat idx) = {}" using xs by (cases xs) auto
    moreover obtain m' where "mdb_delete (Some m) idx = Some (Inr m')" "deletes m (unat idx) m'"
      using mdb_delete_runs[OF assms(1) v True] by blast
    ultimately show ?thesis using deletes_inv[OF assms(1) v True] by auto
  next
    case False
    then have "children m (unat idx) \<noteq> {}" using xs by (cases xs) auto
    moreover have "mdb_delete (Some m) idx = Some (Inl ERR_REVOKE_NEEDED)"
      using False v by (simp add: mdb_delete_def word_le_nat_alt)
    ultimately show ?thesis by simp
  qed
qed

theorem mdb_delete_needs_revoke_witness:
  "\<exists>m'. mdb_delete (Some \<lparr>mdb_nodes = (mdb_nodes mdb_init)(0 := new_node mdb_init 0xFFFF 1 zero_cap), mdb_count = 1, mdb_free_head = 1\<rparr>) 0 = Some m'"
  using mdb_delete_needs_revoke[OF mdb_one_root_inv, of 0 1 zero_cap] by (auto simp: new_node_def split: if_splits)

text \<open>
  C27 (equivalence). The walk up the parent indices ends and answers exactly whether the second
  node is the first or derived from it.
\<close>

theorem mdb_is_descendant_correct:
  assumes "mdb_inv m" "unat a < 1024" "unat d < 1024" "mn_valid (mdb_nodes m (unat d))"
  shows "mdb_is_descendant m a d = Some (within m (unat a) (unat d))"
  using assms is_descendant_walk[of m _ a d] unfolding mdb_inv_def by blast

theorem mdb_is_descendant_correct_witness:
  "mdb_is_descendant \<lparr>mdb_nodes = (mdb_nodes mdb_init)(0 := new_node mdb_init 0xFFFF 1 zero_cap), mdb_count = 1, mdb_free_head = 1\<rparr> 0 0 =
     Some (within \<lparr>mdb_nodes = (mdb_nodes mdb_init)(0 := new_node mdb_init 0xFFFF 1 zero_cap), mdb_count = 1, mdb_free_head = 1\<rparr> (unat (0 :: u32)) (unat (0 :: u32)))"
  by (rule mdb_is_descendant_correct[OF mdb_one_root_inv]) (simp_all add: new_node_def)

end
