(* ===== verification/FrameAlloc.thy ===== *)
theory FrameAlloc
  imports Capability
begin

text \<open>
  The cache-colouring frame allocator, \<^verbatim>\<open>kernel/include/alloc.h\<close> and \<^verbatim>\<open>kernel/src/alloc.c\<close>: a
  bump pointer that is advanced to the next page of the partition's colour. The search for that
  page is the C \<^verbatim>\<open>while\<close> loop, kept as one; the lemmas give its closed form and its termination.
\<close>

abbreviation (input) NUM_COLORS :: u64 where "NUM_COLORS \<equiv> 16"

record frame_alloc_t =
  fa_base :: u64
  fa_next :: u64
  fa_top :: u64
  fa_free_head :: "u32 arr"
  fa_free_count :: "u32 arr"
  fa_frames :: "cap_t arr"
  fa_frame_count :: u32

definition zero_frame_alloc :: frame_alloc_t where
  "zero_frame_alloc = \<lparr>fa_base = 0, fa_next = 0, fa_top = 0, fa_free_head = (\<lambda>_. 0),
     fa_free_count = (\<lambda>_. 0), fa_frames = (\<lambda>_. zero_cap), fa_frame_count = 0\<rparr>"

definition alloc_init :: "u64 \<Rightarrow> u64 \<Rightarrow> frame_alloc_t" where
  "alloc_init base sz = zero_frame_alloc\<lparr>fa_base := base, fa_next := base, fa_top := base + sz\<rparr>"

definition alloc_color_for_partition :: "u32 \<Rightarrow> u16" where
  "alloc_color_for_partition partition_id = ucast ((partition_id * 2) mod 16)"

definition alloc_color_is_valid :: "u32 \<Rightarrow> u16 \<Rightarrow> bool" where
  "alloc_color_is_valid partition_id color \<longleftrightarrow>
     (let base = alloc_color_for_partition partition_id in color = base \<or> color = base + 1)"

text \<open>The page search of \<open>alloc_frame\<close>: guard and body of the loop.\<close>

definition color_mismatch :: "u16 \<Rightarrow> u64 \<Rightarrow> bool" where
  "color_mismatch color paddr \<longleftrightarrow> drop_bit 12 paddr mod NUM_COLORS \<noteq> ucast color"

definition next_page :: "u64 \<Rightarrow> u64" where
  "next_page paddr = paddr + PAGE_SIZE"

definition alloc_frame ::
  "frame_alloc_t option \<Rightarrow> u32 \<Rightarrow> u64 \<Rightarrow> cap_t option \<Rightarrow> kerror_t + (cap_t \<times> frame_alloc_t)" where
  "alloc_frame ap partition_id sz outp =
     (case (ap, outp) of
        (Some a, Some _) \<Rightarrow>
          if sz mod PAGE_SIZE \<noteq> 0 then Inl ERR_INVALID_ARG
          else if partition_id \<ge> 8 then Inl ERR_INVALID_ARG
          else
            let color = alloc_color_for_partition partition_id;
                paddr = while (color_mismatch color) next_page (fa_next a) in
            if paddr + sz > fa_top a then Inl ERR_NO_MEM
            else
              let out = zero_cap\<lparr>c_type := CAP_FRAME,
                    c_rights := CHERI_PERM_LOAD OR CHERI_PERM_STORE OR CHERI_PERM_LOAD_CAP OR CHERI_PERM_STORE_CAP,
                    c_is_valid := 1, c_is_sealed := 1, c_color := color,
                    c_u := set_frame_color color (set_frame_paddr paddr zero_u),
                    c_hw_cap := zero_sim_cap\<lparr>hw_base := paddr, hw_top := paddr + sz, hw_addr := paddr,
                      hw_tag := 1, hw_sealed := 1, hw_otype := OTYPE_FRAME\<rparr>\<rparr>;
                  a1 = a\<lparr>fa_next := paddr + sz\<rparr> in
              Inr (out,
                if fa_frame_count a1 < 512
                then a1\<lparr>fa_frames := (fa_frames a1)(unat (fa_frame_count a1) := out),
                        fa_frame_count := fa_frame_count a1 + 1\<rparr>
                else a1)
      | _ \<Rightarrow> Inl ERR_INVALID_ARG)"

text \<open>The allocator argument is only tested against \<open>NULL\<close>: freed memory is not reused.\<close>

definition alloc_free :: "frame_alloc_t option \<Rightarrow> cap_t option \<Rightarrow> kerror_t + cap_t" where
  "alloc_free ap framep =
     (case (ap, framep) of
        (Some a, Some frame) \<Rightarrow>
          if c_type frame \<noteq> CAP_FRAME then Inl ERR_INVALID_CAP else Inr zero_cap
      | _ \<Rightarrow> Inl ERR_INVALID_ARG)"

subsection \<open>Colours\<close>

text \<open>The colour of an address, as a number.\<close>

definition color_ix :: "u64 \<Rightarrow> nat" where
  "color_ix p = unat p div 4096 mod 16"

lemma color_ix_less [simp]: "color_ix p < 16"
  by (simp add: color_ix_def)

lemma unat_drop_12: "unat (drop_bit 12 (p :: u64)) = unat p div 4096"
  by (simp add: drop_bit_eq_div unat_div)

lemma color_mismatch_iff: "unat color < 16 \<Longrightarrow> color_mismatch color p \<longleftrightarrow> color_ix p \<noteq> unat color"
  by (simp add: color_mismatch_def word_unat_eq_iff unat_mod unat_drop_12 color_ix_def unat_ucast_up)

lemma color_of_partition: "p < 8 \<Longrightarrow> unat (alloc_color_for_partition p) = 2 * unat p"
proof -
  assume "p < 8"
  then have p: "unat p < 8" by (simp add: word_less_nat_alt)
  then have "unat (p * 2) = unat p * 2" by (subst unat_mult_lem[THEN iffD1]) simp_all
  then have "unat ((p * 2) mod 16) = 2 * unat p" using p by (simp add: unat_mod)
  then show ?thesis using p
    by (simp add: alloc_color_for_partition_def unsigned_ucast_eq take_bit_nat_eq_self)
qed

lemma color_of_partition_less [simp]: "unat (alloc_color_for_partition p) < 16"
proof -
  have "unat ((p * 2) mod 16 :: u32) < 16" by (simp add: unat_mod)
  then show ?thesis
    by (simp add: alloc_color_for_partition_def unsigned_ucast_eq take_bit_nat_eq_self)
qed

lemma unat_page_steps: "unat (p + of_nat k * 4096 :: u64) = (unat p + 4096 * k) mod 2 ^ 64"
proof -
  have "p + of_nat k * 4096 = of_nat (unat p + 4096 * k)" by simp
  then show ?thesis by (simp only: unat_of_nat) simp
qed

lemma div_page_mod: "(n :: nat) mod 2 ^ 64 div 4096 mod 16 = n div 4096 mod 16"
proof -
  have "take_bit 64 n div 4096 = take_bit 52 (n div 4096)"
    using drop_bit_take_bit[of 12 64 n] by (simp add: drop_bit_eq_div)
  then have "n mod 2 ^ 64 div 4096 mod 16 = n div 4096 mod 2 ^ 52 mod 16"
    by (simp add: take_bit_eq_mod)
  then show ?thesis by (simp add: mod_mod_cancel)
qed

lemma color_ix_steps: "color_ix (p + of_nat k * 4096) = (color_ix p + k) mod 16"
proof -
  have "color_ix (p + of_nat k * 4096) = (unat p + 4096 * k) div 4096 mod 16"
    by (simp only: color_ix_def unat_page_steps div_page_mod)
  also have "\<dots> = (unat p div 4096 + k) mod 16" by (simp add: add.commute)
  finally show ?thesis by (simp add: color_ix_def mod_simps)
qed

subsection \<open>The page search\<close>

text \<open>How many pages the search skips.\<close>

definition skip_pages :: "u16 \<Rightarrow> u64 \<Rightarrow> nat" where
  "skip_pages color p = (unat color + 16 - color_ix p) mod 16"

lemma skip_pages_less: "skip_pages color p < 16"
  by (simp add: skip_pages_def)

lemma mod16_wrap: "(n::nat) < 32 \<Longrightarrow> n mod 16 = (if n < 16 then n else n - 16)"
  by (simp add: le_mod_geq)

lemma skip_arith:
  fixes c i :: nat
  assumes "c < 16" "i < 16"
  shows "(c + 16 - i) mod 16 = (if i \<le> c then c - i else c + 16 - i)"
  using mod16_wrap[of "c + 16 - i"] assms by (auto split: if_splits)

lemma lands_arith:
  fixes c i k :: nat
  assumes "c < 16" "i < 16" "k < 16"
  shows "(i + k) mod 16 = c \<longleftrightarrow> k = (if i \<le> c then c - i else c + 16 - i)"
  using mod16_wrap[of "i + k"] assms by (auto split: if_splits)

lemma skip_pages_lands:
  assumes "unat color < 16" "k < 16"
  shows "(color_ix p + k) mod 16 = unat color \<longleftrightarrow> k = skip_pages color p"
  using lands_arith[OF assms(1) color_ix_less assms(2)] skip_arith[OF assms(1) color_ix_less]
  by (simp add: skip_pages_def)

lemma next_page_steps: "next_page (p + of_nat k * 4096) = p + of_nat (Suc k) * 4096"
  by (simp add: next_page_def algebra_simps)

lemma step_arith:
  fixes c i :: nat
  assumes "c < 16" "i < 16" "i \<noteq> c"
  shows "(c + 16 - (i + 1) mod 16) mod 16 < (c + 16 - i) mod 16"
proof -
  define j where "j = (if i + 1 < 16 then i + 1 else i + 1 - 16)"
  have "(i + 1) mod 16 = j" using mod16_wrap[of "i + 1"] assms(2) by (simp add: j_def)
  moreover have "j < 16" using assms(2) by (simp add: j_def)
  moreover have "(if j \<le> c then c - j else c + 16 - j) < (if i \<le> c then c - i else c + 16 - i)"
    using assms by (auto simp: j_def)
  ultimately show ?thesis using assms by (simp only: skip_arith)
qed

lemma skip_pages_step:
  assumes "unat color < 16" "color_ix p \<noteq> unat color"
  shows "skip_pages color (next_page p) < skip_pages color p"
proof -
  have "color_ix (next_page p) = (color_ix p + 1) mod 16"
    using color_ix_steps[of p 1] by (simp add: next_page_def)
  then show ?thesis
    using step_arith[OF assms(1) color_ix_less assms(2)] by (simp only: skip_pages_def)
qed

lemma color_search_eq:
  assumes "unat color < 16"
  shows "while (color_mismatch color) next_page p = p + of_nat (skip_pages color p) * 4096"
proof (rule while_rule[where
      P = "\<lambda>q. \<exists>k \<le> skip_pages color p. q = p + of_nat k * 4096" and
      r = "measure (skip_pages color)"])
  show "\<exists>k \<le> skip_pages color p. p = p + of_nat k * 4096" by (intro exI[of _ 0]) simp
next
  fix q
  assume "\<exists>k \<le> skip_pages color p. q = p + of_nat k * 4096" "color_mismatch color q"
  then obtain k where k: "k \<le> skip_pages color p" "q = p + of_nat k * 4096" "color_ix q \<noteq> unat color"
    using assms color_mismatch_iff by blast
  have "k < 16" using k(1) skip_pages_less le_less_trans by blast
  then have "k \<noteq> skip_pages color p"
    using k(2,3) skip_pages_lands[OF assms] by (simp add: color_ix_steps)
  then have "Suc k \<le> skip_pages color p" using k(1) by simp
  then show "\<exists>k \<le> skip_pages color p. next_page q = p + of_nat k * 4096"
    using k(2) next_page_steps by blast
  show "(next_page q, q) \<in> measure (skip_pages color)"
    using skip_pages_step[OF assms] k(3) by simp
next
  fix q
  assume "\<exists>k \<le> skip_pages color p. q = p + of_nat k * 4096" "\<not> color_mismatch color q"
  then obtain k where k: "k \<le> skip_pages color p" "q = p + of_nat k * 4096" "color_ix q = unat color"
    using assms color_mismatch_iff by blast
  then have "(color_ix p + k) mod 16 = unat color" by (simp add: color_ix_steps)
  moreover have "k < 16" using k(1) skip_pages_less le_less_trans by blast
  ultimately have "k = skip_pages color p" using skip_pages_lands[OF assms] by simp
  then show "q = p + of_nat (skip_pages color p) * 4096" using k(2) by simp
qed simp

lemma color_search_terminates:
  assumes "unat color < 16"
  shows "\<exists>q. while_option (color_mismatch color) next_page p = Some q"
  using measure_while_option_Some[where P = "\<lambda>_. True" and f = "skip_pages color" and
      b = "color_mismatch color" and c = next_page and s = p]
    assms color_mismatch_iff skip_pages_step by blast

lemma color_search_color:
  assumes "unat color < 16"
  shows "color_ix (while (color_mismatch color) next_page p) = unat color"
  using assms skip_pages_lands[OF assms skip_pages_less]
  by (simp add: color_search_eq color_ix_steps)

subsection \<open>What a successful allocation returns\<close>

text \<open>
  The allocator's invariant, and the requests for which none of its sums wraps around: the pool
  ends at least sixteen pages and the requested size below the end of the address space.
\<close>

definition alloc_inv :: "frame_alloc_t \<Rightarrow> bool" where
  "alloc_inv a \<longleftrightarrow> fa_base a \<le> fa_next a \<and> fa_next a \<le> fa_top a"

definition request_ok :: "frame_alloc_t \<Rightarrow> u32 \<times> u64 \<Rightarrow> bool" where
  "request_ok a r \<longleftrightarrow> unat (fa_top a) + 65536 + unat (snd r) < 2 ^ 64"

definition frame_lo :: "cap_t \<Rightarrow> nat" where "frame_lo c = unat (hw_base (c_hw_cap c))"
definition frame_hi :: "cap_t \<Rightarrow> nat" where "frame_hi c = unat (hw_top (c_hw_cap c))"

lemma color_search_nowrap:
  assumes "unat color < 16" "unat p + 65536 \<le> 2 ^ 64"
  shows "unat (while (color_mismatch color) next_page p) = unat p + 4096 * skip_pages color p"
proof -
  have "unat p + 4096 * skip_pages color p < 2 ^ 64"
    using assms(2) skip_pages_less[of color p] by linarith
  then show ?thesis
    by (simp only: color_search_eq[OF assms(1)] unat_page_steps) simp
qed

lemma alloc_frame_InrD:
  assumes "alloc_frame (Some a) p sz (Some oc) = Inr (c, a')"
  defines "paddr \<equiv> while (color_mismatch (alloc_color_for_partition p)) next_page (fa_next a)"
  shows "p < 8" "sz mod 4096 = 0" "paddr + sz \<le> fa_top a"
    "c_type c = CAP_FRAME" "c_is_valid c = 1" "c_color c = alloc_color_for_partition p"
    "hw_base (c_hw_cap c) = paddr" "hw_top (c_hw_cap c) = paddr + sz" "hw_tag (c_hw_cap c) = 1"
    "u_frame_paddr (c_u c) = paddr" "u_frame_color (c_u c) = alloc_color_for_partition p"
    "fa_next a' = paddr + sz" "fa_base a' = fa_base a" "fa_top a' = fa_top a"
  using assms by (auto simp: alloc_frame_def Let_def not_le not_less)

lemma alloc_frame_bounds:
  assumes "alloc_frame (Some a) p sz (Some oc) = Inr (c, a')"
    and inv: "alloc_inv a" and req: "request_ok a (p, sz)"
  shows "unat (fa_next a) \<le> frame_lo c" "frame_lo c = unat (fa_next a) + 4096 * skip_pages (alloc_color_for_partition p) (fa_next a)"
    "frame_hi c = frame_lo c + unat sz" "frame_hi c = unat (fa_next a')" "frame_hi c \<le> unat (fa_top a)"
    "alloc_inv a'" "color_ix (hw_base (c_hw_cap c)) = 2 * unat p"
proof -
  note D = alloc_frame_InrD[OF assms(1)]
  let ?q = "while (color_mismatch (alloc_color_for_partition p)) next_page (fa_next a)"
  have next_top: "unat (fa_next a) \<le> unat (fa_top a)"
    using inv by (simp add: alloc_inv_def word_le_nat_alt)
  have room: "unat (fa_top a) + 65536 + unat sz < 2 ^ 64" using req by (simp add: request_ok_def)
  have q: "unat ?q = unat (fa_next a) + 4096 * skip_pages (alloc_color_for_partition p) (fa_next a)"
    by (rule color_search_nowrap) (use next_top room in auto)
  then have q_le: "unat ?q < unat (fa_next a) + 65536"
    using skip_pages_less[of "alloc_color_for_partition p" "fa_next a"] by linarith
  then have "unat ?q + unat sz < 2 ^ 64" using next_top room by linarith
  then have qs: "unat (?q + sz) = unat ?q + unat sz" by (subst unat_add_lem[THEN iffD1]) simp_all
  show "unat (fa_next a) \<le> frame_lo c" "frame_lo c = unat (fa_next a) + 4096 * skip_pages (alloc_color_for_partition p) (fa_next a)"
    "frame_hi c = frame_lo c + unat sz" "frame_hi c = unat (fa_next a')" "frame_hi c \<le> unat (fa_top a)"
    using D q qs by (simp_all add: frame_lo_def frame_hi_def word_le_nat_alt)
  show "alloc_inv a'"
    using D q qs inv by (simp add: alloc_inv_def word_le_nat_alt)
  show "color_ix (hw_base (c_hw_cap c)) = 2 * unat p"
    using D(7) color_search_color[OF color_of_partition_less] color_of_partition[OF D(1)] by simp
qed

subsection \<open>A source of fresh memory\<close>

text \<open>
  The contract a client of an allocator relies on: every grant starts at or above the mark left by
  the grant before it, and moves the mark to its end. Any run of requests then hands out regions
  that do not meet, in increasing order.
\<close>

primrec alloc_seq :: "('s \<Rightarrow> 'r \<Rightarrow> 'c option \<times> 's) \<Rightarrow> 's \<Rightarrow> 'r list \<Rightarrow> 'c list" where
  "alloc_seq al s [] = []"
| "alloc_seq al s (r # rs) =
     (case al s r of
        (None, s') \<Rightarrow> alloc_seq al s' rs
      | (Some c, s') \<Rightarrow> c # alloc_seq al s' rs)"

locale bump_source =
  fixes al :: "'s \<Rightarrow> 'r \<Rightarrow> 'c option \<times> 's"
    and lo hi :: "'c \<Rightarrow> nat"
    and mark :: "'s \<Rightarrow> nat"
    and inv :: "'s \<Rightarrow> bool"
    and ok :: "'s \<Rightarrow> 'r \<Rightarrow> bool"
  assumes refuse: "al s r = (None, s') \<Longrightarrow> s' = s"
    and stable: "ok s q \<Longrightarrow> al s r = (g, s') \<Longrightarrow> ok s' q"
    and grant: "inv s \<Longrightarrow> ok s r \<Longrightarrow> al s r = (Some c, s') \<Longrightarrow>
      inv s' \<and> mark s \<le> lo c \<and> lo c \<le> hi c \<and> hi c = mark s'"
begin

lemma seq_above: "inv s \<Longrightarrow> \<forall>r\<in>set rs. ok s r \<Longrightarrow> c \<in> set (alloc_seq al s rs) \<Longrightarrow> mark s \<le> lo c"
proof (induction rs arbitrary: s)
  case (Cons r rs)
  obtain g s' where r: "al s r = (g, s')" by (cases "al s r")
  have ok': "\<forall>q\<in>set rs. ok s' q" using Cons.prems(2) stable[OF _ r] by simp
  show ?case
  proof (cases g)
    case None
    then have "s' = s" using r refuse by simp
    then show ?thesis using Cons None r by simp
  next
    case (Some d)
    then have g: "inv s' \<and> mark s \<le> lo d \<and> lo d \<le> hi d \<and> hi d = mark s'"
      using grant[of s r d s'] Cons.prems r by simp
    moreover have "c \<in> set (alloc_seq al s' rs) \<Longrightarrow> mark s' \<le> lo c" using Cons.IH g ok' by blast
    ultimately show ?thesis using Cons.prems(3) r Some by (auto intro: order_trans)
  qed
qed simp

lemma seq_disjoint:
  "inv s \<Longrightarrow> \<forall>r\<in>set rs. ok s r \<Longrightarrow> sorted_wrt (\<lambda>c d. hi c \<le> lo d) (alloc_seq al s rs)"
proof (induction rs arbitrary: s)
  case (Cons r rs)
  obtain g s' where r: "al s r = (g, s')" by (cases "al s r")
  have ok': "\<forall>q\<in>set rs. ok s' q" using Cons.prems(2) stable[OF _ r] by simp
  show ?case
  proof (cases g)
    case None
    then have "s' = s" using r refuse by simp
    then show ?thesis using Cons None r by simp
  next
    case (Some d)
    then have g: "inv s'" "hi d = mark s'"
      using grant[of s r d s'] Cons.prems r by simp_all
    then show ?thesis using Cons.IH[OF g(1) ok'] seq_above[OF g(1) ok'] r Some by simp
  qed
qed simp

end

text \<open>One request to the frame allocator; a refused request leaves it as it was.\<close>

definition alloc_try :: "frame_alloc_t \<Rightarrow> u32 \<times> u64 \<Rightarrow> cap_t option \<times> frame_alloc_t" where
  "alloc_try a r = (case alloc_frame (Some a) (fst r) (snd r) (Some zero_cap) of
     Inl _ \<Rightarrow> (None, a) | Inr (c, a') \<Rightarrow> (Some c, a'))"

lemma alloc_try_Some:
  "alloc_try a r = (Some c, a') \<longleftrightarrow> alloc_frame (Some a) (fst r) (snd r) (Some zero_cap) = Inr (c, a')"
  by (auto simp: alloc_try_def split: sum.splits prod.splits)

lemma alloc_try_None: "alloc_try a r = (None, a') \<Longrightarrow> a' = a"
  by (auto simp: alloc_try_def split: sum.splits prod.splits)

interpretation frames: bump_source alloc_try frame_lo frame_hi "\<lambda>a. unat (fa_next a)" alloc_inv request_ok
proof
  fix s r s' assume "alloc_try s r = (None, s')"
  then show "s' = s" by (rule alloc_try_None)
next
  fix s q r g s' assume "request_ok s q" "alloc_try s r = (g, s')"
  then show "request_ok s' q"
    using alloc_frame_InrD(14)[of s "fst r" "snd r" zero_cap]
    by (cases g) (auto simp: alloc_try_Some request_ok_def dest: alloc_try_None)
next
  fix s r c s' assume "alloc_inv s" "request_ok s r" "alloc_try s r = (Some c, s')"
  then show "alloc_inv s' \<and> unat (fa_next s) \<le> frame_lo c \<and> frame_lo c \<le> frame_hi c \<and> frame_hi c = unat (fa_next s')"
    using alloc_frame_bounds[of s "fst r" "snd r" zero_cap c s'] by (simp add: alloc_try_Some)
qed

subsection \<open>Properties\<close>

text \<open>
  C15 (safety). From an allocator whose next pointer lies in its pool, over any sequence of frame requests none of which is so large that the end of the pool plus
  the 64 KB of the colour search plus the requested size reaches 2^64, the frames the allocator
  hands out never overlap: each ends at or below the start of every later one. Requests
  beyond that bound are excluded because the sum wraps and moves the allocator back (\<open>alloc_frame_wraps\<close>).
\<close>

theorem alloc_frames_disjoint:
  assumes "alloc_inv a" and "\<And>r. r \<in> set rs \<Longrightarrow> request_ok a r"
  shows "sorted_wrt (\<lambda>c d. frame_hi c \<le> frame_lo d) (alloc_seq alloc_try a rs)"
  using frames.seq_disjoint[of a rs] assms by simp

theorem alloc_frames_disjoint_witness:
  "sorted_wrt (\<lambda>c d. frame_hi c \<le> frame_lo d)
     (alloc_seq alloc_try (alloc_init 0x80400000 0x400000) [(0, 4096), (1, 8192), (0, 4096)])"
  by (rule alloc_frames_disjoint) (auto simp: alloc_inv_def alloc_init_def request_ok_def)

text \<open>
  C33 (functional). When an allocator whose next pointer lies in its pool grants a request for which the end of
  the pool plus 64 KB plus the size stays below 2^64, the frame is a valid frame capability of exactly the requested size,
  inside the pool and at or above the next pointer, so above everything granted before, its first page has
  the partition's colour, and the next pointer moves to the end of the frame, still inside the pool.
\<close>

theorem alloc_frame_correct:
  assumes "alloc_frame (Some a) p sz (Some oc) = Inr (c, a')" "alloc_inv a" "request_ok a (p, sz)"
  shows "cap_is_valid (Some c) \<and> c_type c = CAP_FRAME \<and> u_frame_paddr (c_u c) = hw_base (c_hw_cap c) \<and>
    unat (fa_base a) \<le> frame_lo c \<and> unat (fa_next a) \<le> frame_lo c \<and>
    frame_hi c = frame_lo c + unat sz \<and> frame_hi c \<le> unat (fa_top a) \<and>
    color_ix (u_frame_paddr (c_u c)) = unat (c_color c) \<and> alloc_color_is_valid p (c_color c) \<and>
    alloc_inv a' \<and> unat (fa_next a') = frame_hi c"
proof -
  note D = alloc_frame_InrD[OF assms(1)] and B = alloc_frame_bounds[OF assms]
  have "unat (fa_base a) \<le> unat (fa_next a)"
    using assms(2) by (simp add: alloc_inv_def word_le_nat_alt)
  moreover have "cap_is_valid (Some c)" using D by (simp add: cap_is_valid_def cheri_tag_get_def)
  moreover have "color_ix (u_frame_paddr (c_u c)) = unat (c_color c)"
    using B(7) D color_of_partition[OF D(1)] by simp
  moreover have "alloc_color_is_valid p (c_color c)" using D(6) by (simp add: alloc_color_is_valid_def)
  ultimately show ?thesis using B D by auto
qed

lemma alloc_frame_demo:
  "alloc_frame (Some (alloc_init 0x80400000 0x400000)) 1 4096 (Some zero_cap) =
    Inr (fst (projr (alloc_frame (Some (alloc_init 0x80400000 0x400000)) 1 4096 (Some zero_cap))),
         snd (projr (alloc_frame (Some (alloc_init 0x80400000 0x400000)) 1 4096 (Some zero_cap))))"
proof -
  have "unat (alloc_color_for_partition 1) = 2" by (simp add: color_of_partition)
  moreover have "color_ix 0x80400000 = 0" by (simp add: color_ix_def)
  ultimately have "skip_pages (alloc_color_for_partition 1) 0x80400000 = 2"
    by (simp add: skip_pages_def)
  then have "while (color_mismatch (alloc_color_for_partition 1)) next_page 0x80400000 = 0x80402000"
    by (simp add: color_search_eq)
  then show ?thesis by (simp add: alloc_frame_def alloc_init_def Let_def word_le_nat_alt)
qed

theorem alloc_frame_correct_witness:
  "frame_hi (fst (projr (alloc_frame (Some (alloc_init 0x80400000 0x400000)) 1 4096 (Some zero_cap))))
     \<le> 0x80800000"
  using alloc_frame_correct[OF alloc_frame_demo]
  by (simp add: alloc_inv_def alloc_init_def request_ok_def)

text \<open>
  (termination). The search for a page of the partition's colour ends for every partition number
  and every start address, after at most fifteen pages, on a page of that colour.
\<close>

theorem alloc_color_search_ends:
  "while_option (color_mismatch (alloc_color_for_partition p)) next_page start =
     Some (start + of_nat (skip_pages (alloc_color_for_partition p) start) * PAGE_SIZE) \<and>
   skip_pages (alloc_color_for_partition p) start \<le> 15 \<and>
   \<not> color_mismatch (alloc_color_for_partition p)
       (start + of_nat (skip_pages (alloc_color_for_partition p) start) * PAGE_SIZE)"
proof -
  let ?c = "alloc_color_for_partition p"
  obtain q where q: "while_option (color_mismatch ?c) next_page start = Some q"
    using color_search_terminates color_of_partition_less by blast
  then have "q = start + of_nat (skip_pages ?c start) * PAGE_SIZE"
    using color_search_eq[OF color_of_partition_less, of p start] by (simp add: While_Combinator.while_def)
  then show ?thesis
    using q while_option_stop[OF q] skip_pages_less[of ?c start] by simp
qed

text \<open>
  (safety). Different partitions have no cache colour in common, so no colour is valid for two
  of the eight partitions.
\<close>

theorem partition_colors_disjoint:
  assumes "p < 8" "q < 8" "p \<noteq> q" "alloc_color_is_valid p color"
  shows "\<not> alloc_color_is_valid q color"
proof
  assume v: "alloc_color_is_valid q color"
  have succ: "unat (alloc_color_for_partition r + 1) = Suc (unat (alloc_color_for_partition r))" for r
    by (subst unat_add_lem[THEN iffD1]) (use color_of_partition_less[of r] in linarith | simp)+
  have "unat color div 2 = unat r" if "r < 8" "alloc_color_is_valid r color" for r
    using that color_of_partition[OF that(1)] succ[of r]
    by (auto simp: alloc_color_is_valid_def Let_def)
  then have "unat p = unat q" using assms v by metis
  then show False using assms(3) by (simp add: word_unat_eq_iff)
qed

theorem partition_colors_disjoint_witness: "\<not> alloc_color_is_valid 1 0"
  by (rule partition_colors_disjoint[of 0]) (simp_all add: alloc_color_is_valid_def alloc_color_for_partition_def)

text \<open>
  (functional). The colour of page \<open>k\<close> of a granted frame belongs to the partition exactly when
  \<open>k mod 16\<close> is 0 or 1: frames of up to two pages are colour-isolated, and every longer frame
  contains a page whose colour belongs to another partition.
\<close>

theorem alloc_frame_page_colors:
  assumes "alloc_frame (Some a) p sz (Some oc) = Inr (c, a')" "alloc_inv a" "request_ok a (p, sz)"
  shows "alloc_color_is_valid p (of_nat (color_ix (u_frame_paddr (c_u c) + of_nat k * PAGE_SIZE))) \<longleftrightarrow> k mod 16 < 2"
proof -
  note D = alloc_frame_InrD[OF assms(1)]
  have p: "unat p < 8" using D(1) by (simp add: word_less_nat_alt)
  have c: "unat (alloc_color_for_partition p) = 2 * unat p" by (rule color_of_partition[OF D(1)])
  have "color_ix (u_frame_paddr (c_u c)) = 2 * unat p"
    using alloc_frame_bounds(7)[OF assms] D by simp
  then have ix: "color_ix (u_frame_paddr (c_u c) + of_nat k * PAGE_SIZE) = (2 * unat p + k mod 16) mod 16"
    by (simp only: color_ix_steps mod_add_right_eq)
  have u: "unat (of_nat n :: u16) = n" if "n < 16" for n
    using that by (simp add: unat_of_nat)
  have "alloc_color_is_valid p (of_nat n) \<longleftrightarrow> n = 2 * unat p \<or> n = 2 * unat p + 1" if "n < 16" for n
  proof -
    have "unat (alloc_color_for_partition p + 1) = 2 * unat p + 1"
      using p c by (subst unat_add_lem[THEN iffD1]) simp_all
    then show ?thesis
      by (simp add: alloc_color_is_valid_def Let_def word_unat_eq_iff u[OF that] c)
  qed
  moreover have "(2 * unat p + k mod 16) mod 16 < 16" by simp
  moreover have "(2 * unat p + k mod 16) mod 16 = 2 * unat p \<or> (2 * unat p + k mod 16) mod 16 = 2 * unat p + 1
      \<longleftrightarrow> k mod 16 < 2"
    using p mod16_wrap[of "2 * unat p + k mod 16"] by (auto split: if_splits)
  ultimately show ?thesis using ix by simp
qed

theorem alloc_frame_page_colors_witness:
  "\<not> alloc_color_is_valid 1 (of_nat (color_ix (u_frame_paddr (c_u
     (fst (projr (alloc_frame (Some (alloc_init 0x80400000 0x400000)) 1 4096 (Some zero_cap))))) + of_nat 2 * PAGE_SIZE)))"
  using alloc_frame_page_colors[OF alloc_frame_demo, of 2]
  by (simp add: alloc_inv_def alloc_init_def request_ok_def)

text \<open>
  (bounds). The bound test of the allocator wraps: a request for almost the whole address space
  (a multiple of the page size) is granted, and moves the bump pointer back below the frame it
  returned, so that memory already handed out is handed out again.
\<close>

theorem alloc_frame_wraps:
  assumes "p < 8" "alloc_inv a" "unat (fa_top a) + 65536 < 2 ^ 64" "4096 \<le> fa_next a"
    and "unat (fa_next a) + 65536 \<le> unat (fa_top a)"
  shows "\<exists>c a'. alloc_frame (Some a) p (- PAGE_SIZE) (Some oc) = Inr (c, a') \<and>
    fa_next a' = hw_base (c_hw_cap c) - PAGE_SIZE \<and> fa_next a' < hw_base (c_hw_cap c)"
proof -
  let ?q = "while (color_mismatch (alloc_color_for_partition p)) next_page (fa_next a)"
  have q: "unat ?q = unat (fa_next a) + 4096 * skip_pages (alloc_color_for_partition p) (fa_next a)"
    using color_search_nowrap[OF color_of_partition_less] assms(3,5) by simp
  have ge: "4096 \<le> unat ?q" using q assms(4) by (simp add: word_le_nat_alt)
  then have m: "unat (?q - 4096) = unat ?q - 4096" by (simp add: unat_sub word_le_nat_alt)
  moreover have "unat ?q < unat (fa_next a) + 65536"
    using q skip_pages_less[of "alloc_color_for_partition p" "fa_next a"] by linarith
  ultimately have "?q - 4096 \<le> fa_top a" "?q - 4096 < ?q"
    using ge assms(5) by (simp_all add: word_le_nat_alt word_less_nat_alt)
  then show ?thesis
    using assms(1) by (simp add: alloc_frame_def Let_def not_less linorder_not_le)
qed

theorem alloc_frame_wraps_witness:
  "\<exists>c a'. alloc_frame (Some (alloc_init 0x80400000 0x400000)) 0 (- PAGE_SIZE) (Some zero_cap) = Inr (c, a') \<and>
     fa_next a' < hw_base (c_hw_cap c)"
  using alloc_frame_wraps[of 0 "alloc_init 0x80400000 0x400000" zero_cap]
  by (auto simp: alloc_inv_def alloc_init_def)

end
