(* ===== verification/Process.thy ===== *)
theory Process
  imports Endpoint Sched Revoke FrameAlloc
begin

text \<open>
  Creation and destruction of processes, \<^verbatim>\<open>kernel/include/process.h\<close> and
  \<^verbatim>\<open>kernel/src/process.c\<close>, over the thread table, the frame allocator, the scheduler, the
  derivation tree, the capability nodes and the endpoints. Both operations change objects before
  some of their error returns, so they return the error code with the objects as they leave them.
  The four object pointers tested against \<open>NULL\<close> are one \<open>option\<close>.
\<close>

record process_create_args_t =
  pa_parent_cnode :: u32
  pa_untyped_cptr :: u32
  pa_partition_id :: u32
  pa_budget_us :: u64
  pa_period_us :: u64
  pa_priority :: u8
  pa_pc :: u64
  pa_sp_top :: u64
  pa_stack_size :: u64

record proc_env =
  pv_tcbs :: tcb_table_t
  pv_alloc :: frame_alloc_t
  pv_sched :: sched_state_t
  pv_mdb :: mdb_tree_t

definition thread_free :: "tcb_t \<Rightarrow> bool" where
  "thread_free t \<longleftrightarrow> t_pc t = 0 \<and> t_sp t = 0 \<and> t_cspace t = None"

definition new_thread :: "u32 \<Rightarrow> process_create_args_t \<Rightarrow> cap_t \<Rightarrow> tcb_t" where
  "new_thread tid args stack_cap =
     (let pcc_base = pa_pc args AND NOT 0xFFF;
          csp_base = u_frame_paddr (c_u stack_cap) in
      zero_tcb\<lparr>t_id := tid, t_time_partition := pa_partition_id args, t_priority := ucast (pa_priority args),
        t_pc := pa_pc args, t_sp := pa_sp_top args,
        t_pcc := zero_sim_cap\<lparr>hw_tag := 1, hw_base := pcc_base, hw_top := pcc_base + 0x10000, hw_addr := pa_pc args\<rparr>,
        t_csp := zero_sim_cap\<lparr>hw_tag := 1, hw_base := csp_base, hw_top := csp_base + pa_stack_size args, hw_addr := pa_sp_top args\<rparr>,
        t_state := TCB_INACTIVE\<rparr>)"

text \<open>\<open>None\<close> is a division by zero in the schedulability test.\<close>

definition process_create ::
  "proc_env option \<Rightarrow> process_create_args_t option \<Rightarrow> u32 option \<Rightarrow> (kerror_t \<times> u32 option \<times> proc_env option) option" where
  "process_create ep argsp outp =
     (case (ep, argsp, outp) of
        (Some e, Some args, Some _) \<Rightarrow>
          if pa_partition_id args \<ge> MAX_PARTITIONS then Some (ERR_INVALID_ARG, None, ep)
          else if pa_budget_us args > pa_period_us args \<or> pa_budget_us args = 0 then Some (ERR_INVALID_ARG, None, ep)
          else (case first_index 128 (\<lambda>i. thread_free (tt_threads (pv_tcbs e) i)) of
             None \<Rightarrow> Some (ERR_NO_MEM, None, ep)
           | Some i \<Rightarrow>
               (case alloc_frame (Some (pv_alloc e)) (pa_partition_id args) (pa_stack_size args) (Some zero_cap) of
                  Inl err \<Rightarrow> Some (err, None, ep)
                | Inr (stack_cap, a1) \<Rightarrow>
                    let tid = of_nat i :: u32;
                        failed = (\<lambda>sched. e\<lparr>pv_alloc := a1, pv_sched := sched, pv_tcbs := upd_thread i zero_tcb (pv_tcbs e)\<rparr>) in
                    (case first_index 64 (\<lambda>c. \<not> sc_bound (s_contexts (pv_sched e) c)) of
                       None \<Rightarrow> Some (ERR_NO_MEM, None, Some (failed (pv_sched e)))
                     | Some c \<Rightarrow>
                         (case sched_context_bind (Some (pv_sched e)) (of_nat c) tid (pa_partition_id args) (pa_budget_us args)
                                 (pa_period_us args) (pa_priority args) of
                            Inl err \<Rightarrow> Some (err, None, Some (failed (pv_sched e)))
                          | Inr sched1 \<Rightarrow>
                              (case sched_is_schedulable sched1 of
                                 None \<Rightarrow> None
                               | Some False \<Rightarrow>
                                   Some (ERR_INVALID_ARG, None, Some (failed (sched1\<lparr>s_contexts :=
                                     (s_contexts sched1)(c := (s_contexts sched1 c)\<lparr>sc_bound := False\<rparr>)\<rparr>)))
                               | Some True \<Rightarrow>
                                   let tt1 = upd_thread i ((new_thread tid args stack_cap)\<lparr>t_sched_context := of_nat c\<rparr>) (pv_tcbs e);
                                       mdb1 = (case mdb_insert (Some (pv_mdb e)) 0xFFFF tid stack_cap (Some 0) of
                                                 Inl _ \<Rightarrow> pv_mdb e | Inr (_, m) \<Rightarrow> m) in
                                   Some (ERR_OK, Some tid,
                                     Some (e\<lparr>pv_alloc := a1, pv_sched := sched1, pv_mdb := mdb1,
                                             pv_tcbs := tt1\<lparr>tt_count := tt_count tt1 + 1\<rparr>\<rparr>)))))))
      | _ \<Rightarrow> Some (ERR_INVALID_ARG, None, ep))"

subsection \<open>Endpoint cleanup\<close>

text \<open>The two assignments of the shifting loop for one \<^verbatim>\<open>k\<close>.\<close>

definition shift_entry :: "nat \<Rightarrow> endpoint_t \<Rightarrow> endpoint_t" where
  "shift_entry k ep =
     (let h = unat (ep_q_head ep) in
      ep\<lparr>ep_queue := (ep_queue ep)((h + k) mod 16 := ep_queue ep ((h + k + 1) mod 16)),
         ep_queue_msgs := (ep_queue_msgs ep)((h + k) mod 16 := ep_queue_msgs ep ((h + k + 1) mod 16))\<rparr>)"

definition remove_entry :: "nat \<Rightarrow> endpoint_t \<Rightarrow> endpoint_t" where
  "remove_entry q ep =
     (let ep1 = fold shift_entry [q..<unat (ep_q_len ep) - 1] ep;
          ep2 = ep1\<lparr>ep_q_len := ep_q_len ep1 - 1\<rparr>;
          ep3 = ep2\<lparr>ep_q_tail := of_nat ((unat (ep_q_head ep2) + unat (ep_q_len ep2)) mod 16)\<rparr> in
      if ep_q_len ep3 = 0 then ep3\<lparr>ep_pending := False\<rparr> else ep3)"

lemma shift_fields [simp]:
  "ep_q_head (fold shift_entry ks ep) = ep_q_head ep" "ep_q_len (fold shift_entry ks ep) = ep_q_len ep"
  "ep_has_receiver (fold shift_entry ks ep) = ep_has_receiver ep" "ep_receiver_tcb (fold shift_entry ks ep) = ep_receiver_tcb ep"
  "ep_pending (fold shift_entry ks ep) = ep_pending ep" "ep_pending_msg (fold shift_entry ks ep) = ep_pending_msg ep"
  by (induction ks arbitrary: ep) (simp_all add: shift_entry_def Let_def)

lemma remove_entry_fields [simp]:
  "ep_q_head (remove_entry q ep) = ep_q_head ep" "ep_q_len (remove_entry q ep) = ep_q_len ep - 1"
  "ep_has_receiver (remove_entry q ep) = ep_has_receiver ep" "ep_receiver_tcb (remove_entry q ep) = ep_receiver_tcb ep"
  "ep_q_tail (remove_entry q ep) = of_nat ((unat (ep_q_head ep) + unat (ep_q_len ep - 1)) mod 16)"
  "ep_pending (remove_entry q ep) = (if ep_q_len ep - 1 = 0 then False else ep_pending ep)"
  by (simp_all add: remove_entry_def Let_def)

lemma unat_len_dec: "q < unat (n :: u8) \<Longrightarrow> unat (n - 1) = unat n - 1"
  by (subst unat_minus_one) auto

function cleanup_queue :: "u32 \<Rightarrow> nat \<Rightarrow> endpoint_t \<Rightarrow> endpoint_t" where
  "cleanup_queue tcb_id q ep =
     (if q < unat (ep_q_len ep) then
        if ep_queue ep ((unat (ep_q_head ep) + q) mod 16) = tcb_id then cleanup_queue tcb_id q (remove_entry q ep)
        else cleanup_queue tcb_id (q + 1) ep
      else ep)"
  by pat_completeness auto
termination
  by (relation "measure (\<lambda>(_, q, ep). unat (ep_q_len ep) - q)") (auto simp: unat_len_dec)

declare cleanup_queue.simps [simp del]

definition cleanup_endpoint :: "u32 \<Rightarrow> endpoint_t \<Rightarrow> endpoint_t" where
  "cleanup_endpoint tcb_id ep =
     cleanup_queue tcb_id 0
       (if ep_has_receiver ep \<and> ep_receiver_tcb ep = tcb_id
        then ep\<lparr>ep_has_receiver := False, ep_pending := False, ep_receiver_tcb := 0xFFFFFFFF\<rparr> else ep)"

definition endpoint_cleanup_for_tcb :: "u32 \<Rightarrow> endpoint_t arr \<Rightarrow> endpoint_t arr" where
  "endpoint_cleanup_for_tcb tcb_id eps = (\<lambda>i. if i < 64 then cleanup_endpoint tcb_id (eps i) else eps i)"

subsection \<open>Destruction\<close>

definition clear_cspace :: "cnode_t \<Rightarrow> cnode_t" where
  "clear_cspace cn =
     cn\<lparr>cn_slots := (\<lambda>i. if i < 256 \<and> c_is_valid (cn_slots cn i) \<noteq> 0 then zero_cap else cn_slots cn i), cn_used := 0\<rparr>"

text \<open>Results of the revocation and the deletion are ignored; \<open>None\<close> is a run of them that is undefined.\<close>

definition destroy_mdb :: "mdb_tree_t \<Rightarrow> u32 \<Rightarrow> mdb_tree_t option" where
  "destroy_mdb m tcb_id =
     (let idx = mdb_lookup m 0 tcb_id in
      if idx \<noteq> 0xFFFF then
        Option.bind (mdb_revoke (Some m) idx) (\<lambda>r1.
          let m1 = (case r1 of Inl _ \<Rightarrow> m | Inr m1 \<Rightarrow> m1) in
          Option.bind (mdb_delete (Some m1) idx) (\<lambda>r2.
            Some (case r2 of Inl _ \<Rightarrow> m1 | Inr m2 \<Rightarrow> m2)))
      else Some m)"

definition process_destroy ::
  "proc_env option \<Rightarrow> cnode_heap \<Rightarrow> endpoint_t arr \<Rightarrow> u32 \<Rightarrow>
   (kerror_t + (proc_env \<times> cnode_heap \<times> endpoint_t arr)) option" where
  "process_destroy ep h eps tcb_id =
     (case ep of
        None \<Rightarrow> Some (Inl ERR_INVALID_ARG)
      | Some e \<Rightarrow>
          if tcb_id \<ge> MAX_TCBS then Some (Inl ERR_INVALID_ARG)
          else
            let t = tt_threads (pv_tcbs e) (unat tcb_id) in
            if thread_free t then Some (Inl ERR_INVALID_ARG)
            else
              let eps1 = endpoint_cleanup_for_tcb tcb_id eps;
                  h1 = (case t_cspace t of None \<Rightarrow> h | Some cn \<Rightarrow> h(cn := clear_cspace (h cn))) in
              Option.bind (destroy_mdb (pv_mdb e) tcb_id) (\<lambda>mdb1.
                let sched1 = (if t_sched_context t < 64
                       then (pv_sched e)\<lparr>s_contexts := (s_contexts (pv_sched e))(unat (t_sched_context t) :=
                              (s_contexts (pv_sched e) (unat (t_sched_context t)))\<lparr>sc_bound := False\<rparr>)\<rparr>
                       else pv_sched e);
                    tt1 = upd_thread (unat tcb_id) zero_tcb (pv_tcbs e) in
                Some (Inr (e\<lparr>pv_mdb := mdb1, pv_sched := sched1, pv_tcbs := tt1\<lparr>tt_count := tt_count tt1 - 1\<rparr>\<rparr>, h1, eps1))))"

subsection \<open>The cleanup filters the queue\<close>

lemma shift_slots:
  "q \<le> n \<Longrightarrow> n \<le> 15 \<Longrightarrow> k < 16 \<Longrightarrow>
   ep_slot (fold shift_entry [q..<n] ep) k = (if q \<le> k \<and> k < n then ep_slot ep (Suc k) else ep_slot ep k)"
proof (induction n arbitrary: k)
  case (Suc n)
  show ?case
  proof (cases "q = Suc n")
    case False
    let ?ep = "fold shift_entry [q..<n] ep" and ?h = "unat (ep_q_head ep)"
    have "ep_slot (shift_entry n ?ep) k = (if k = n then ep_slot ?ep (Suc n) else ep_slot ?ep k)"
      using ring_ix_inj[of k n ?h] Suc.prems by (auto simp: shift_entry_def ep_slot_def Let_def)
    moreover have "ep_slot ?ep (Suc n) = ep_slot ep (Suc n)" using Suc.IH[of "Suc n"] Suc.prems False by auto
    ultimately show ?thesis using Suc.IH[of k] Suc.prems False by auto
  qed (use Suc.prems in auto)
qed simp

lemma remove_entry_slots:
  assumes "q < unat (ep_q_len ep)" "unat (ep_q_len ep) \<le> 16" "k < unat (ep_q_len ep) - 1"
  shows "ep_slot (remove_entry q ep) k = (if k < q then ep_slot ep k else ep_slot ep (Suc k))"
proof -
  have "ep_slot (remove_entry q ep) k = ep_slot (fold shift_entry [q..<unat (ep_q_len ep) - 1] ep) k"
    by (simp add: remove_entry_def ep_slot_def Let_def)
  then show ?thesis using assms by (auto simp: shift_slots)
qed

lemma remove_entry_contents:
  assumes "ring_inv ep" "q < unat (ep_q_len ep)"
  shows "ring_inv (remove_entry q ep)"
    "ep_contents (remove_entry q ep) = take q (ep_contents ep) @ drop (Suc q) (ep_contents ep)"
proof -
  have len: "unat (ep_q_len ep - 1) = unat (ep_q_len ep) - 1" using assms(2) by (rule unat_len_dec)
  have "unat (of_nat (x mod 16) :: u8) = x mod 16" for x
    by (simp add: unat_of_nat take_bit_nat_eq_self)
  then show "ring_inv (remove_entry q ep)" using assms len by (auto simp: ring_inv_def)
  show "ep_contents (remove_entry q ep) = take q (ep_contents ep) @ drop (Suc q) (ep_contents ep)"
  proof (rule nth_equalityI)
    show "length (ep_contents (remove_entry q ep)) = length (take q (ep_contents ep) @ drop (Suc q) (ep_contents ep))"
      using assms(2) len by simp
    fix k assume "k < length (ep_contents (remove_entry q ep))"
    then have k: "k < unat (ep_q_len ep) - 1" using len by simp
    then have "ep_contents (remove_entry q ep) ! k = (if k < q then ep_slot ep k else ep_slot ep (Suc k))"
      using remove_entry_slots[OF assms(2) _ k] assms(1) len by (simp add: ep_contents_def ring_inv_def)
    then show "ep_contents (remove_entry q ep) ! k = (take q (ep_contents ep) @ drop (Suc q) (ep_contents ep)) ! k"
      using assms(2) k by (auto simp: nth_append ep_contents_def)
  qed
qed

lemma cleanup_queue_filter:
  "ring_inv ep \<Longrightarrow> q \<le> unat (ep_q_len ep) \<Longrightarrow> ring_inv (cleanup_queue t q ep) \<and>
    ep_contents (cleanup_queue t q ep) = take q (ep_contents ep) @ filter (\<lambda>x. fst x \<noteq> t) (drop q (ep_contents ep))"
proof (induction t q ep rule: cleanup_queue.induct)
  case (1 t q ep)
  let ?c = "ep_contents ep"
  show ?case
  proof (cases "q < unat (ep_q_len ep)")
    case True
    have nth: "?c ! q = ep_slot ep q" using True by (simp add: ep_contents_def)
    have split: "drop q ?c = ?c ! q # drop (Suc q) ?c" using True by (simp add: Cons_nth_drop_Suc)
    show ?thesis
    proof (cases "ep_queue ep ((unat (ep_q_head ep) + q) mod 16) = t")
      case eq: True
      note R = remove_entry_contents[OF "1.prems"(1) True]
      have le: "q \<le> unat (ep_q_len (remove_entry q ep))" using True unat_len_dec[OF True] by simp
      have "fst (?c ! q) = t" using nth eq by (simp add: ep_slot_def)
      then have "take q ?c @ filter (\<lambda>x. fst x \<noteq> t) (drop q ?c) =
          take q (ep_contents (remove_entry q ep)) @ filter (\<lambda>x. fst x \<noteq> t) (drop q (ep_contents (remove_entry q ep)))"
        using R(2) split True by simp
      then show ?thesis using "1.IH"(1)[OF True eq R(1) le] True eq by (simp add: cleanup_queue.simps[of t q ep])
    next
      case ne: False
      have "fst (?c ! q) \<noteq> t" using nth ne by (simp add: ep_slot_def)
      moreover have "take (q + 1) ?c = take q ?c @ [?c ! q]" using True by (simp add: take_Suc_conv_app_nth)
      ultimately have "take q ?c @ filter (\<lambda>x. fst x \<noteq> t) (drop q ?c) = take (q + 1) ?c @ filter (\<lambda>x. fst x \<noteq> t) (drop (q + 1) ?c)"
        using split by simp
      then show ?thesis using "1.IH"(2)[OF True ne "1.prems"(1)] True ne by (simp add: cleanup_queue.simps[of t q ep])
    qed
  next
    case False
    then have "cleanup_queue t q ep = ep" by (simp add: cleanup_queue.simps[of t q ep])
    then show ?thesis using "1.prems" False by simp
  qed
qed

lemma cleanup_queue_receiver [simp]: "ep_has_receiver (cleanup_queue t q ep) = ep_has_receiver ep"
proof (induction t q ep rule: cleanup_queue.induct)
  case (1 t q ep) then show ?case by (simp add: cleanup_queue.simps[of t q ep])
qed

lemma cleanup_queue_receiver_tcb [simp]: "ep_receiver_tcb (cleanup_queue t q ep) = ep_receiver_tcb ep"
proof (induction t q ep rule: cleanup_queue.induct)
  case (1 t q ep) then show ?case by (simp add: cleanup_queue.simps[of t q ep])
qed

lemma cleanup_endpoint_correct:
  assumes "ring_inv ep"
  shows "ring_inv (cleanup_endpoint t ep)" "ep_contents (cleanup_endpoint t ep) = filter (\<lambda>x. fst x \<noteq> t) (ep_contents ep)"
    "ep_has_receiver (cleanup_endpoint t ep) \<Longrightarrow> ep_receiver_tcb (cleanup_endpoint t ep) \<noteq> t"
proof -
  let ?ep = "if ep_has_receiver ep \<and> ep_receiver_tcb ep = t
    then ep\<lparr>ep_has_receiver := False, ep_pending := False, ep_receiver_tcb := 0xFFFFFFFF\<rparr> else ep"
  have "ring_inv ?ep" "ep_contents ?ep = ep_contents ep"
    using assms by (simp_all add: ring_inv_def ep_contents_def ep_slot_def)
  then show "ring_inv (cleanup_endpoint t ep)" "ep_contents (cleanup_endpoint t ep) = filter (\<lambda>x. fst x \<noteq> t) (ep_contents ep)"
    using cleanup_queue_filter[of ?ep 0 t] by (simp_all add: cleanup_endpoint_def)
  show "ep_receiver_tcb (cleanup_endpoint t ep) \<noteq> t" if "ep_has_receiver (cleanup_endpoint t ep)"
    using that by (auto simp: cleanup_endpoint_def split: if_splits)
qed

subsection \<open>Destruction of a process\<close>

lemma mdb_lookup_valid:
  assumes "mdb_lookup m c sl \<noteq> 0xFFFF"
  shows "valid_at m (unat (mdb_lookup m c sl))"
  using assms by (auto simp: mdb_lookup_def first_index_Some_iff split: option.splits)

lemma destroy_mdb_runs:
  assumes "mdb_inv m"
  shows "\<exists>m'. destroy_mdb m t = Some m' \<and> mdb_inv m'"
proof (cases "mdb_lookup m 0 t = 0xFFFF")
  case True
  then show ?thesis using assms by (simp add: destroy_mdb_def)
next
  case False
  let ?i = "mdb_lookup m 0 t"
  have v: "valid_at m (unat ?i)" using mdb_lookup_valid[OF False] .
  obtain m1 where m1: "mdb_revoke (Some m) ?i = Some (Inr m1)" using mdb_revoke_runs[OF assms v] by blast
  note R = mdb_revoke_inv[OF assms v m1]
  have v1: "valid_at m1 (unat ?i)" "mn_first_child (mdb_nodes m1 (unat ?i)) = 0xFFFF" using R(5) v by simp_all
  obtain m2 where m2: "mdb_delete (Some m1) ?i = Some (Inr m2)" "deletes m1 (unat ?i) m2"
    using mdb_delete_runs[OF R(1) v1] by blast
  then show ?thesis using False m1 deletes_inv(1)[OF R(1) v1 m2(2)] by (simp add: destroy_mdb_def Let_def)
qed

lemma process_destroy_runs:
  assumes "mdb_inv (pv_mdb e)" "unat t < 128" "\<not> thread_free (tt_threads (pv_tcbs e) (unat t))"
  shows "\<exists>m'. mdb_inv m' \<and> process_destroy (Some e) h eps t = Some (Inr
    (e\<lparr>pv_mdb := m',
       pv_sched := (let c = t_sched_context (tt_threads (pv_tcbs e) (unat t)) in
          if c < 64 then (pv_sched e)\<lparr>s_contexts := (s_contexts (pv_sched e))(unat c := (s_contexts (pv_sched e) (unat c))\<lparr>sc_bound := False\<rparr>)\<rparr>
          else pv_sched e),
       pv_tcbs := (upd_thread (unat t) zero_tcb (pv_tcbs e))\<lparr>tt_count := tt_count (pv_tcbs e) - 1\<rparr>\<rparr>,
     (case t_cspace (tt_threads (pv_tcbs e) (unat t)) of None \<Rightarrow> h | Some cn \<Rightarrow> h(cn := clear_cspace (h cn))),
     endpoint_cleanup_for_tcb t eps))"
proof -
  obtain m' where "destroy_mdb (pv_mdb e) t = Some m'" "mdb_inv m'" using destroy_mdb_runs[OF assms(1)] by blast
  then show ?thesis using assms(2,3) by (intro exI[of _ m']) (simp add: process_destroy_def word_le_nat_alt Let_def)
qed

subsection \<open>Properties\<close>

text \<open>
  C22 (safety). Destroying a process returns and leaves no trace of the thread: its control block is
  zeroed and no other one is touched, no endpoint has it as queued sender or waiting receiver while
  the other queued messages keep their order, no slot of its capability node is valid, its
  scheduling context is unbound, and the derivation tree keeps its shape.
\<close>

theorem process_destroy_cleans:
  assumes "mdb_inv (pv_mdb e)" "unat t < 128" "\<not> thread_free (tt_threads (pv_tcbs e) (unat t))"
    and "\<forall>i<64. ring_inv (eps i)"
  shows "\<exists>e' h' eps'. process_destroy (Some e) h eps t = Some (Inr (e', h', eps')) \<and> mdb_inv (pv_mdb e') \<and>
    tt_threads (pv_tcbs e') = (tt_threads (pv_tcbs e))(unat t := zero_tcb) \<and>
    (\<forall>i<64. ring_inv (eps' i) \<and> ep_contents (eps' i) = filter (\<lambda>x. fst x \<noteq> t) (ep_contents (eps i)) \<and>
       \<not> (ep_has_receiver (eps' i) \<and> ep_receiver_tcb (eps' i) = t)) \<and>
    (\<forall>cn. t_cspace (tt_threads (pv_tcbs e) (unat t)) = Some cn \<longrightarrow> (\<forall>i<256. c_is_valid (cn_slots (h' cn) i) = 0)) \<and>
    (t_sched_context (tt_threads (pv_tcbs e) (unat t)) < 64 \<longrightarrow>
       \<not> sc_bound (s_contexts (pv_sched e') (unat (t_sched_context (tt_threads (pv_tcbs e) (unat t))))))"
proof -
  obtain m' where m': "mdb_inv m'" and r: "process_destroy (Some e) h eps t = Some (Inr
    (e\<lparr>pv_mdb := m',
       pv_sched := (let c = t_sched_context (tt_threads (pv_tcbs e) (unat t)) in
          if c < 64 then (pv_sched e)\<lparr>s_contexts := (s_contexts (pv_sched e))(unat c := (s_contexts (pv_sched e) (unat c))\<lparr>sc_bound := False\<rparr>)\<rparr>
          else pv_sched e),
       pv_tcbs := (upd_thread (unat t) zero_tcb (pv_tcbs e))\<lparr>tt_count := tt_count (pv_tcbs e) - 1\<rparr>\<rparr>,
     (case t_cspace (tt_threads (pv_tcbs e) (unat t)) of None \<Rightarrow> h | Some cn \<Rightarrow> h(cn := clear_cspace (h cn))),
     endpoint_cleanup_for_tcb t eps))"
    using process_destroy_runs[OF assms(1-3)] by blast
  have "ring_inv (cleanup_endpoint t (eps i)) \<and>
      ep_contents (cleanup_endpoint t (eps i)) = filter (\<lambda>x. fst x \<noteq> t) (ep_contents (eps i)) \<and>
      \<not> (ep_has_receiver (cleanup_endpoint t (eps i)) \<and> ep_receiver_tcb (cleanup_endpoint t (eps i)) = t)" if "i < 64" for i
    using cleanup_endpoint_correct[of "eps i" t] assms(4) that by auto
  then show ?thesis unfolding r using m'
    by (auto simp: Let_def endpoint_cleanup_for_tcb_def clear_cspace_def)
qed

definition demo_proc :: proc_env where
  "demo_proc = \<lparr>pv_tcbs = \<lparr>tt_threads = (\<lambda>_. zero_tcb)(3 := zero_tcb\<lparr>t_pc := 0x1000\<rparr>), tt_count = 1\<rparr>,
     pv_alloc = alloc_init 0x80400000 0x400000, pv_sched = sched_init, pv_mdb = mdb_init\<rparr>"

theorem process_destroy_cleans_witness:
  "\<exists>e' h' eps'. process_destroy (Some demo_proc) (\<lambda>_. zero_cnode) (\<lambda>_. zero_endpoint) 3 = Some (Inr (e', h', eps')) \<and>
     tt_threads (pv_tcbs e') 3 = zero_tcb"
proof -
  have "mdb_inv (pv_mdb demo_proc)" "unat (3 :: u32) < 128" "\<not> thread_free (tt_threads (pv_tcbs demo_proc) (unat (3 :: u32)))"
    "\<forall>i<64. ring_inv zero_endpoint"
    by (simp_all add: demo_proc_def thread_free_def)
  from process_destroy_cleans[OF this, of "\<lambda>_. zero_cnode"] show ?thesis by fastforce
qed

text \<open>
  (error). A failed creation leaves no half-made process: whatever the error, no thread that was
  in use is changed, no scheduling context becomes or stops being bound, the derivation tree and the
  thread count are unchanged, and no thread id is returned.
\<close>

theorem process_create_error_keeps:
  assumes "process_create (Some e) argsp outp = Some (err, out, Some e')" "err \<noteq> ERR_OK"
  shows "out = None \<and> pv_mdb e' = pv_mdb e \<and> tt_count (pv_tcbs e') = tt_count (pv_tcbs e) \<and>
    (\<forall>j. \<not> thread_free (tt_threads (pv_tcbs e) j) \<longrightarrow> tt_threads (pv_tcbs e') j = tt_threads (pv_tcbs e) j) \<and>
    (\<forall>c. sc_bound (s_contexts (pv_sched e') c) = sc_bound (s_contexts (pv_sched e) c))"
proof -
  have "sc_bound (((s_contexts s1)(c := (s_contexts s1 c)\<lparr>sc_bound := False\<rparr>)) d) = sc_bound (s_contexts s d)"
    if "sched_context_bind (Some s) (of_nat c) t p b per pr = Inr s1" "first_index 64 (\<lambda>c. \<not> sc_bound (s_contexts s c)) = Some c"
    for s s1 c t p b per pr d
  proof -
    have "c < 64" "\<not> sc_bound (s_contexts s c)" using that(2) by (auto simp: first_index_Some_iff)
    moreover have "unat (of_nat c :: u32) = c" using calculation(1) by simp
    ultimately show ?thesis using sched_context_bind_InrD(7)[OF that(1)] by auto
  qed
  then show ?thesis using assms
    by (auto simp: process_create_def Let_def first_index_Some_iff[of 128] split: option.splits if_splits sum.splits bool.splits)
qed

text \<open>The witness asks for a partition that was never made active.\<close>

theorem process_create_error_keeps_witness:
  "\<exists>err out e'. process_create (Some demo_proc) (Some \<lparr>pa_parent_cnode = 0, pa_untyped_cptr = 0, pa_partition_id = 9,
       pa_budget_us = 1, pa_period_us = 1, pa_priority = 1, pa_pc = 0x1000, pa_sp_top = 0x2000, pa_stack_size = 4096\<rparr>) (Some 0) =
       Some (err, out, Some e') \<and> err \<noteq> ERR_OK \<and> tt_threads (pv_tcbs e') 3 = tt_threads (pv_tcbs demo_proc) 3"
proof -
  let ?a = "\<lparr>pa_parent_cnode = 0, pa_untyped_cptr = 0, pa_partition_id = 9,
       pa_budget_us = 1, pa_period_us = 1, pa_priority = 1, pa_pc = 0x1000, pa_sp_top = 0x2000, pa_stack_size = 4096\<rparr>"
  have r: "process_create (Some demo_proc) (Some ?a) (Some 0) = Some (ERR_INVALID_ARG, None, Some demo_proc)"
    by (simp add: process_create_def)
  have "\<not> thread_free (tt_threads (pv_tcbs demo_proc) 3)" by (simp add: demo_proc_def thread_free_def)
  then show ?thesis using r process_create_error_keeps[OF r] by blast
qed

text \<open>
  (safety). The node a destruction revokes is not tied to the process: as insertions leave the
  node and slot numbers of every node zero, the lookup for thread 0 answers the first node in use,
  whatever it records.
\<close>

theorem destroy_thread_zero_hits_first_node:
  assumes "\<forall>j<1024. mn_valid (mdb_nodes m j) \<longrightarrow> mn_cnode_id (mdb_nodes m j) = 0 \<and> mn_slot (mdb_nodes m j) = 0"
    and "i < 1024" "mn_valid (mdb_nodes m i)" "\<forall>j<i. \<not> mn_valid (mdb_nodes m j)"
  shows "mdb_lookup m 0 0 = of_nat i"
proof -
  let ?P = "\<lambda>i. mn_valid (mdb_nodes m i) \<and>
         ((mn_cnode_id (mdb_nodes m i) = 0 \<and> mn_slot (mdb_nodes m i) = 0) \<or>
          (mn_cptr (mdb_nodes m i) = 0 \<and> (0::u32) = 0) \<or> mn_cptr (mdb_nodes m i) = (push_bit 8 0 OR 0))"
  have "first_index 1024 ?P = Some i" using assms by (auto simp: first_index_Some_iff)
  then show ?thesis by (simp add: mdb_lookup_def)
qed

theorem destroy_thread_zero_hits_first_node_witness:
  "mdb_lookup \<lparr>mdb_nodes = (mdb_nodes mdb_init)(0 := new_node mdb_init 0xFFFF 77 zero_cap), mdb_count = 1, mdb_free_head = 1\<rparr> 0 0 = of_nat 0"
  by (rule destroy_thread_zero_hits_first_node) (simp_all add: mdb_init_def new_node_def zero_mdb_node_def)

end
