(* ===== verification/Vspace.thy ===== *)
theory Vspace
  imports FrameAlloc
begin

text \<open>
  Sv39 address spaces, \<^verbatim>\<open>kernel/include/vspace.h\<close> and \<^verbatim>\<open>kernel/src/vspace.c\<close> (the
  \<^verbatim>\<open>__riscv\<close> branches): three levels of page tables in physical memory, built from pages of the
  frame allocator. Page-table memory is a function from the address of an entry to its value; a
  \<^verbatim>\<open>pte_t *\<close> is an address, \<open>0\<close> being \<open>NULL\<close>. The allocator object a space points to and the
  static fallback pool are part of the environment that is threaded through; the address the linker
  gives the pool is the argument \<open>pool\<close>. The tables are shown to implement a partial function from
  page numbers to leaf entries.
\<close>

type_synonym pte_t = u64

record vspace_t =
  vs_root :: u64
  vs_asid :: asid_t
  vs_partition_id :: u32
  vs_base :: u64
  vs_length :: u64
  vs_pt_pages_used :: u32
  vs_alloc :: bool
  vs_pt_caps :: "cap_t arr"
  vs_pt_caps_count :: u32

record pt_env =
  pe_mem :: "u64 \<Rightarrow> pte_t"
  pe_alloc :: frame_alloc_t
  pe_fallback_next :: u32

abbreviation (input) PTE_V :: u64 where "PTE_V \<equiv> 1"
abbreviation (input) PTE_R :: u64 where "PTE_R \<equiv> 2"
abbreviation (input) PTE_W :: u64 where "PTE_W \<equiv> 4"
abbreviation (input) PTE_X :: u64 where "PTE_X \<equiv> 8"
abbreviation (input) PTE_U :: u64 where "PTE_U \<equiv> 16"
abbreviation (input) PTE_A :: u64 where "PTE_A \<equiv> 64"
abbreviation (input) PTE_D :: u64 where "PTE_D \<equiv> 128"

definition zero_page :: "u64 \<Rightarrow> (u64 \<Rightarrow> pte_t) \<Rightarrow> u64 \<Rightarrow> pte_t" where
  "zero_page p m = (\<lambda>a. if in_region p 4096 a then 0 else m a)"

definition alloc_pt_page :: "u64 \<Rightarrow> vspace_t \<Rightarrow> pt_env \<Rightarrow> u64 \<times> vspace_t \<times> pt_env" where
  "alloc_pt_page pool vs e =
     (if vs_pt_caps_count vs \<ge> 64 then (0, vs, e)
      else if vs_pt_pages_used vs \<ge> 64 then (0, vs, e)
      else if vs_alloc vs then
        (case alloc_frame (Some (pe_alloc e)) (vs_partition_id vs) PAGE_SIZE (Some zero_cap) of
           Inl _ \<Rightarrow> (0, vs, e)
         | Inr (c, a) \<Rightarrow>
             let p = u_frame_paddr (c_u c) in
             (p, vs\<lparr>vs_pt_caps := (vs_pt_caps vs)(unat (vs_pt_caps_count vs) := c),
                    vs_pt_caps_count := vs_pt_caps_count vs + 1, vs_pt_pages_used := vs_pt_pages_used vs + 1\<rparr>,
              e\<lparr>pe_alloc := a, pe_mem := zero_page p (pe_mem e)\<rparr>))
      else if pe_fallback_next e \<ge> 64 then (0, vs, e)
      else
        let p = pool + ucast (pe_fallback_next e) * PAGE_SIZE;
            e1 = e\<lparr>pe_mem := zero_page p (pe_mem e), pe_fallback_next := pe_fallback_next e + 1\<rparr>;
            vs1 = vs\<lparr>vs_pt_pages_used := vs_pt_pages_used vs + 1\<rparr>;
            color = alloc_color_for_partition (vs_partition_id vs);
            dummy = zero_cap\<lparr>c_type := CAP_FRAME, c_is_valid := 1, c_is_sealed := 1, c_color := color,
                      c_u := set_frame_color color (set_frame_paddr p zero_u),
                      c_hw_cap := zero_sim_cap\<lparr>hw_base := p, hw_top := p + PAGE_SIZE, hw_addr := p, hw_tag := 1, hw_sealed := 1\<rparr>\<rparr> in
        (p, (if vs_pt_caps_count vs1 < 64
             then vs1\<lparr>vs_pt_caps := (vs_pt_caps vs1)(unat (vs_pt_caps_count vs1) := dummy),
                      vs_pt_caps_count := vs_pt_caps_count vs1 + 1\<rparr>
             else vs1), e1))"

definition pte_encode :: "u64 \<Rightarrow> u64 \<Rightarrow> pte_t" where
  "pte_encode ppn flags = push_bit 10 ppn OR flags"

definition pte_ppn :: "pte_t \<Rightarrow> u64" where
  "pte_ppn pte = drop_bit 10 pte"

definition vspace_init_with_alloc ::
  "u64 \<Rightarrow> vspace_t option \<Rightarrow> asid_t \<Rightarrow> u32 \<Rightarrow> bool \<Rightarrow> pt_env \<Rightarrow> kerror_t \<times> vspace_t option \<times> pt_env" where
  "vspace_init_with_alloc pool vsp asid part_id has_alloc e =
     (case vsp of
        None \<Rightarrow> (ERR_INVALID_ARG, None, e)
      | Some _ \<Rightarrow>
          let vs = \<lparr>vs_root = 0, vs_asid = asid, vs_partition_id = part_id, vs_base = 0, vs_length = 0,
                    vs_pt_pages_used = 0, vs_alloc = has_alloc, vs_pt_caps = (\<lambda>_. zero_cap), vs_pt_caps_count = 0\<rparr>;
              (root, vs1, e1) = alloc_pt_page pool vs e;
              vs2 = vs1\<lparr>vs_root := root\<rparr> in
          if vs_root vs2 = 0 then (ERR_NO_MEM, Some vs2, e1) else (ERR_OK, Some vs2, e1))"

definition vspace_init :: "u64 \<Rightarrow> vspace_t option \<Rightarrow> asid_t \<Rightarrow> u32 \<Rightarrow> pt_env \<Rightarrow> kerror_t \<times> vspace_t option \<times> pt_env" where
  "vspace_init pool vsp asid part_id e = vspace_init_with_alloc pool vsp asid part_id False e"

definition vpn2 :: "u64 \<Rightarrow> u64" where "vpn2 va = drop_bit 30 va AND 0x1FF"
definition vpn1 :: "u64 \<Rightarrow> u64" where "vpn1 va = drop_bit 21 va AND 0x1FF"
definition vpn0 :: "u64 \<Rightarrow> u64" where "vpn0 va = drop_bit 12 va AND 0x1FF"

text \<open>The address of an entry of a table, and the table an entry points to.\<close>

definition pte_addr :: "u64 \<Rightarrow> u64 \<Rightarrow> u64" where "pte_addr t i = t + 8 * i"
definition pte_table :: "pte_t \<Rightarrow> u64" where "pte_table pte = push_bit 12 (pte_ppn pte)"

text \<open>One level of the walk in \<^verbatim>\<open>vspace_map\<close>: the table below entry \<open>i\<close> of \<open>t\<close>, made if absent.\<close>

definition next_level :: "u64 \<Rightarrow> vspace_t \<Rightarrow> pt_env \<Rightarrow> u64 \<Rightarrow> u64 \<Rightarrow> kerror_t \<times> vspace_t \<times> pt_env" where
  "next_level pool vs e t i =
     (if pe_mem e (pte_addr t i) AND PTE_V = 0 then
        (case alloc_pt_page pool vs e of
           (n, vs1, e1) \<Rightarrow>
             if n = 0 then (ERR_NO_MEM, vs1, e1)
             else (ERR_OK, vs1, e1\<lparr>pe_mem := (pe_mem e1)(pte_addr t i := pte_encode (drop_bit 12 n) PTE_V)\<rparr>))
      else (ERR_OK, vs, e))"

definition map_page :: "u64 \<Rightarrow> vspace_t \<Rightarrow> pt_env \<Rightarrow> u64 \<Rightarrow> u64 \<Rightarrow> u64 \<Rightarrow> kerror_t \<times> vspace_t \<times> pt_env" where
  "map_page pool vs e va pa flags =
     (case next_level pool vs e (vs_root vs) (vpn2 va) of
        (err, vs1, e1) \<Rightarrow>
          if err \<noteq> ERR_OK then (err, vs1, e1)
          else let l1 = pte_table (pe_mem e1 (pte_addr (vs_root vs) (vpn2 va))) in
            (case next_level pool vs1 e1 l1 (vpn1 va) of
               (err, vs2, e2) \<Rightarrow>
                 if err \<noteq> ERR_OK then (err, vs2, e2)
                 else let l0 = pte_table (pe_mem e2 (pte_addr l1 (vpn1 va))) in
                   if pe_mem e2 (pte_addr l0 (vpn0 va)) AND PTE_V \<noteq> 0 then (ERR_INVALID_ARG, vs2, e2)
                   else (ERR_OK, vs2, e2\<lparr>pe_mem := (pe_mem e2)(pte_addr l0 (vpn0 va) := pte_encode (drop_bit 12 pa) flags)\<rparr>)))"

fun map_loop :: "u64 \<Rightarrow> vspace_t \<Rightarrow> pt_env \<Rightarrow> u64 \<Rightarrow> u64 \<Rightarrow> u64 \<Rightarrow> u64 list \<Rightarrow> kerror_t \<times> vspace_t \<times> pt_env" where
  "map_loop pool vs e vaddr paddr flags [] = (ERR_OK, vs, e)"
| "map_loop pool vs e vaddr paddr flags (off # offs) =
     (case map_page pool vs e (vaddr + off) (paddr + off) flags of
        (err, vs1, e1) \<Rightarrow> if err \<noteq> ERR_OK then (err, vs1, e1) else map_loop pool vs1 e1 vaddr paddr flags offs)"

text \<open>The values of \<^verbatim>\<open>off\<close>: the multiples of the page size below the size, itself such a multiple.\<close>

definition page_offsets :: "u64 \<Rightarrow> u64 list" where
  "page_offsets sz = map (\<lambda>k. of_nat k * PAGE_SIZE) [0..<unat sz div 4096]"

definition map_flags :: "vspace_t \<Rightarrow> u8 \<Rightarrow> u64" where
  "map_flags vs perms =
     (let flags = PTE_V OR PTE_A OR PTE_D;
          flags = (if perms AND 1 \<noteq> 0 then flags OR PTE_R else flags);
          flags = (if perms AND 2 \<noteq> 0 then flags OR PTE_W else flags);
          flags = (if perms AND 4 \<noteq> 0 then flags OR PTE_X else flags);
          is_kernel = (vs_partition_id vs = 0 \<and> perms AND 4 \<noteq> 0) in
      if \<not> is_kernel \<and> vs_partition_id vs \<noteq> 0 then flags OR PTE_U else flags)"

definition vspace_map ::
  "u64 \<Rightarrow> vspace_t option \<Rightarrow> pt_env \<Rightarrow> u64 \<Rightarrow> u64 \<Rightarrow> u64 \<Rightarrow> u8 \<Rightarrow> u16 \<Rightarrow> kerror_t \<times> vspace_t option \<times> pt_env" where
  "vspace_map pool vsp e vaddr paddr sz perms color =
     (case vsp of
        None \<Rightarrow> (ERR_INVALID_ARG, None, e)
      | Some vs \<Rightarrow>
          if vs_root vs = 0 then (ERR_INVALID_ARG, Some vs, e)
          else if vaddr mod PAGE_SIZE \<noteq> 0 \<or> paddr mod PAGE_SIZE \<noteq> 0 \<or> sz mod PAGE_SIZE \<noteq> 0 then (ERR_INVALID_ARG, Some vs, e)
          else if color mod 2 \<noteq> 0 then (ERR_INVALID_ARG, Some vs, e)
          else if (ucast (drop_bit 12 vaddr mod 16) :: u16) \<noteq> color \<and> color \<noteq> 0 then (ERR_PARTITION_DENIED, Some vs, e)
          else (case map_loop pool vs e vaddr paddr (map_flags vs perms) (page_offsets sz) of
                  (err, vs1, e1) \<Rightarrow> (err, Some vs1, e1)))"

definition unmap_page :: "vspace_t \<Rightarrow> pt_env \<Rightarrow> u64 \<Rightarrow> pt_env" where
  "unmap_page vs e va =
     (let l2e = pe_mem e (pte_addr (vs_root vs) (vpn2 va)) in
      if l2e AND PTE_V = 0 then e
      else let l1 = pte_table l2e; l1e = pe_mem e (pte_addr l1 (vpn1 va)) in
        if l1e AND PTE_V = 0 then e
        else let l0 = pte_table l1e in e\<lparr>pe_mem := (pe_mem e)(pte_addr l0 (vpn0 va) := 0)\<rparr>)"

definition vspace_unmap :: "vspace_t option \<Rightarrow> pt_env \<Rightarrow> u64 \<Rightarrow> u64 \<Rightarrow> kerror_t \<times> pt_env" where
  "vspace_unmap vsp e vaddr sz =
     (case vsp of
        None \<Rightarrow> (ERR_INVALID_ARG, e)
      | Some vs \<Rightarrow>
          if vs_root vs = 0 then (ERR_INVALID_ARG, e)
          else if vaddr mod PAGE_SIZE \<noteq> 0 \<or> sz mod PAGE_SIZE \<noteq> 0 then (ERR_INVALID_ARG, e)
          else (ERR_OK, foldl (\<lambda>e off. unmap_page vs e (vaddr + off)) e (page_offsets sz)))"

text \<open>\<open>None\<close> is the result \<open>false\<close>; \<open>Some p\<close> is \<open>true\<close> with \<open>p\<close> stored through the pointer.\<close>

definition vspace_resolve :: "vspace_t option \<Rightarrow> pt_env \<Rightarrow> u64 \<Rightarrow> u64 option \<Rightarrow> u64 option" where
  "vspace_resolve vsp e vaddr outp =
     (case (vsp, outp) of
        (Some vs, Some _) \<Rightarrow>
          if vs_root vs = 0 then None
          else let l2e = pe_mem e (pte_addr (vs_root vs) (vpn2 vaddr)) in
            if l2e AND PTE_V = 0 then None
            else let l1e = pe_mem e (pte_addr (pte_table l2e) (vpn1 vaddr)) in
              if l1e AND PTE_V = 0 then None
              else let l0e = pe_mem e (pte_addr (pte_table l1e) (vpn0 vaddr)) in
                if l0e AND PTE_V = 0 then None
                else Some (push_bit 12 (pte_ppn l0e) OR (vaddr AND 0xFFF))
      | _ \<Rightarrow> None)"

text \<open>The value written to the \<^verbatim>\<open>satp\<close> register.\<close>

definition vspace_switch :: "vspace_t option \<Rightarrow> u64" where
  "vspace_switch vsp =
     (case vsp of
        None \<Rightarrow> 0
      | Some vs \<Rightarrow>
          if vs_root vs = 0 then 0
          else push_bit 60 8 OR push_bit 44 (ucast (vs_asid vs)) OR drop_bit 12 (vs_root vs))"

subsection \<open>Pages and entries\<close>

definition aligned :: "u64 \<Rightarrow> bool" where "aligned p \<longleftrightarrow> unat p mod 4096 = 0"

lemma alignedE: "aligned p \<Longrightarrow> (\<And>q. unat p = 4096 * q \<Longrightarrow> thesis) \<Longrightarrow> thesis"
  by (auto simp: aligned_def mod_eq_0_iff_dvd elim: dvdE)

lemma aligned_room: "aligned p \<Longrightarrow> unat p + 4096 \<le> 2 ^ 64"
proof -
  assume "aligned p"
  then obtain q where q: "unat p = 4096 * q" by (auto simp: aligned_def)
  then have "q < 2 ^ 52" using unat_less_2p64[of p] by simp
  then show ?thesis using q by simp
qed

lemma unat_pte_addr:
  assumes "aligned t" "unat i < 512"
  shows "unat (pte_addr t i) = unat t + 8 * unat i"
proof -
  have "unat (8 * i) = 8 * unat i" using assms(2) by (subst unat_mult_lem[THEN iffD1]) simp_all
  then show ?thesis using assms(2) aligned_room[OF assms(1)]
    unfolding pte_addr_def by (subst unat_add_lem[THEN iffD1]) simp_all
qed

lemma pte_addr_inj:
  assumes "aligned t" "aligned t'" "unat i < 512" "unat j < 512"
  shows "pte_addr t i = pte_addr t' j \<longleftrightarrow> t = t' \<and> i = j"
proof
  assume "pte_addr t i = pte_addr t' j"
  then have e: "unat t + 8 * unat i = unat t' + 8 * unat j" using assms unat_pte_addr by metis
  obtain q q' where q: "unat t = 4096 * q" "unat t' = 4096 * q'" using assms(1,2) by (meson alignedE)
  have "q = (4096 * q + 8 * unat i) div 4096" "q' = (4096 * q' + 8 * unat j) div 4096" using assms(3,4) by simp_all
  then have "q = q'" using e q by simp
  then show "t = t' \<and> i = j" using e q by (auto simp: word_unat_eq_iff)
qed simp

lemma page_of_entry:
  assumes "aligned t" "aligned p" "unat i < 512"
  shows "in_region p 4096 (pte_addr t i) \<longleftrightarrow> t = p"
proof -
  have r: "in_region p 4096 a \<longleftrightarrow> unat p \<le> unat a \<and> unat a < unat p + 4096" for a
    by (rule in_region_nowrap) (rule aligned_room[OF assms(2)])
  obtain q q' where q: "unat t = 4096 * q" "unat p = 4096 * q'" using assms(1,2) by (meson alignedE)
  have "4096 * q' \<le> 4096 * q + 8 * unat i \<and> 4096 * q + 8 * unat i < 4096 * q' + 4096 \<longleftrightarrow> q = q'"
    using assms(3) by auto
  then show ?thesis unfolding r unat_pte_addr[OF assms(1,3)] using q by (auto simp: word_unat_eq_iff)
qed

lemma aligned_bits: "aligned p \<longleftrightarrow> (\<forall>k<12. \<not> bit p k)"
proof -
  have "unat (take_bit 12 p) = unat p mod 4096" unfolding unsigned_take_bit_eq by (simp add: take_bit_eq_mod)
  then have "aligned p \<longleftrightarrow> take_bit 12 p = 0" by (metis aligned_def unat_eq_0)
  also have "\<dots> \<longleftrightarrow> (\<forall>k<12. \<not> bit p k)" by (auto simp: bit_eq_iff bit_simps dest: bit_imp_le_length)
  finally show ?thesis .
qed

lemma aligned_pte_table [simp]: "aligned (pte_table x)"
  by (simp add: aligned_bits pte_table_def bit_simps)

text \<open>Encoding a page and flags in an entry loses nothing: ten bits of flags leave 54 for the page.\<close>

lemma pte_table_encode:
  assumes "\<forall>k\<ge>10. \<not> bit f k"
  shows "pte_table (pte_encode (drop_bit 12 n) f) = push_bit 12 (drop_bit 12 n)"
  using assms by (intro bit_word_eqI) (auto simp: pte_table_def pte_ppn_def pte_encode_def bit_simps dest: bit_imp_le_length)

lemma aligned_push_drop:
  assumes "aligned n"
  shows "push_bit 12 (drop_bit 12 n) = n"
proof -
  have "12 \<le> k" if "bit n k" for k using assms that by (meson aligned_bits not_le)
  then show ?thesis by (intro bit_word_eqI) (auto simp: bit_simps)
qed

lemma and_one_bit: "(x :: u64) AND 1 = 0 \<longleftrightarrow> \<not> bit x 0"
  using and_exp_eq_0_iff_not_bit[of x 0] by simp

lemma pte_encode_valid: "pte_encode ppn f AND 1 = 0 \<longleftrightarrow> \<not> bit f 0"
  by (simp add: and_one_bit pte_encode_def bit_simps)

subsection \<open>The tree of tables\<close>

datatype pt_label = Root | L1 u64 | L0 u64 u64

definition entry_page :: "(u64 \<Rightarrow> pte_t) \<Rightarrow> u64 \<Rightarrow> u64 \<Rightarrow> u64 option" where
  "entry_page m t i =
     (if unat i < 512 \<and> m (pte_addr t i) AND 1 \<noteq> 0 then Some (pte_table (m (pte_addr t i))) else None)"

fun page_at :: "(u64 \<Rightarrow> pte_t) \<Rightarrow> u64 \<Rightarrow> pt_label \<Rightarrow> u64 option" where
  "page_at m r Root = Some r"
| "page_at m r (L1 i) = entry_page m r i"
| "page_at m r (L0 i j) = Option.bind (entry_page m r i) (\<lambda>t. entry_page m t j)"

definition pt_wf :: "(u64 \<Rightarrow> pte_t) \<Rightarrow> u64 \<Rightarrow> nat \<Rightarrow> bool" where
  "pt_wf m r bound \<longleftrightarrow> aligned r \<and>
     (\<forall>l p. page_at m r l = Some p \<longrightarrow> unat p + 4096 \<le> bound) \<and>
     (\<forall>l l' p. page_at m r l = Some p \<longrightarrow> page_at m r l' = Some p \<longrightarrow> l = l')"

text \<open>The abstract address space: the leaf entry of every mapped page.\<close>

definition pt_lookup :: "(u64 \<Rightarrow> pte_t) \<Rightarrow> u64 \<Rightarrow> u64 \<times> u64 \<times> u64 \<rightharpoonup> pte_t" where
  "pt_lookup m r v = (case v of (i, j, k) \<Rightarrow>
     (case page_at m r (L0 i j) of
        None \<Rightarrow> None
      | Some t \<Rightarrow> if unat k < 512 \<and> m (pte_addr t k) AND 1 \<noteq> 0 then Some (m (pte_addr t k)) else None))"

lemma entry_page_aligned: "entry_page m t i = Some p \<Longrightarrow> aligned p"
  by (auto simp: entry_page_def split: if_splits)

lemma page_at_aligned: "aligned r \<Longrightarrow> page_at m r l = Some p \<Longrightarrow> aligned p"
  by (cases l) (auto simp: Option.bind_eq_Some_conv intro: entry_page_aligned)

lemma entry_page_cong: "(unat i < 512 \<Longrightarrow> m' (pte_addr t i) = m (pte_addr t i)) \<Longrightarrow> entry_page m' t i = entry_page m t i"
  by (auto simp: entry_page_def)

lemma pages_same:
  assumes "\<And>l p i. page_at m r l = Some p \<Longrightarrow> unat i < 512 \<Longrightarrow> m' (pte_addr p i) = m (pte_addr p i)"
  shows "page_at m' r = page_at m r" "pt_lookup m' r = pt_lookup m r"
proof -
  have l1: "entry_page m' r i = entry_page m r i" for i by (rule entry_page_cong) (rule assms[of Root], simp)
  have l0: "entry_page m' t j = entry_page m t j" if "entry_page m r i = Some t" for t i j
    by (rule entry_page_cong) (rule assms[of "L1 i"], simp add: that)
  show pages: "page_at m' r = page_at m r"
  proof
    fix l show "page_at m' r l = page_at m r l"
      by (cases l) (auto simp: l1 l0 intro!: Option.bind_cong)
  qed
  show "pt_lookup m' r = pt_lookup m r"
  proof
    fix v :: "u64 \<times> u64 \<times> u64"
    obtain i j k where v: "v = (i, j, k)" by (cases v) auto
    show "pt_lookup m' r v = pt_lookup m r v"
      unfolding v pt_lookup_def prod.case pages
      using assms[of "L0 i j" _ k] by (cases "page_at m r (L0 i j)"; cases "unat k < 512") (simp_all del: page_at.simps)
  qed
qed

lemma zero_page_same:
  assumes "pt_wf m r b" "aligned n" "b \<le> unat n"
  shows "page_at (zero_page n m) r = page_at m r" "pt_lookup (zero_page n m) r = pt_lookup m r"
proof -
  have "zero_page n m (pte_addr p i) = m (pte_addr p i)" if "page_at m r l = Some p" "unat i < 512" for l p i
  proof -
    have "aligned p" "unat p + 4096 \<le> b" using that assms(1) page_at_aligned by (auto simp: pt_wf_def)
    then show ?thesis using assms that page_of_entry[of p n i] by (auto simp: zero_page_def)
  qed
  then show "page_at (zero_page n m) r = page_at m r" "pt_lookup (zero_page n m) r = pt_lookup m r"
    using pages_same by blast+
qed

text \<open>Writing an entry of one table leaves the entries of the others alone.\<close>

lemma other_entry:
  assumes "aligned t" "aligned p" "unat i < 512" "unat k < 512" "p \<noteq> t \<or> k \<noteq> i"
  shows "(m(pte_addr t i := x)) (pte_addr p k) = m (pte_addr p k)"
  using assms pte_addr_inj[of p t k i] by auto

lemma entry_page_other:
  assumes "aligned t" "aligned p" "unat i < 512" "p \<noteq> t \<or> k \<noteq> i"
  shows "entry_page (m(pte_addr t i := x)) p k = entry_page m p k"
proof (rule entry_page_cong)
  assume "unat k < 512"
  then show "(m(pte_addr t i := x)) (pte_addr p k) = m (pte_addr p k)" by (rule other_entry[OF assms(1-3) _ assms(4)])
qed

lemma entry_page_link:
  assumes "aligned n" "unat i < 512"
  shows "entry_page (m(pte_addr t i := pte_encode (drop_bit 12 n) 1)) t i = Some n"
proof -
  have "\<forall>k\<ge>10. \<not> bit (1 :: u64) k" by (simp add: bit_1_iff)
  then show ?thesis using assms by (simp add: entry_page_def pte_encode_valid pte_table_encode aligned_push_drop)
qed

definition fresh_page :: "(u64 \<Rightarrow> pte_t) \<Rightarrow> nat \<Rightarrow> u64 \<Rightarrow> bool" where
  "fresh_page m b n \<longleftrightarrow> aligned n \<and> b \<le> unat n \<and> (\<forall>k. unat k < 512 \<longrightarrow> m (pte_addr n k) = 0)"

lemma fresh_no_pages: "fresh_page m b n \<Longrightarrow> entry_page m n k = None"
  by (simp add: fresh_page_def entry_page_def)

lemma pt_wf_pageD:
  assumes "pt_wf m r b" "page_at m r l = Some p"
  shows "aligned p" "unat p + 4096 \<le> b" "page_at m r l' = Some p \<Longrightarrow> l' = l"
  using assms page_at_aligned unfolding pt_wf_def by blast+

lemma pt_wf_distinct:
  assumes "pt_wf m r b"
  shows "aligned r" "entry_page m r i = Some t \<Longrightarrow> t \<noteq> r \<and> aligned t \<and> unat t + 4096 \<le> b"
    "entry_page m r i = Some t \<Longrightarrow> entry_page m t j = Some p \<Longrightarrow> p \<noteq> r \<and> aligned p \<and> unat p + 4096 \<le> b"
    "entry_page m r i = Some t \<Longrightarrow> entry_page m r i' = Some t \<Longrightarrow> i' = i"
    "entry_page m r i = Some t \<Longrightarrow> entry_page m t j = Some p \<Longrightarrow> entry_page m r i' \<noteq> Some p"
proof -
  note d = pt_wf_pageD[OF assms]
  show "aligned r" using assms by (simp add: pt_wf_def)
  show "t \<noteq> r \<and> aligned t \<and> unat t + 4096 \<le> b" if "entry_page m r i = Some t"
    using that d(1,2)[of "L1 i" t] d(3)[of "L1 i" t Root] by auto
  show "p \<noteq> r \<and> aligned p \<and> unat p + 4096 \<le> b" if "entry_page m r i = Some t" "entry_page m t j = Some p"
    using that d(1,2)[of "L0 i j" p] d(3)[of "L0 i j" p Root] by auto
  show "i' = i" if "entry_page m r i = Some t" "entry_page m r i' = Some t"
    using that d(3)[of "L1 i" t "L1 i'"] by auto
  show "entry_page m r i' \<noteq> Some p" if "entry_page m r i = Some t" "entry_page m t j = Some p"
    using that d(3)[of "L0 i j" p "L1 i'"] by auto
qed

lemma wf_extend:
  assumes "pt_wf m r b" "page_at m' r = (page_at m r)(l \<mapsto> n)" "b \<le> unat n"
  shows "pt_wf m' r (unat n + 4096)"
proof -
  have "unat p + 4096 \<le> unat n + 4096" if "((page_at m r)(l \<mapsto> n)) l' = Some p" for l' p
    using that assms(3) pt_wf_pageD(2)[OF assms(1)] by (fastforce split: if_splits)
  moreover have "l1 = l2" if "((page_at m r)(l \<mapsto> n)) l1 = Some p" "((page_at m r)(l \<mapsto> n)) l2 = Some p" for l1 l2 p
    using that assms(3) pt_wf_pageD(2,3)[OF assms(1)] by (fastforce split: if_splits)
  ultimately show ?thesis using assms(1,2) unfolding pt_wf_def by metis
qed

lemma link_root:
  assumes wf: "pt_wf m r b" and n: "fresh_page m b n" and i: "unat i < 512" "m (pte_addr r i) AND 1 = 0"
  defines "m' \<equiv> m(pte_addr r i := pte_encode (drop_bit 12 n) 1)"
  shows "page_at m' r = (page_at m r)(L1 i \<mapsto> n)"
proof
  note d = pt_wf_distinct[OF wf]
  have nr: "n \<noteq> r" "aligned n" using n pt_wf_pageD(2)[OF wf, of Root r] by (auto simp: fresh_page_def)
  have root: "entry_page m' r k = (if k = i then Some n else entry_page m r k)" for k
    using entry_page_link[OF nr(2) i(1)] entry_page_other[OF d(1) d(1) i(1)] by (auto simp: m'_def)
  have sub: "entry_page m' t j = entry_page m t j" if "t \<noteq> r" "aligned t" for t j
    unfolding m'_def using entry_page_other[OF d(1) that(2) i(1)] that(1) by simp
  have none: "entry_page m r i = None" using i(2) by (simp add: entry_page_def)
  fix l show "page_at m' r l = ((page_at m r)(L1 i \<mapsto> n)) l"
  proof (cases l)
    case (L0 a j)
    show ?thesis
    proof (cases "a = i")
      case True
      then show ?thesis using L0 root none nr sub[of n j] fresh_no_pages[OF n] by simp
    next
      case False
      then show ?thesis using L0 root sub d(2) by (cases "entry_page m r a") auto
    qed
  qed (use root in simp_all)
qed

lemma link_l1:
  assumes wf: "pt_wf m r b" and n: "aligned n" and t: "entry_page m r a = Some t"
    and i: "unat i < 512" "m (pte_addr t i) AND 1 = 0"
  defines "m' \<equiv> m(pte_addr t i := pte_encode (drop_bit 12 n) 1)"
  shows "page_at m' r = (page_at m r)(L0 a i \<mapsto> n)"
proof
  note d = pt_wf_distinct[OF wf]
  have root: "entry_page m' r k = entry_page m r k" for k
    unfolding m'_def using entry_page_other[of t r i] d(1) d(2)[OF t] i(1) by metis
  have sub: "entry_page m' p j = (if p = t \<and> j = i then Some n else entry_page m p j)" if "aligned p" for p j
    using entry_page_link[OF n i(1)] entry_page_other[of t p i j] d(2)[OF t] that i(1) by (auto simp: m'_def)
  fix l show "page_at m' r l = ((page_at m r)(L0 a i \<mapsto> n)) l"
  proof (cases l)
    case (L0 c j)
    show ?thesis
    proof (cases "entry_page m r c")
      case (Some p)
      have "p = t \<longleftrightarrow> c = a" using Some t d(4)[OF t, of c] by auto
      then show ?thesis using L0 root Some sub[of p j] d(2)[OF Some] by simp
    qed (use L0 root t in auto)
  qed (use root in simp_all)
qed

text \<open>Leaf entries after a new table is linked in, and after a leaf entry is written.\<close>

lemma lookup_link:
  assumes wf: "pt_wf m r b" and n: "fresh_page m b n" and t: "page_at m r l = Some t" "\<forall>i j. l \<noteq> L0 i j"
    and i: "unat i < 512" and new: "page_at m r l' = None"
    and pages: "page_at (m(pte_addr t i := x)) r = (page_at m r)(l' \<mapsto> n)"
  shows "pt_lookup (m(pte_addr t i := x)) r = pt_lookup m r"
proof
  fix v :: "u64 \<times> u64 \<times> u64"
  obtain a c k where v: "v = (a, c, k)" by (cases v) auto
  have at: "aligned t" and tn: "t \<noteq> n" using pt_wf_pageD(1,2)[OF wf t(1)] n by (auto simp: fresh_page_def)
  show "pt_lookup (m(pte_addr t i := x)) r v = pt_lookup m r v"
  proof (cases "L0 a c = l'")
    case True
    have "(m(pte_addr t i := x)) (pte_addr n k) = 0" if "unat k < 512"
      using that other_entry[OF at _ i that, of n] tn n by (auto simp: fresh_page_def)
    then show ?thesis using True pages new by (auto simp: v pt_lookup_def simp del: page_at.simps)
  next
    case False
    show ?thesis
    proof (cases "page_at m r (L0 a c)")
      case (Some p)
      then have pt: "p \<noteq> t" "aligned p" using pt_wf_pageD[OF wf Some] t by auto
      have "(m(pte_addr t i := x)) (pte_addr p k) = m (pte_addr p k)" if "unat k < 512"
        by (rule other_entry[OF at pt(2) i that disjI1[OF pt(1)]])
      then show ?thesis using False pages Some by (auto simp: v pt_lookup_def simp del: page_at.simps)
    qed (use False pages in \<open>simp add: v pt_lookup_def del: page_at.simps\<close>)
  qed
qed

lemma leaf_write:
  assumes wf: "pt_wf m r b" and t: "page_at m r (L0 a c) = Some t" and k: "unat k < 512"
  shows "page_at (m(pte_addr t k := x)) r = page_at m r"
    "pt_lookup (m(pte_addr t k := x)) r = (pt_lookup m r)((a, c, k) := if x AND 1 = 0 then None else Some x)"
proof -
  note d = pt_wf_distinct[OF wf]
  obtain t1 where t1: "entry_page m r a = Some t1" "entry_page m t1 c = Some t"
    using t by (auto simp: Option.bind_eq_Some_conv)
  have at: "aligned t" "t \<noteq> r" using d(3)[OF t1] by auto
  have root: "entry_page (m(pte_addr t k := x)) r i = entry_page m r i" for i
    using entry_page_other[of t r k i m x] at d(1) k by metis
  have sub: "entry_page (m(pte_addr t k := x)) p j = entry_page m p j" if "entry_page m r i = Some p" for p i j
    using entry_page_other[of t p k j m x] at k d(2)[OF that] d(5)[OF t1, of i] that by metis
  show pages: "page_at (m(pte_addr t k := x)) r = page_at m r"
  proof
    fix l show "page_at (m(pte_addr t k := x)) r l = page_at m r l"
      by (cases l) (auto simp: root sub intro!: Option.bind_cong)
  qed
  show "pt_lookup (m(pte_addr t k := x)) r = (pt_lookup m r)((a, c, k) := if x AND 1 = 0 then None else Some x)"
  proof
    fix v :: "u64 \<times> u64 \<times> u64"
    obtain a' c' k' where v: "v = (a', c', k')" by (cases v) auto
    show "pt_lookup (m(pte_addr t k := x)) r v = ((pt_lookup m r)((a, c, k) := if x AND 1 = 0 then None else Some x)) v"
    proof (cases "page_at m r (L0 a' c')")
      case None
      then have "(a', c', k') \<noteq> (a, c, k)" using t by auto
      then show ?thesis using None pages by (simp add: v pt_lookup_def del: page_at.simps)
    next
      case (Some p)
      have pt: "p = t \<longleftrightarrow> (a', c') = (a, c)" using pt_wf_pageD(3)[OF wf Some, of "L0 a c"] t Some by auto
      have "(m(pte_addr t k := x)) (pte_addr p k') = m (pte_addr p k')" if "unat k' < 512" "p \<noteq> t \<or> k' \<noteq> k"
        using other_entry[OF at(1) pt_wf_pageD(1)[OF wf Some] k that] .
      then show ?thesis using Some pages pt k
        by (cases "(a', c', k') = (a, c, k)"; cases "unat k' < 512") (auto simp: v pt_lookup_def simp del: page_at.simps)
    qed
  qed
qed

subsection \<open>Address spaces backed by the allocator\<close>

definition alloc_ok :: "frame_alloc_t \<Rightarrow> bool" where
  "alloc_ok a \<longleftrightarrow> alloc_inv a \<and> aligned (fa_next a) \<and> 0 < unat (fa_next a) \<and> unat (fa_top a) + 65536 + 4096 < 2 ^ 64"

definition space_ok :: "vspace_t \<Rightarrow> pt_env \<Rightarrow> bool" where
  "space_ok vs e \<longleftrightarrow> vs_alloc vs \<and> vs_root vs \<noteq> 0 \<and> alloc_ok (pe_alloc e) \<and>
     pt_wf (pe_mem e) (vs_root vs) (unat (fa_next (pe_alloc e)))"

definition vs_lookup :: "vspace_t \<Rightarrow> pt_env \<Rightarrow> u64 \<times> u64 \<times> u64 \<rightharpoonup> pte_t" where
  "vs_lookup vs e = pt_lookup (pe_mem e) (vs_root vs)"

definition vpn :: "u64 \<Rightarrow> u64 \<times> u64 \<times> u64" where
  "vpn va = (vpn2 va, vpn1 va, vpn0 va)"

lemma and_1ff_less: "unat (x AND 0x1FF :: u64) < 512"
proof -
  have "x AND 0x1FF = take_bit 9 x" by (simp add: take_bit_eq_mask mask_eq_exp_minus_1)
  then show ?thesis by (simp add: unsigned_take_bit_eq take_bit_nat_less_exp[of 9, simplified])
qed

lemma vpn_less [simp]: "unat (vpn2 va) < 512" "unat (vpn1 va) < 512" "unat (vpn0 va) < 512"
  by (simp_all add: vpn2_def vpn1_def vpn0_def and_1ff_less)

definition same_space :: "vspace_t \<Rightarrow> vspace_t \<Rightarrow> bool" where
  "same_space vs vs' \<longleftrightarrow> vs_root vs' = vs_root vs \<and> vs_alloc vs' = vs_alloc vs \<and> vs_partition_id vs' = vs_partition_id vs \<and>
     vs_asid vs' = vs_asid vs"

lemma same_space_refl [simp]: "same_space vs vs"
  by (simp add: same_space_def)

lemma same_space_trans: "same_space a b \<Longrightarrow> same_space b c \<Longrightarrow> same_space a c"
  by (simp add: same_space_def)

lemma alloc_frame_page:
  assumes "alloc_ok a" "alloc_frame (Some a) part 4096 (Some oc) = Inr (c, a')"
  shows "alloc_ok a'" "aligned (u_frame_paddr (c_u c))" "unat (fa_next a) \<le> unat (u_frame_paddr (c_u c))"
    "unat (fa_next a') = unat (u_frame_paddr (c_u c)) + 4096"
proof -
  note D = alloc_frame_InrD[OF assms(2)]
  have req: "request_ok a (part, 4096)" "alloc_inv a" using assms(1) by (simp_all add: alloc_ok_def request_ok_def)
  note B = alloc_frame_bounds[OF assms(2) req(2,1)]
  have lo: "frame_lo c = unat (u_frame_paddr (c_u c))" using D(7,10) by (simp add: frame_lo_def)
  obtain q where q: "unat (fa_next a) = 4096 * q" using assms(1) alignedE unfolding alloc_ok_def by metis
  have p: "unat (u_frame_paddr (c_u c)) = 4096 * (q + skip_pages (alloc_color_for_partition part) (fa_next a))"
    using B(2) lo q by (simp add: algebra_simps)
  then show al: "aligned (u_frame_paddr (c_u c))" by (simp add: aligned_def)
  show "unat (fa_next a) \<le> unat (u_frame_paddr (c_u c))" using B(1) lo by simp
  show nx: "unat (fa_next a') = unat (u_frame_paddr (c_u c)) + 4096" using B(3,4) lo by simp
  show "alloc_ok a'" using B(6) nx p D(14) assms(1) by (simp add: alloc_ok_def aligned_def)
qed

lemma alloc_pt_page_spec:
  assumes "vs_alloc vs" "alloc_ok (pe_alloc e)" "alloc_pt_page pool vs e = (n, vs1, e1)"
  shows "if n = 0 then vs1 = vs \<and> e1 = e
    else same_space vs vs1 \<and> alloc_ok (pe_alloc e1) \<and> aligned n \<and> unat (fa_next (pe_alloc e)) \<le> unat n \<and>
      unat (fa_next (pe_alloc e1)) = unat n + 4096 \<and> pe_mem e1 = zero_page n (pe_mem e)"
proof (cases "alloc_frame (Some (pe_alloc e)) (vs_partition_id vs) 4096 (Some zero_cap)")
  case (Inr ca)
  obtain c a where ca: "ca = (c, a)" by (cases ca)
  note P = alloc_frame_page[OF assms(2) Inr[unfolded ca]]
  have "u_frame_paddr (c_u c) \<noteq> 0" using P(3) assms(2) by (auto simp: alloc_ok_def)
  then show ?thesis using assms Inr ca P
    by (auto simp: alloc_pt_page_def Let_def same_space_def split: if_splits)
qed (use assms in \<open>auto simp: alloc_pt_page_def split: if_splits\<close>)

text \<open>The table a label names gains a child under the next label.\<close>

fun child :: "pt_label \<Rightarrow> u64 \<Rightarrow> pt_label" where
  "child Root i = L1 i"
| "child (L1 a) i = L0 a i"
| "child (L0 a c) i = L0 a c"

lemma page_at_child:
  assumes "page_at m r l = Some t" "\<forall>a c. l \<noteq> L0 a c"
  shows "page_at m r (child l i) = entry_page m t i"
  using assms by (cases l) auto

text \<open>
  What an operation on one address space may do to memory: it writes the tables of that space and
  pages above the allocator's mark, and a table it adds is such a page.
\<close>

definition touches :: "u64 \<Rightarrow> pt_env \<Rightarrow> pt_env \<Rightarrow> bool" where
  "touches r e e' \<longleftrightarrow> unat (fa_next (pe_alloc e)) \<le> unat (fa_next (pe_alloc e')) \<and>
     (\<forall>l p. page_at (pe_mem e') r l = Some p \<longrightarrow> page_at (pe_mem e) r l = Some p \<or> unat (fa_next (pe_alloc e)) \<le> unat p) \<and>
     (\<forall>p i. aligned p \<longrightarrow> unat p + 4096 \<le> unat (fa_next (pe_alloc e)) \<longrightarrow> (\<forall>l. page_at (pe_mem e) r l \<noteq> Some p) \<longrightarrow> unat i < 512 \<longrightarrow>
        pe_mem e' (pte_addr p i) = pe_mem e (pte_addr p i))"

lemma touches_refl [simp]: "touches r e e"
  by (simp add: touches_def)

lemma touches_trans:
  assumes "touches r e e1" "touches r e1 e2"
  shows "touches r e e2"
proof -
  note t1 = assms(1)[unfolded touches_def] and t2 = assms(2)[unfolded touches_def]
  have "page_at (pe_mem e) r l = Some p \<or> unat (fa_next (pe_alloc e)) \<le> unat p" if "page_at (pe_mem e2) r l = Some p" for l p
    using that t1 t2 order_trans by blast
  moreover have "pe_mem e2 (pte_addr p i) = pe_mem e (pte_addr p i)"
    if p: "aligned p" "unat p + 4096 \<le> unat (fa_next (pe_alloc e))" "\<forall>l. page_at (pe_mem e) r l \<noteq> Some p" "unat i < 512" for p i
  proof -
    have "unat p + 4096 \<le> unat (fa_next (pe_alloc e1))" using p(2) t1 by linarith
    moreover have "\<forall>l. page_at (pe_mem e1) r l \<noteq> Some p" using p(2,3) t1 by fastforce
    ultimately show ?thesis using p t1 t2 by simp
  qed
  ultimately show ?thesis using t1 t2 unfolding touches_def by fastforce
qed

lemma leaf_touches:
  assumes "pt_wf (pe_mem e) r b" "page_at (pe_mem e) r (L0 a c) = Some t" "unat k < 512"
  shows "touches r e (e\<lparr>pe_mem := (pe_mem e)(pte_addr t k := x)\<rparr>)"
proof -
  have "((pe_mem e)(pte_addr t k := x)) (pte_addr p i) = pe_mem e (pte_addr p i)"
    if "aligned p" "\<forall>l. page_at (pe_mem e) r l \<noteq> Some p" "unat i < 512" for p i
  proof (rule other_entry)
    show "p \<noteq> t \<or> i \<noteq> k" using that(2) assms(2) by blast
  qed (use that assms(3) pt_wf_pageD(1)[OF assms(1,2)] in auto)
  then show ?thesis using leaf_write(1)[OF assms] by (simp add: touches_def)
qed

text \<open>One level of the walk either finds its table or links a fresh page in.\<close>

lemma next_level_links:
  assumes ok: "space_ok vs e" and t: "page_at (pe_mem e) (vs_root vs) l = Some t" "\<forall>a c. l \<noteq> L0 a c" and i: "unat i < 512"
    and step: "next_level pool vs e t i = (err, vs1, e1)"
    and new: "pe_mem e (pte_addr t i) AND 1 = 0" and err: "err = ERR_OK"
  obtains n where "same_space vs vs1" "alloc_ok (pe_alloc e1)" "aligned n" "unat (fa_next (pe_alloc e)) \<le> unat n"
    "unat (fa_next (pe_alloc e1)) = unat n + 4096"
    "pe_mem e1 = (zero_page n (pe_mem e))(pte_addr t i := pte_encode (drop_bit 12 n) 1)"
    "page_at (pe_mem e1) (vs_root vs) = (page_at (pe_mem e) (vs_root vs))(child l i \<mapsto> n)"
    "pt_lookup (pe_mem e1) (vs_root vs) = pt_lookup (pe_mem e) (vs_root vs)"
proof -
  let ?r = "vs_root vs" and ?b = "unat (fa_next (pe_alloc e))"
  obtain n vs' e' where al: "alloc_pt_page pool vs e = (n, vs', e')" by (cases "alloc_pt_page pool vs e") auto
  have wf: "pt_wf (pe_mem e) ?r ?b" using ok by (simp add: space_ok_def)
  let ?m = "pe_mem e'" and ?x = "pte_encode (drop_bit 12 n) 1"
  have n: "n \<noteq> 0" and r1: "vs1 = vs'" "e1 = e'\<lparr>pe_mem := ?m(pte_addr t i := ?x)\<rparr>"
    using step al new err by (auto simp: next_level_def split: if_splits)
  have a: "same_space vs vs'" "alloc_ok (pe_alloc e')" "aligned n" "?b \<le> unat n"
    "unat (fa_next (pe_alloc e')) = unat n + 4096" "?m = zero_page n (pe_mem e)"
    using n alloc_pt_page_spec[OF _ _ al] ok by (auto simp: space_ok_def)
  have z: "page_at ?m ?r = page_at (pe_mem e) ?r" "pt_lookup ?m ?r = pt_lookup (pe_mem e) ?r"
    unfolding a(6) using zero_page_same[OF wf a(3,4)] by auto
  have wf': "pt_wf ?m ?r ?b" using wf z(1) by (simp add: pt_wf_def)
  have "aligned t" "t \<noteq> n" using pt_wf_pageD(1,2)[OF wf t(1)] a(4) by auto
  then have inv: "?m (pte_addr t i) AND 1 = 0"
    using new page_of_entry[OF _ a(3) i, of t] by (simp add: a(6) zero_page_def)
  have fresh: "fresh_page ?m ?b n"
    using a(3,4,6) page_of_entry[OF a(3) a(3)] by (simp add: fresh_page_def zero_page_def)
  have t': "page_at ?m ?r l = Some t" using t z by simp
  have pages: "page_at (?m(pte_addr t i := ?x)) ?r = (page_at ?m ?r)(child l i \<mapsto> n)"
    using t' t(2) link_root[OF wf' fresh i] link_l1[OF wf' a(3) _ i] inv by (cases l) auto
  have "page_at ?m ?r (child l i) = None" using page_at_child[OF t' t(2)] inv by (simp add: entry_page_def)
  from lookup_link[OF wf' fresh t' t(2) i this pages]
  have "pt_lookup (pe_mem e1) ?r = pt_lookup (pe_mem e) ?r" using z(2) r1 by simp
  then show thesis using that[of n] a pages z(1) r1 by simp
qed

lemma next_level_idle:
  assumes "space_ok vs e" "next_level pool vs e t i = (err, vs1, e1)" "err \<noteq> ERR_OK \<or> pe_mem e (pte_addr t i) AND 1 \<noteq> 0"
  shows "vs1 = vs \<and> e1 = e \<and> (err = ERR_OK \<longleftrightarrow> pe_mem e (pte_addr t i) AND 1 \<noteq> 0)"
proof -
  obtain n vs' e' where al: "alloc_pt_page pool vs e = (n, vs', e')" by (cases "alloc_pt_page pool vs e") auto
  show ?thesis using assms al alloc_pt_page_spec[OF _ _ al] by (auto simp: next_level_def space_ok_def split: if_splits)
qed

lemma link_touches:
  assumes wf: "pt_wf (pe_mem e) r (unat (fa_next (pe_alloc e)))" and t: "page_at (pe_mem e) r l = Some t" and i: "unat i < 512"
    and n: "aligned n" "unat (fa_next (pe_alloc e)) \<le> unat n" "unat (fa_next (pe_alloc e1)) = unat n + 4096"
    and m: "pe_mem e1 = (zero_page n (pe_mem e))(pte_addr t i := x)"
    and pages: "page_at (pe_mem e1) r = (page_at (pe_mem e) r)(l' \<mapsto> n)"
  shows "touches r e e1"
proof -
  have "pe_mem e1 (pte_addr p k) = pe_mem e (pte_addr p k)"
    if p: "aligned p" "unat p + 4096 \<le> unat (fa_next (pe_alloc e))" "\<forall>l. page_at (pe_mem e) r l \<noteq> Some p" "unat k < 512" for p k
  proof -
    have "p \<noteq> t" "p \<noteq> n" using p(2,3) t n(2) by auto
    then have "pe_mem e1 (pte_addr p k) = zero_page n (pe_mem e) (pte_addr p k)"
      unfolding m by (intro other_entry[OF pt_wf_pageD(1)[OF wf t] p(1) i p(4)]) simp
    then show ?thesis using page_of_entry[OF p(1) n(1) p(4)] \<open>p \<noteq> n\<close> by (simp add: zero_page_def)
  qed
  then show ?thesis using n(2,3) pages by (auto simp: touches_def split: if_splits)
qed

lemma next_level_spec:
  assumes ok: "space_ok vs e" and t: "page_at (pe_mem e) (vs_root vs) l = Some t" "\<forall>a c. l \<noteq> L0 a c" and i: "unat i < 512"
    and step: "next_level pool vs e t i = (err, vs1, e1)"
  shows "space_ok vs1 e1 \<and> same_space vs vs1 \<and> vs_lookup vs1 e1 = vs_lookup vs e \<and> touches (vs_root vs) e e1 \<and>
    (err = ERR_OK \<longrightarrow> page_at (pe_mem e1) (vs_root vs) (child l i) = Some (pte_table (pe_mem e1 (pte_addr t i))) \<and>
       page_at (pe_mem e1) (vs_root vs) l = Some t \<and>
       dom (page_at (pe_mem e1) (vs_root vs)) = insert (child l i) (dom (page_at (pe_mem e) (vs_root vs))))"
proof (cases "err \<noteq> ERR_OK \<or> pe_mem e (pte_addr t i) AND 1 \<noteq> 0")
  case True
  moreover have "page_at (pe_mem e) (vs_root vs) (child l i) = Some (pte_table (pe_mem e (pte_addr t i)))"
    if "pe_mem e (pte_addr t i) AND 1 \<noteq> 0" using t i that by (simp add: page_at_child entry_page_def)
  ultimately show ?thesis using next_level_idle[OF ok step True] ok t by (auto simp: dom_def)
next
  case False
  let ?r = "vs_root vs"
  have wf: "pt_wf (pe_mem e) ?r (unat (fa_next (pe_alloc e)))" using ok by (simp add: space_ok_def)
  obtain n where n: "same_space vs vs1" "alloc_ok (pe_alloc e1)" "aligned n" "unat (fa_next (pe_alloc e)) \<le> unat n"
    "unat (fa_next (pe_alloc e1)) = unat n + 4096"
    "pe_mem e1 = (zero_page n (pe_mem e))(pte_addr t i := pte_encode (drop_bit 12 n) 1)"
    "page_at (pe_mem e1) ?r = (page_at (pe_mem e) ?r)(child l i \<mapsto> n)" "pt_lookup (pe_mem e1) ?r = pt_lookup (pe_mem e) ?r"
    using next_level_links[OF ok t i step] False by blast
  have "space_ok vs1 e1" using wf_extend[OF wf n(7,4)] n(1,2,5) ok by (simp add: space_ok_def same_space_def)
  moreover have "touches ?r e e1" using link_touches[OF wf t(1) i n(3-7)] .
  moreover have "pte_table (pe_mem e1 (pte_addr t i)) = n"
    using n(3,6) pte_table_encode[of 1 n] aligned_push_drop by (simp add: bit_1_iff)
  moreover have "l \<noteq> child l i" using t(2) by (cases l) auto
  ultimately show ?thesis using n(1,7,8) t(1) by (simp add: vs_lookup_def same_space_def)
qed

text \<open>The tables of an address space, and those a page needs.\<close>

definition tables :: "vspace_t \<Rightarrow> pt_env \<Rightarrow> pt_label set" where
  "tables vs e = dom (page_at (pe_mem e) (vs_root vs))"

definition needs :: "u64 \<Rightarrow> pt_label set" where
  "needs va = {L1 (vpn2 va), L0 (vpn2 va) (vpn1 va)}"

lemma map_page_walk:
  assumes ok: "space_ok vs e" and step: "map_page pool vs e va pa flags = (err, vs', e')"
  obtains (fails) "err \<noteq> ERR_OK" "space_ok vs' e'" "same_space vs vs'" "vs_lookup vs' e' = vs_lookup vs e" "touches (vs_root vs) e e'"
  | (stores) e2 l0 where "err = ERR_OK" "space_ok vs' e2" "same_space vs vs'" "vs_lookup vs' e2 = vs_lookup vs e" "touches (vs_root vs) e e2"
    "tables vs' e2 = tables vs e \<union> needs va" "page_at (pe_mem e2) (vs_root vs) (L0 (vpn2 va) (vpn1 va)) = Some l0"
    "pe_mem e2 (pte_addr l0 (vpn0 va)) AND 1 = 0" "e' = e2\<lparr>pe_mem := (pe_mem e2)(pte_addr l0 (vpn0 va) := pte_encode (drop_bit 12 pa) flags)\<rparr>"
proof -
  let ?r = "vs_root vs"
  obtain err1 vs1 e1 where s1: "next_level pool vs e ?r (vpn2 va) = (err1, vs1, e1)" by (cases "next_level pool vs e ?r (vpn2 va)") auto
  have root: "page_at (pe_mem e) ?r Root = Some ?r" by simp
  note N1 = next_level_spec[OF ok root _ vpn_less(1) s1, simplified child.simps]
  show thesis
  proof (cases "err1 = ERR_OK")
    case False
    then show thesis using step s1 N1 fails by (simp add: map_page_def)
  next
    case True
    let ?l1 = "pte_table (pe_mem e1 (pte_addr ?r (vpn2 va)))"
    obtain err2 vs2 e2 where s2: "next_level pool vs1 e1 ?l1 (vpn1 va) = (err2, vs2, e2)" by (cases "next_level pool vs1 e1 ?l1 (vpn1 va)") auto
    have ok1: "space_ok vs1 e1" and r1: "vs_root vs1 = ?r" and l1: "page_at (pe_mem e1) (vs_root vs1) (L1 (vpn2 va)) = Some ?l1"
      using N1 True by (simp_all add: same_space_def)
    note N2 = next_level_spec[OF ok1 l1 _ vpn_less(2) s2, simplified child.simps]
    have same: "same_space vs vs2" "vs_lookup vs2 e2 = vs_lookup vs e" "space_ok vs2 e2" "touches ?r e e2"
      using N1 N2 r1 same_space_trans touches_trans[of ?r e e1 e2] by auto
    let ?l0 = "pte_table (pe_mem e2 (pte_addr ?l1 (vpn1 va)))"
    show thesis
    proof (cases "err2 = ERR_OK \<and> pe_mem e2 (pte_addr ?l0 (vpn0 va)) AND 1 = 0")
      case False
      then show thesis using fails same step s1 s2 True by (auto simp: map_page_def Let_def split: if_splits)
    next
      case ok2: True
      have "tables vs2 e2 = tables vs e \<union> needs va"
        using N1 N2 True ok2 same(1) r1 by (simp add: tables_def needs_def insert_commute same_space_def)
      moreover have "page_at (pe_mem e2) ?r (L0 (vpn2 va) (vpn1 va)) = Some ?l0" using N2 ok2 r1 by auto
      ultimately show thesis using stores[of e2 ?l0] same step s1 s2 True ok2 by (simp add: map_page_def Let_def)
    qed
  qed
qed

lemma map_page_spec:
  assumes ok: "space_ok vs e" and step: "map_page pool vs e va pa flags = (err, vs', e')" and f: "bit flags 0"
  shows "space_ok vs' e' \<and> same_space vs vs' \<and> touches (vs_root vs) e e' \<and>
    (if err = ERR_OK then vs_lookup vs e (vpn va) = None \<and> vs_lookup vs' e' = (vs_lookup vs e)(vpn va \<mapsto> pte_encode (drop_bit 12 pa) flags) \<and>
       tables vs' e' = tables vs e \<union> needs va
     else vs_lookup vs' e' = vs_lookup vs e)"
  using ok step
proof (cases rule: map_page_walk)
  case (stores e2 l0)
  let ?r = "vs_root vs" and ?x = "pte_encode (drop_bit 12 pa) flags"
  have r: "vs_root vs' = ?r" using stores(3) by (simp add: same_space_def)
  have wf: "pt_wf (pe_mem e2) ?r (unat (fa_next (pe_alloc e2)))" using stores(2) r by (simp add: space_ok_def)
  note L = leaf_write[OF wf stores(7) vpn_less(3), of va ?x]
  have "vs_lookup vs' e2 (vpn va) = None"
    using stores(7,8) r by (simp add: vs_lookup_def pt_lookup_def vpn_def del: page_at.simps)
  moreover have "?x AND 1 \<noteq> 0" using f by (simp add: pte_encode_valid)
  then have "vs_lookup vs' e' = (vs_lookup vs e)(vpn va \<mapsto> ?x)"
    using L(2) r stores(4,9) by (simp add: vs_lookup_def vpn_def)
  moreover have "space_ok vs' e'" using r L(1) stores(2,9) wf by (simp add: space_ok_def pt_wf_def)
  moreover have "tables vs' e' = tables vs e \<union> needs va" using stores(6,9) L(1) r by (simp add: tables_def)
  moreover have "touches ?r e e'"
    using touches_trans[OF stores(5)] leaf_touches[OF wf stores(7) vpn_less(3), of va ?x] stores(9) by simp
  ultimately show ?thesis using stores(1,3,4) by simp
qed simp

lemma map_loop_spec:
  assumes "space_ok vs e" "map_loop pool vs e vaddr paddr flags offs = (err, vs', e')" "bit flags 0"
  shows "space_ok vs' e' \<and> same_space vs vs' \<and> touches (vs_root vs) e e' \<and> vs_lookup vs e \<subseteq>\<^sub>m vs_lookup vs' e' \<and>
    (err = ERR_OK \<longrightarrow>
      (\<forall>off\<in>set offs. vs_lookup vs e (vpn (vaddr + off)) = None \<and>
         vs_lookup vs' e' (vpn (vaddr + off)) = Some (pte_encode (drop_bit 12 (paddr + off)) flags)) \<and>
      (\<forall>v. v \<notin> (\<lambda>off. vpn (vaddr + off)) ` set offs \<longrightarrow> vs_lookup vs' e' v = vs_lookup vs e v))"
  using assms(1,2)
proof (induction offs arbitrary: vs e)
  case Nil
  then show ?case by simp
next
  case (Cons off offs)
  obtain err1 vs1 e1 where s1: "map_page pool vs e (vaddr + off) (paddr + off) flags = (err1, vs1, e1)"
    by (cases "map_page pool vs e (vaddr + off) (paddr + off) flags") auto
  note M = map_page_spec[OF Cons.prems(1) s1 assms(3)]
  show ?case
  proof (cases "err1 = ERR_OK")
    case False
    then show ?thesis using M Cons.prems(2) s1 by simp
  next
    case True
    let ?v = "vpn (vaddr + off)" and ?x = "pte_encode (drop_bit 12 (paddr + off)) flags"
    have ok1: "space_ok vs1 e1" "same_space vs vs1" "vs_lookup vs e ?v = None" "vs_lookup vs1 e1 = (vs_lookup vs e)(?v \<mapsto> ?x)"
      using M True by auto
    have t1: "touches (vs_root vs) e e1" "vs_root vs1 = vs_root vs" using M by (auto simp: same_space_def)
    have rest: "map_loop pool vs1 e1 vaddr paddr flags offs = (err, vs', e')" using Cons.prems(2) s1 True by simp
    note I = Cons.IH[OF ok1(1) rest]
    have "vs_lookup vs e \<subseteq>\<^sub>m vs_lookup vs1 e1" using ok1(3,4) by (auto simp: map_le_def)
    then have le: "vs_lookup vs e \<subseteq>\<^sub>m vs_lookup vs' e'" using I map_le_trans by blast
    have "vs_lookup vs1 e1 ?v = Some ?x" using ok1(4) by simp
    then have here: "vs_lookup vs' e' ?v = Some ?x" using I by (metis domI map_le_def)
    have "vs_lookup vs e (vpn (vaddr + o')) = None" if "vs_lookup vs1 e1 (vpn (vaddr + o')) = None" for o'
      using that ok1(4) by (auto split: if_splits)
    moreover have "touches (vs_root vs) e e'" using touches_trans[OF t1(1)] I t1(2) by simp
    ultimately show ?thesis using I le here ok1 same_space_trans by auto
  qed
qed

lemma unmap_page_spec:
  assumes ok: "space_ok vs e"
  shows "space_ok vs (unmap_page vs e va) \<and> touches (vs_root vs) e (unmap_page vs e va) \<and> vs_lookup vs (unmap_page vs e va) = (vs_lookup vs e)(vpn va := None)"
proof (cases "page_at (pe_mem e) (vs_root vs) (L0 (vpn2 va) (vpn1 va))")
  case None
  then have "unmap_page vs e va = e" by (auto simp: unmap_page_def Let_def entry_page_def split: if_splits)
  moreover have "vs_lookup vs e (vpn va) = None" using None by (simp add: vs_lookup_def pt_lookup_def vpn_def del: page_at.simps)
  ultimately show ?thesis using ok by (simp add: fun_upd_idem)
next
  case (Some l0)
  have wf: "pt_wf (pe_mem e) (vs_root vs) (unat (fa_next (pe_alloc e)))" using ok by (simp add: space_ok_def)
  note L = leaf_write[OF wf Some vpn_less(3), of va 0]
  have "unmap_page vs e va = e\<lparr>pe_mem := (pe_mem e)(pte_addr l0 (vpn0 va) := 0)\<rparr>"
    using Some by (auto simp: unmap_page_def Let_def entry_page_def split: if_splits)
  then show ?thesis using ok L wf leaf_touches[OF wf Some vpn_less(3), of va 0] by (simp add: space_ok_def vs_lookup_def vpn_def pt_wf_def)
qed

lemma unmap_loop_spec:
  assumes "space_ok vs e"
  shows "space_ok vs (foldl (\<lambda>e off. unmap_page vs e (vaddr + off)) e offs) \<and>
    touches (vs_root vs) e (foldl (\<lambda>e off. unmap_page vs e (vaddr + off)) e offs) \<and>
    vs_lookup vs (foldl (\<lambda>e off. unmap_page vs e (vaddr + off)) e offs) =
      vs_lookup vs e |` (- (\<lambda>off. vpn (vaddr + off)) ` set offs)"
  using assms
proof (induction offs arbitrary: e)
  case Nil
  then show ?case by (simp add: restrict_map_def)
next
  case (Cons off offs)
  note U = unmap_page_spec[OF Cons.prems, of "vaddr + off"]
  show ?case using Cons.IH[of "unmap_page vs e (vaddr + off)"] U touches_trans by (auto simp: restrict_map_def fun_eq_iff)
qed

lemma map_flags_valid: "bit (map_flags vs perms) 0" "\<forall>k\<ge>10. \<not> bit (map_flags vs perms) k"
proof -
  have "take_bit 10 (map_flags vs perms) = map_flags vs perms" by (simp add: map_flags_def Let_def)
  then show "\<forall>k\<ge>10. \<not> bit (map_flags vs perms) k" by (metis bit_take_bit_iff not_le)
  show "bit (map_flags vs perms) 0" by (simp add: map_flags_def Let_def bit_or_iff)
qed

lemma resolve_lookup:
  assumes "vs_root vs \<noteq> 0"
  shows "vspace_resolve (Some vs) e va (Some out) =
    map_option (\<lambda>pte. push_bit 12 (pte_ppn pte) OR (va AND 0xFFF)) (vs_lookup vs e (vpn va))"
  using assms by (simp add: vspace_resolve_def vs_lookup_def pt_lookup_def vpn_def entry_page_def Let_def)

subsection \<open>Properties\<close>

lemma page_offsets_nth: "k < unat sz div 4096 \<Longrightarrow> of_nat k * 4096 \<in> set (page_offsets sz)"
  by (simp add: page_offsets_def)

lemma vspace_map_space: "\<exists>err vs1 e1. vspace_map pool (Some vs) e vaddr paddr sz perms color = (err, Some vs1, e1)"
  by (cases "map_loop pool vs e vaddr paddr (map_flags vs perms) (page_offsets sz)") (simp add: vspace_map_def)

lemma vspace_map_loop:
  assumes "vspace_map pool (Some vs) e vaddr paddr sz perms color = (err, Some vs', e')"
  shows "(vs' = vs \<and> e' = e \<and> err \<noteq> ERR_OK) \<or>
    (map_loop pool vs e vaddr paddr (map_flags vs perms) (page_offsets sz) = (err, vs', e') \<and> vaddr mod 4096 = 0 \<and> paddr mod 4096 = 0)"
  using assms by (auto simp: vspace_map_def split: if_splits prod.splits)

text \<open>
  C11 (refinement). Seen as a partial function from page numbers to leaf entries, a successful map
  extends the address space by the requested pages, none of which was mapped, each with the frame
  at the same offset and the requested flags, and changes no other page. The page tables stay a
  tree of distinct pages below the allocator's mark. A failed map, whether it is refused or runs
  out of memory halfway, alters no existing mapping.
\<close>

theorem vspace_map_refines:
  assumes "space_ok vs e" "vspace_map pool (Some vs) e vaddr paddr sz perms color = (err, Some vs', e')"
  shows "space_ok vs' e' \<and> vs_lookup vs e \<subseteq>\<^sub>m vs_lookup vs' e' \<and>
    (err = ERR_OK \<longrightarrow>
      (\<forall>off\<in>set (page_offsets sz). vs_lookup vs e (vpn (vaddr + off)) = None \<and>
         vs_lookup vs' e' (vpn (vaddr + off)) = Some (pte_encode (drop_bit 12 (paddr + off)) (map_flags vs perms))) \<and>
      (\<forall>v. v \<notin> (\<lambda>off. vpn (vaddr + off)) ` set (page_offsets sz) \<longrightarrow> vs_lookup vs' e' v = vs_lookup vs e v))"
  using vspace_map_loop[OF assms(2)] map_loop_spec[OF assms(1) _ map_flags_valid(1)] assms(1) by fastforce

text \<open>A space with one table of each level, all entries of the last one free.\<close>

definition demo_env :: pt_env where
  "demo_env = \<lparr>pe_mem = (\<lambda>_. 0)(pte_addr 0x80400000 0 := pte_encode 0x80401 1, pte_addr 0x80401000 0 := pte_encode 0x80402 1),
     pe_alloc = (alloc_init 0x80400000 0x400000)\<lparr>fa_next := 0x80403000\<rparr>, pe_fallback_next = 0\<rparr>"

definition demo_vs :: vspace_t where
  "demo_vs = \<lparr>vs_root = 0x80400000, vs_asid = 1, vs_partition_id = 1, vs_base = 0, vs_length = 0,
     vs_pt_pages_used = 3, vs_alloc = True, vs_pt_caps = (\<lambda>_. zero_cap), vs_pt_caps_count = 3\<rparr>"

lemma demo_pages:
  "aligned t \<Longrightarrow> entry_page (pe_mem demo_env) t i =
     (if i \<noteq> 0 then None else if t = 0x80400000 then Some 0x80401000 else if t = 0x80401000 then Some 0x80402000 else None)"
proof -
  assume t: "aligned t"
  have al: "aligned 0x80400000" "aligned 0x80401000" by (simp_all add: aligned_def)
  have "pte_addr t i = pte_addr 0x80400000 0 \<longleftrightarrow> t = 0x80400000 \<and> i = 0"
    "pte_addr t i = pte_addr 0x80401000 0 \<longleftrightarrow> t = 0x80401000 \<and> i = 0" if "unat i < 512"
    using that pte_addr_inj[OF t al(1), of i 0] pte_addr_inj[OF t al(2), of i 0] by simp_all
  then show ?thesis
    by (auto simp: entry_page_def demo_env_def pte_encode_def pte_table_def pte_ppn_def)
qed

lemma demo_page_at:
  "page_at (pe_mem demo_env) 0x80400000 l =
     (if l = Root then Some 0x80400000 else if l = L1 0 then Some 0x80401000 else if l = L0 0 0 then Some 0x80402000 else None)"
  by (cases l) (auto simp: demo_pages aligned_def)

lemma demo_space_ok: "space_ok demo_vs demo_env"
proof -
  have "pt_wf (pe_mem demo_env) 0x80400000 0x80403000"
    unfolding pt_wf_def demo_page_at by (auto simp: aligned_def)
  then show ?thesis
    by (auto simp: space_ok_def demo_vs_def demo_env_def alloc_ok_def alloc_inv_def alloc_init_def
        zero_frame_alloc_def aligned_def)
qed

lemma demo_map_ok:
  "\<exists>e'. vspace_map 0 (Some demo_vs) demo_env 0x2000 0x80600000 0x1000 3 2 = (ERR_OK, Some demo_vs, e')"
  by (simp add: vspace_map_def demo_vs_def page_offsets_def map_page_def next_level_def demo_env_def vpn2_def vpn1_def
      vpn0_def pte_addr_def pte_encode_def pte_table_def pte_ppn_def Let_def)

theorem vspace_map_refines_witness:
  "\<exists>e'. vspace_map 0 (Some demo_vs) demo_env 0x2000 0x80600000 0x1000 3 2 = (ERR_OK, Some demo_vs, e') \<and>
     space_ok demo_vs e' \<and> vs_lookup demo_vs demo_env \<subseteq>\<^sub>m vs_lookup demo_vs e'"
proof -
  obtain e' where r: "vspace_map 0 (Some demo_vs) demo_env 0x2000 0x80600000 0x1000 3 2 = (ERR_OK, Some demo_vs, e')"
    using demo_map_ok by blast
  show ?thesis using r vspace_map_refines[OF demo_space_ok r] by blast
qed

text \<open>
  C25 (roundtrip). What was mapped is what resolves: after a successful map, every address of a
  mapped page resolves to the address at the same offset of the corresponding physical page.
\<close>

theorem vspace_map_resolve:
  assumes "space_ok vs e" "vspace_map pool (Some vs) e vaddr paddr sz perms color = (ERR_OK, Some vs', e')"
    and "off \<in> set (page_offsets sz)" "vpn va = vpn (vaddr + off)"
  shows "vspace_resolve (Some vs') e' va (Some out) = Some (push_bit 12 (drop_bit 12 (paddr + off)) OR (va AND 0xFFF))"
proof -
  have loop: "map_loop pool vs e vaddr paddr (map_flags vs perms) (page_offsets sz) = (ERR_OK, vs', e')"
    using vspace_map_loop[OF assms(2)] by simp
  note M = map_loop_spec[OF assms(1) loop map_flags_valid(1)]
  have "vs_lookup vs' e' (vpn va) = Some (pte_encode (drop_bit 12 (paddr + off)) (map_flags vs perms))"
    using M assms(3,4) by simp
  moreover have "vs_root vs' \<noteq> 0" using M by (simp add: space_ok_def)
  ultimately show ?thesis
    using pte_table_encode[OF map_flags_valid(2)[of vs perms], of "paddr + off"] by (simp add: resolve_lookup pte_table_def)
qed

theorem vspace_map_resolve_witness:
  "\<exists>e'. vspace_map 0 (Some demo_vs) demo_env 0x2000 0x80600000 0x1000 3 2 = (ERR_OK, Some demo_vs, e') \<and>
     vspace_resolve (Some demo_vs) e' 0x2ABC (Some 0) = Some 0x80600ABC"
proof -
  obtain e' where r: "vspace_map 0 (Some demo_vs) demo_env 0x2000 0x80600000 0x1000 3 2 = (ERR_OK, Some demo_vs, e')"
    using demo_map_ok by blast
  have "vspace_resolve (Some demo_vs) e' 0x2ABC (Some 0) = Some (push_bit 12 (drop_bit 12 (0x80600000 + 0)) OR (0x2ABC AND 0xFFF))"
    by (rule vspace_map_resolve[OF demo_space_ok r]) (simp_all add: page_offsets_def vpn_def vpn2_def vpn1_def vpn0_def)
  then show ?thesis using r by simp
qed

text \<open>
  C28 (functional). After a successful unmap exactly the pages of the range are unmapped: none of them
  resolves, and every other page keeps its entry.
\<close>

theorem vspace_unmap_refines:
  assumes "space_ok vs e" "vspace_unmap (Some vs) e vaddr sz = (ERR_OK, e')"
  shows "space_ok vs e' \<and> vs_lookup vs e' = vs_lookup vs e |` (- (\<lambda>off. vpn (vaddr + off)) ` set (page_offsets sz)) \<and>
    (\<forall>off\<in>set (page_offsets sz). vspace_resolve (Some vs) e' (vaddr + off) (Some out) = None)"
proof -
  have e': "e' = foldl (\<lambda>e off. unmap_page vs e (vaddr + off)) e (page_offsets sz)"
    using assms(2) by (auto simp: vspace_unmap_def split: if_splits)
  have "vs_root vs \<noteq> 0" using assms(1) by (simp add: space_ok_def)
  then show ?thesis using unmap_loop_spec[OF assms(1), of vaddr "page_offsets sz"] e'
    by (simp add: resolve_lookup)
qed

theorem vspace_unmap_refines_witness:
  "\<exists>e'. vspace_unmap (Some demo_vs) demo_env 0x2000 0x1000 = (ERR_OK, e') \<and> space_ok demo_vs e'"
proof -
  obtain e' where r: "vspace_unmap (Some demo_vs) demo_env 0x2000 0x1000 = (ERR_OK, e')"
    by (simp add: vspace_unmap_def demo_vs_def)
  show ?thesis using r vspace_unmap_refines[OF demo_space_ok r] by blast
qed

end
