(* ===== verification/VspaceProgress.thy ===== *)
theory VspaceProgress
  imports Vspace
begin

text \<open>
  When a map succeeds. \<^verbatim>\<open>vspace_map\<close> can fail for want of a page-table page; this theory counts
  the tables a range needs and shows that a map of unmapped pages succeeds whenever the allocator
  and the space have room for the tables that are missing.
\<close>

subsection \<open>Room for page-table pages\<close>

text \<open>The bump pointer after one page-table page, and whether \<open>n\<close> of them fit.\<close>

definition after_page :: "u32 \<Rightarrow> u64 \<Rightarrow> u64" where
  "after_page part nx = while (color_mismatch (alloc_color_for_partition part)) next_page nx + PAGE_SIZE"

fun fits :: "u32 \<Rightarrow> u64 \<Rightarrow> u64 \<Rightarrow> nat \<Rightarrow> bool" where
  "fits part nx tp 0 = True"
| "fits part nx tp (Suc n) \<longleftrightarrow> after_page part nx \<le> tp \<and> fits part (after_page part nx) tp n"

definition pt_room :: "vspace_t \<Rightarrow> pt_env \<Rightarrow> nat \<Rightarrow> bool" where
  "pt_room vs e n \<longleftrightarrow> unat (vs_pt_caps_count vs) + n \<le> 64 \<and> unat (vs_pt_pages_used vs) + n \<le> 64 \<and>
     vs_partition_id vs < 8 \<and> fits (vs_partition_id vs) (fa_next (pe_alloc e)) (fa_top (pe_alloc e)) n"

text \<open>The space and allocator after \<open>n\<close> more page-table pages.\<close>

definition grown :: "nat \<Rightarrow> vspace_t \<Rightarrow> pt_env \<Rightarrow> vspace_t \<Rightarrow> pt_env \<Rightarrow> bool" where
  "grown n vs e vs' e' \<longleftrightarrow> same_space vs vs' \<and>
     unat (vs_pt_caps_count vs') = unat (vs_pt_caps_count vs) + n \<and>
     unat (vs_pt_pages_used vs') = unat (vs_pt_pages_used vs) + n \<and>
     fa_top (pe_alloc e') = fa_top (pe_alloc e) \<and>
     fa_next (pe_alloc e') = (after_page (vs_partition_id vs) ^^ n) (fa_next (pe_alloc e))"

lemma grown_refl [simp]: "grown 0 vs e vs e"
  by (simp add: grown_def)

lemma grown_trans: "grown n vs e vs1 e1 \<Longrightarrow> grown k vs1 e1 vs2 e2 \<Longrightarrow> grown (n + k) vs e vs2 e2"
  by (auto simp: grown_def same_space_def funpow_add add.commute)

lemma grown_mem [simp]: "grown n vs e vs1 (e1\<lparr>pe_mem := m\<rparr>) = grown n vs e vs1 e1"
  by (simp add: grown_def)

lemma after_page_eq: "after_page part nx = nx + of_nat (skip_pages (alloc_color_for_partition part) nx) * 4096 + 4096"
  by (simp add: after_page_def color_search_eq)

lemma fits_add: "fits part nx tp (n + k) \<longleftrightarrow> fits part nx tp n \<and> fits part ((after_page part ^^ n) nx) tp k"
  by (induction n arbitrary: nx) (auto simp: funpow_swap1)

lemma fits_iff: "fits part nx tp n \<longleftrightarrow> (\<forall>k<n. (after_page part ^^ Suc k) nx \<le> tp)"
proof (induction n arbitrary: nx)
  case (Suc n)
  then show ?case by (auto simp: less_Suc_eq_0_disj funpow_swap1)
qed simp

lemma pt_room_grown: "pt_room vs e (n + k) \<Longrightarrow> grown n vs e vs1 e1 \<Longrightarrow> pt_room vs1 e1 k"
  by (auto simp: pt_room_def grown_def same_space_def fits_add)

lemma pt_room_le: "pt_room vs e (n + k) \<Longrightarrow> pt_room vs e n"
  by (auto simp: pt_room_def fits_add)

lemma alloc_pt_page_ok:
  assumes "pt_room vs e 1" "vs_alloc vs" "alloc_ok (pe_alloc e)"
  shows "\<exists>n vs1 e1. alloc_pt_page pool vs e = (n, vs1, e1) \<and> n \<noteq> 0 \<and> grown 1 vs e vs1 e1"
proof -
  let ?p = "vs_partition_id vs" and ?a = "pe_alloc e"
  have r: "unat (vs_pt_caps_count vs) < 64" "unat (vs_pt_pages_used vs) < 64" "?p < 8" "after_page ?p (fa_next ?a) \<le> fa_top ?a"
    using assms(1) by (auto simp: pt_room_def)
  then have w: "\<not> 64 \<le> vs_pt_caps_count vs" "\<not> 64 \<le> vs_pt_pages_used vs" by (simp_all add: word_le_nat_alt)
  have inc: "unat (vs_pt_caps_count vs + 1) = unat (vs_pt_caps_count vs) + 1" "unat (vs_pt_pages_used vs + 1) = unat (vs_pt_pages_used vs) + 1"
    using r by (simp_all add: unat_word_ariths)
  obtain c a where al: "alloc_frame (Some ?a) ?p 4096 (Some zero_cap) = Inr (c, a)" and nx: "fa_next a = after_page ?p (fa_next ?a)"
    and top: "fa_top a = fa_top ?a"
    using r(3,4) by (auto simp: alloc_frame_def after_page_def Let_def not_le split: if_splits)
  have "u_frame_paddr (c_u c) \<noteq> 0" using alloc_frame_page(3)[OF assms(3) al] assms(3) by (auto simp: alloc_ok_def)
  then show ?thesis using w assms(2) al nx top inc
    by (simp add: alloc_pt_page_def Let_def grown_def same_space_def)
qed

subsection \<open>Progress of the mapping loop\<close>

lemma next_level_ok:
  assumes ok: "space_ok vs e" and t: "page_at (pe_mem e) (vs_root vs) l = Some t" "\<forall>a c. l \<noteq> L0 a c" and i: "unat i < 512"
    and room: "pt_room vs e (card ({child l i} - tables vs e))"
  shows "\<exists>vs1 e1. next_level pool vs e t i = (ERR_OK, vs1, e1) \<and> grown (card ({child l i} - tables vs e)) vs e vs1 e1"
proof -
  have "child l i \<in> tables vs e \<longleftrightarrow> pe_mem e (pte_addr t i) AND 1 \<noteq> 0"
    using page_at_child[OF t, of i] i by (simp add: tables_def dom_def entry_page_def)
  then show ?thesis
  proof (cases "child l i \<in> tables vs e")
    case False
    then have c: "{child l i} - tables vs e = {child l i}" by auto
    obtain n vs1 e1 where "alloc_pt_page pool vs e = (n, vs1, e1)" "n \<noteq> 0" "grown 1 vs e vs1 e1"
      using alloc_pt_page_ok[of vs e pool] room c ok by (auto simp: space_ok_def)
    then show ?thesis using False c \<open>child l i \<in> tables vs e \<longleftrightarrow> _\<close> by (simp add: next_level_def)
  qed (simp add: next_level_def insert_absorb)
qed

lemma needs_card: "card (needs va - T) = card ({L1 (vpn2 va)} - T) + card ({L0 (vpn2 va) (vpn1 va)} - insert (L1 (vpn2 va)) T)"
  by (auto simp: needs_def insert_Diff_if)

lemma map_page_ok:
  assumes ok: "space_ok vs e" and room: "pt_room vs e (card (needs va - tables vs e))" and free: "vs_lookup vs e (vpn va) = None"
  shows "\<exists>vs1 e1. map_page pool vs e va pa flags = (ERR_OK, vs1, e1) \<and> grown (card (needs va - tables vs e)) vs e vs1 e1"
proof -
  let ?r = "vs_root vs" and ?T = "tables vs e"
  have root: "page_at (pe_mem e) ?r Root = Some ?r" by simp
  obtain vs1 e1 where s1: "next_level pool vs e ?r (vpn2 va) = (ERR_OK, vs1, e1)" and g1: "grown (card ({L1 (vpn2 va)} - ?T)) vs e vs1 e1"
    using next_level_ok[OF ok root _ vpn_less(1)] pt_room_le[OF room[unfolded needs_card]] by fastforce
  let ?l1 = "pte_table (pe_mem e1 (pte_addr ?r (vpn2 va)))"
  note N1 = next_level_spec[OF ok root _ vpn_less(1) s1, simplified child.simps]
  have r1: "vs_root vs1 = ?r" using g1 by (simp add: grown_def same_space_def)
  have n1: "space_ok vs1 e1" "page_at (pe_mem e1) (vs_root vs1) (L1 (vpn2 va)) = Some ?l1"
    "tables vs1 e1 = insert (L1 (vpn2 va)) ?T" "vs_lookup vs1 e1 = vs_lookup vs e"
    using N1 r1 by (simp_all add: tables_def)
  have room1: "pt_room vs1 e1 (card ({L0 (vpn2 va) (vpn1 va)} - tables vs1 e1))"
    using pt_room_grown[OF room[unfolded needs_card] g1] n1(3) by simp
  obtain vs2 e2 where s2: "next_level pool vs1 e1 ?l1 (vpn1 va) = (ERR_OK, vs2, e2)"
    and g2: "grown (card ({L0 (vpn2 va) (vpn1 va)} - tables vs1 e1)) vs1 e1 vs2 e2"
    using next_level_ok[OF n1(1,2) _ vpn_less(2)] room1 by fastforce
  note N2 = next_level_spec[OF n1(1,2) _ vpn_less(2) s2, simplified child.simps]
  let ?l0 = "pte_table (pe_mem e2 (pte_addr ?l1 (vpn1 va)))"
  have "page_at (pe_mem e2) (vs_root vs2) (L0 (vpn2 va) (vpn1 va)) = Some ?l0" "vs_lookup vs2 e2 (vpn va) = None"
    using N2 n1(4) free by (auto simp: same_space_def)
  then have "pe_mem e2 (pte_addr ?l0 (vpn0 va)) AND 1 = 0"
    by (simp add: vs_lookup_def pt_lookup_def vpn_def del: page_at.simps split: if_splits)
  moreover have "grown (card (needs va - ?T)) vs e vs2 e2" using grown_trans[OF g1 g2] n1(3) by (simp add: needs_card)
  ultimately show ?thesis using s1 s2 by (simp add: map_page_def Let_def)
qed

lemma map_loop_ok:
  assumes "space_ok vs e" "bit flags 0" "distinct (map (\<lambda>off. vpn (vaddr + off)) offs)"
    and "\<forall>off\<in>set offs. vs_lookup vs e (vpn (vaddr + off)) = None"
    and "pt_room vs e (card ((\<Union>off\<in>set offs. needs (vaddr + off)) - tables vs e))"
  shows "\<exists>vs' e'. map_loop pool vs e vaddr paddr flags offs = (ERR_OK, vs', e') \<and>
    grown (card ((\<Union>off\<in>set offs. needs (vaddr + off)) - tables vs e)) vs e vs' e' \<and>
    tables vs' e' = tables vs e \<union> (\<Union>off\<in>set offs. needs (vaddr + off))"
  using assms
proof (induction offs arbitrary: vs e)
  case (Cons off offs)
  let ?T = "tables vs e" and ?N = "needs (vaddr + off)" and ?R = "\<Union>off\<in>set offs. needs (vaddr + off)"
  have fin: "finite ?R" "finite ?N" by (simp_all add: needs_def)
  have "(?N \<union> ?R) - ?T = (?N - ?T) \<union> (?R - (?T \<union> ?N))" by auto
  moreover have "(?N - ?T) \<inter> (?R - (?T \<union> ?N)) = {}" by auto
  ultimately have card: "card ((\<Union>off\<in>set (off # offs). needs (vaddr + off)) - ?T) = card (?N - ?T) + card (?R - (?T \<union> ?N))"
    using fin card_Un_disjoint[of "?N - ?T" "?R - (?T \<union> ?N)"] by simp
  obtain vs1 e1 where s1: "map_page pool vs e (vaddr + off) (paddr + off) flags = (ERR_OK, vs1, e1)" and g1: "grown (card (?N - ?T)) vs e vs1 e1"
    using map_page_ok[OF Cons.prems(1)] pt_room_le[OF Cons.prems(5)[unfolded card]] Cons.prems(4) by fastforce
  have M: "space_ok vs1 e1" "vs_lookup vs1 e1 = (vs_lookup vs e)(vpn (vaddr + off) \<mapsto> pte_encode (drop_bit 12 (paddr + off)) flags)"
    "tables vs1 e1 = ?T \<union> ?N"
    using map_page_spec[OF Cons.prems(1) s1 Cons.prems(2)] by auto
  have free: "\<forall>off\<in>set offs. vs_lookup vs1 e1 (vpn (vaddr + off)) = None"
    using Cons.prems(3,4) by (auto simp: M(2) image_iff)
  have "pt_room vs1 e1 (card (?R - tables vs1 e1))" using pt_room_grown[OF Cons.prems(5)[unfolded card] g1] M(3) by simp
  then obtain vs' e' where "map_loop pool vs1 e1 vaddr paddr flags offs = (ERR_OK, vs', e')" "grown (card (?R - tables vs1 e1)) vs1 e1 vs' e'"
    "tables vs' e' = tables vs1 e1 \<union> ?R"
    using Cons.IH[OF M(1) Cons.prems(2) _ free] Cons.prems(3) by auto
  then show ?case using s1 grown_trans[OF g1] M(3) card by (auto simp: Un_assoc)
qed simp

subsection \<open>Page numbers of a range\<close>

lemma vpn_digits:
  "unat (vpn0 va) = unat va div 4096 mod 512" "unat (vpn1 va) = unat va div 4096 div 512 mod 512"
  "unat (vpn2 va) = unat va div 4096 div 512 div 512 mod 512"
proof -
  have m: "unat (w AND 0x1FF :: u64) = unat w mod 512" for w
  proof -
    have "w AND 0x1FF = take_bit 9 w" by (simp add: take_bit_eq_mask mask_eq_exp_minus_1)
    then show ?thesis by (simp only: unsigned_take_bit_eq) (simp add: take_bit_eq_mod)
  qed
  have d: "unat (drop_bit n va) = unat va div 2 ^ n" for n by (simp only: unat_drop_bit_eq drop_bit_eq_div[of n "unat va"])
  show "unat (vpn0 va) = unat va div 4096 mod 512" "unat (vpn1 va) = unat va div 4096 div 512 mod 512"
    "unat (vpn2 va) = unat va div 4096 div 512 div 512 mod 512"
    by (simp_all only: vpn0_def vpn1_def vpn2_def m d) (simp_all add: div_mult2_eq[symmetric])
qed

lemma vpn_page_number:
  assumes "vpn va = vpn vb"
  shows "unat va div 4096 mod 2 ^ 27 = unat vb div 4096 mod 2 ^ 27"
proof -
  have "x mod 2 ^ 27 = 512 * (512 * (x div 512 div 512 mod 512) + x div 512 mod 512) + x mod 512" for x :: nat
    using mod_mult2_eq[of x 512 "512 * 512"] mod_mult2_eq[of "x div 512" 512 512] by simp
  moreover have "unat (vpn0 va) = unat (vpn0 vb)" "unat (vpn1 va) = unat (vpn1 vb)" "unat (vpn2 va) = unat (vpn2 vb)"
    using assms by (simp_all add: vpn_def)
  ultimately show ?thesis unfolding vpn_digits by presburger
qed

lemma page_number_step: "unat (va + of_nat k * 4096 :: u64) div 4096 mod 2 ^ 27 = (unat va div 4096 + k) mod 2 ^ 27"
proof -
  have "n mod 2 ^ 64 div 4096 mod 2 ^ 27 = n div 4096 mod 2 ^ 27" for n :: nat
    using drop_bit_take_bit[of 12 64 n] by (simp add: drop_bit_eq_div take_bit_eq_mod mod_mod_cancel)
  then show ?thesis by (simp only: unat_page_steps) (simp add: add.commute)
qed

lemma mod_shift_inj:
  fixes c j k m :: nat
  assumes "(c + j) mod m = (c + k) mod m" "j < m" "k < m"
  shows "j = k"
proof -
  have "j = k" if "(c + j) mod m = (c + k) mod m" "j \<le> k" "k < m" for j k
  proof (rule ccontr)
    assume "j \<noteq> k"
    then have "m dvd k - j" using that mod_eq_dvd_iff_nat[of "c + j" "c + k" m] by simp
    then show False using \<open>j \<noteq> k\<close> that by (auto dest!: dvd_imp_le)
  qed
  then show ?thesis using assms by (metis nat_le_linear)
qed

lemma range_distinct:
  assumes "unat sz \<le> 2 ^ 39"
  shows "distinct (map (\<lambda>off. vpn (vaddr + off)) (page_offsets sz))"
proof -
  have "j = k" if "j < 2 ^ 27" "k < 2 ^ 27" "vpn (vaddr + of_nat j * 4096) = vpn (vaddr + of_nat k * 4096)" for j k
  proof -
    have "(unat vaddr div 4096 + j) mod 2 ^ 27 = (unat vaddr div 4096 + k) mod 2 ^ 27"
      using vpn_page_number[OF that(3)] by (simp only: page_number_step)
    then show ?thesis using that(1,2) by (rule mod_shift_inj)
  qed
  moreover have "unat sz div 4096 \<le> 2 ^ 27" using assms by simp
  ultimately show ?thesis
    by (auto simp: page_offsets_def distinct_map comp_def inj_on_def simp del: of_nat_mult)
qed

lemma lookup_no_table: "L0 (vpn2 va) (vpn1 va) \<notin> tables vs e \<Longrightarrow> vs_lookup vs e (vpn va) = None"
  by (simp add: tables_def vs_lookup_def pt_lookup_def vpn_def domIff del: page_at.simps)

subsection \<open>When a map succeeds\<close>

definition missing :: "vspace_t \<Rightarrow> pt_env \<Rightarrow> u64 \<Rightarrow> u64 \<Rightarrow> pt_label set" where
  "missing vs e vaddr sz = (\<Union>off\<in>set (page_offsets sz). needs (vaddr + off)) - tables vs e"

text \<open>
  C24 (liveness). A map succeeds whenever it can: if the arguments pass the checks, no page of the range is
  mapped, and the allocator and the space have room for the page-table pages of the range that do not
  exist yet, then the call returns \<^verbatim>\<open>ERR_OK\<close>, whatever else is mapped. It then has taken exactly that
  many pages, and the tables of the space are the old ones and those of the range.
\<close>

theorem vspace_map_succeeds:
  assumes "space_ok vs e" "vaddr mod 4096 = 0" "paddr mod 4096 = 0" "sz mod 4096 = 0" "unat sz \<le> 2 ^ 39"
    and "color mod 2 = 0" "color = 0 \<or> ucast (drop_bit 12 vaddr mod 16) = color"
    and "\<forall>off\<in>set (page_offsets sz). vs_lookup vs e (vpn (vaddr + off)) = None"
    and "pt_room vs e (card (missing vs e vaddr sz))"
  shows "\<exists>vs' e'. vspace_map pool (Some vs) e vaddr paddr sz perms color = (ERR_OK, Some vs', e') \<and>
    grown (card (missing vs e vaddr sz)) vs e vs' e' \<and> tables vs' e' = tables vs e \<union> missing vs e vaddr sz"
proof -
  note L = map_loop_ok[OF assms(1) map_flags_valid(1)[of vs perms] range_distinct[OF assms(5)] assms(8) assms(9)[unfolded missing_def]]
  have "vs_root vs \<noteq> 0" using assms(1) by (simp add: space_ok_def)
  then show ?thesis using L[of pool paddr] assms(2-4,6,7)
    by (auto simp: vspace_map_def missing_def)
qed

text \<open>A page of a region that has no table yet: two tables are missing.\<close>

theorem vspace_map_succeeds_witness:
  "\<exists>vs' e'. vspace_map 0 (Some demo_vs) demo_env 0x40000000 0x80600000 0x1000 3 0 = (ERR_OK, Some vs', e') \<and>
    grown 2 demo_vs demo_env vs' e' \<and> tables vs' e' = {Root, L1 0, L0 0 0, L1 1, L0 1 0}"
proof -
  have off: "set (page_offsets 0x1000) = {0}" by (simp add: page_offsets_def)
  have r: "vs_root demo_vs = 0x80400000" by (simp add: demo_vs_def)
  have t: "tables demo_vs demo_env = {Root, L1 0, L0 0 0}"
    unfolding tables_def r using demo_page_at by (auto simp: dom_def split: if_splits)
  have m: "missing demo_vs demo_env 0x40000000 0x1000 = {L1 1, L0 1 0}"
    by (auto simp: missing_def off t needs_def vpn2_def vpn1_def)
  have f: "vs_lookup demo_vs demo_env (vpn 0x40000000) = None"
    by (rule lookup_no_table) (simp add: t vpn2_def vpn1_def)
  have "after_page 1 0x80403000 = 0x80413000" "after_page 1 0x80413000 = 0x80423000"
    by (simp_all add: after_page_eq skip_pages_def color_ix_def alloc_color_for_partition_def)
  then have "fits 1 0x80403000 0x80800000 (Suc (Suc 0))" by simp
  then have "pt_room demo_vs demo_env 2"
    by (simp only: numeral_2_eq_2[symmetric]) (simp add: pt_room_def demo_vs_def demo_env_def alloc_init_def)
  moreover have c: "card {L1 1, L0 1 0} = 2" by simp
  ultimately show ?thesis
    using vspace_map_succeeds[OF demo_space_ok, where vaddr = "0x40000000" and paddr = "0x80600000" and sz = "0x1000" and color = 0 and pool = 0 and perms = 3, unfolded off m t c] f
    by (auto simp: insert_commute)
qed

subsection \<open>Ranges that need fresh leaf tables\<close>

lemma drop_21_page:
  assumes "unat va mod 2 ^ 21 = 0"
  shows "drop_bit 21 (va + of_nat k * 4096 :: u64) = drop_bit 21 (va + of_nat (k div 512) * 0x200000)"
proof -
  let ?q = "(unat va + 2 ^ 21 * (k div 512)) mod 2 ^ 64" and ?r = "4096 * (k mod 512)"
  have "4096 * (512 * q + r) = 2 ^ 21 * q + 4096 * r" for q r :: nat by simp
  from this[of "k div 512" "k mod 512"] have k: "4096 * k = 2 ^ 21 * (k div 512) + ?r" by (simp only: mult_div_mod_eq)
  have "(2 :: nat) ^ 21 dvd ?q"
    using assms by (intro dvd_mod dvd_add le_imp_power_dvd dvd_triv_left) (simp_all add: mod_eq_0_iff_dvd)
  then obtain j where j: "?q = 2 ^ 21 * j" by (elim dvdE)
  have r: "?r < 2 ^ 21" by (simp add: mod_less_divisor[of 512 k])
  have "?q < 2 ^ 64" by (rule mod_less_divisor) simp
  then have "2 ^ 21 * j < 2 ^ 64" unfolding j .
  then have "2 ^ 21 * j + ?r < 2 ^ 64" using r by simp
  then have "?q + ?r < 2 ^ 64" unfolding j .
  then have "(unat va + 4096 * k) mod 2 ^ 64 = ?q + ?r" unfolding k
    by (metis (no_types, lifting) add.assoc mod_add_left_eq mod_less)
  then have "unat (va + of_nat k * 4096) = ?q + ?r" by (simp only: unat_page_steps)
  moreover have "unat (va + of_nat (k div 512) * 0x200000) = ?q"
    using unat_page_steps[of va "512 * (k div 512)"] by (simp add: algebra_simps)
  moreover have "(?q + ?r) div 2 ^ 21 = ?q div 2 ^ 21" using j r by simp
  ultimately have "drop_bit 21 (unat (va + of_nat k * 4096)) = drop_bit 21 (unat (va + of_nat (k div 512) * 0x200000))"
    by (simp only: drop_bit_eq_div)
  then show ?thesis by (simp only: word_unat_eq_iff unat_drop_bit_eq)
qed

lemma range_needs:
  assumes "unat vaddr mod 2 ^ 21 = 0"
  shows "(\<Union>off\<in>set (page_offsets sz). needs (vaddr + off)) =
    (\<Union>j\<in>{..<(unat sz div 4096 + 511) div 512}. needs (vaddr + of_nat j * 0x200000))"
proof -
  have same: "needs (vaddr + of_nat k * 4096) = needs (vaddr + of_nat (k div 512) * 0x200000)" for k
  proof -
    have d: "drop_bit 30 x = drop_bit 9 (drop_bit 21 x)" for x :: u64 by simp
    show ?thesis unfolding needs_def vpn2_def vpn1_def d drop_21_page[OF assms, of k] ..
  qed
  have img: "(\<lambda>k. k div 512) ` {..<n} = {..<(n + 511) div 512}" for n :: nat
  proof (intro equalityI subsetI)
    fix j assume "j \<in> {..<(n + 511) div 512}"
    then have "512 * j < n" by auto
    then show "j \<in> (\<lambda>k. k div 512) ` {..<n}" by (intro image_eqI[of _ _ "512 * j"]) auto
  qed auto
  have "(\<Union>j\<in>{..<(n + 511) div 512}. needs (vaddr + of_nat j * 0x200000)) =
      (\<Union>k\<in>{..<n}. needs (vaddr + of_nat (k div 512) * 0x200000))" for n
    unfolding img[symmetric] by simp
  moreover have "(\<Union>off\<in>set (page_offsets sz). needs (vaddr + off)) = (\<Union>k\<in>{..<unat sz div 4096}. needs (vaddr + of_nat k * 4096))"
    by (auto simp: page_offsets_def atLeast0LessThan)
  ultimately show ?thesis by (simp add: same)
qed

text \<open>A map of whole two-megabyte regions none of which has a leaf table yet.\<close>

lemma map_fresh:
  fixes vaddr sz :: u64
  defines "R \<equiv> (\<Union>j\<in>{..<(unat sz div 4096 + 511) div 512}. needs (vaddr + of_nat j * 0x200000))"
  assumes "space_ok vs e" "unat vaddr mod 2 ^ 21 = 0" "paddr mod 4096 = 0" "sz mod 4096 = 0" "unat sz \<le> 2 ^ 39"
    and fresh: "\<forall>a c. L0 a c \<in> R \<longrightarrow> L0 a c \<notin> tables vs e" and room: "pt_room vs e (card (R - tables vs e))"
  shows "\<exists>vs' e'. vspace_map pool (Some vs) e vaddr paddr sz perms 0 = (ERR_OK, Some vs', e') \<and>
    grown (card (R - tables vs e)) vs e vs' e' \<and> tables vs' e' = tables vs e \<union> R"
proof -
  have R: "(\<Union>off\<in>set (page_offsets sz). needs (vaddr + off)) = R" unfolding R_def by (rule range_needs[OF assms(3)])
  then have m: "missing vs e vaddr sz = R - tables vs e" by (simp add: missing_def)
  have al: "vaddr mod 4096 = 0"
  proof -
    have "unat vaddr mod 4096 = 0" using assms(3) mod_mod_cancel[of 4096 "2 ^ 21" "unat vaddr"] by simp
    then show ?thesis by (simp add: word_unat_eq_iff unat_mod)
  qed
  have "\<forall>off\<in>set (page_offsets sz). vs_lookup vs e (vpn (vaddr + off)) = None"
  proof
    fix off assume "off \<in> set (page_offsets sz)"
    then have "L0 (vpn2 (vaddr + off)) (vpn1 (vaddr + off)) \<in> R" unfolding R[symmetric] by (auto simp: needs_def)
    then show "vs_lookup vs e (vpn (vaddr + off)) = None" using fresh by (intro lookup_no_table) blast
  qed
  then show ?thesis
    using map_loop_ok[OF assms(2) map_flags_valid(1)[of vs perms] range_distinct[OF assms(6)] _ room[folded m, unfolded missing_def], of pool paddr]
      al assms(2,4,5) R by (auto simp: vspace_map_def space_ok_def)
qed

text \<open>A new address space: one table, nothing mapped.\<close>

lemma fresh_root:
  assumes "vs_alloc vs0" "alloc_ok (pe_alloc e)" "alloc_pt_page pool vs0 e = (r, vs1, e1)" "r \<noteq> 0"
  shows "page_at (pe_mem e1) r l = (if l = Root then Some r else None)" "space_ok (vs1\<lparr>vs_root := r\<rparr>) e1"
proof -
  have A: "same_space vs0 vs1" "alloc_ok (pe_alloc e1)" "aligned r" "unat (fa_next (pe_alloc e1)) = unat r + 4096" "pe_mem e1 = zero_page r (pe_mem e)"
    using alloc_pt_page_spec[OF assms(1-3)] assms(4) by simp_all
  have z: "entry_page (pe_mem e1) r i = None" for i
    using page_of_entry[OF A(3) A(3)] by (auto simp: entry_page_def A(5) zero_page_def)
  show pages: "page_at (pe_mem e1) r l = (if l = Root then Some r else None)" for l
    by (cases l) (simp_all add: z)
  have "pt_wf (pe_mem e1) r (unat r + 4096)" unfolding pt_wf_def pages using A(3) by auto
  then show "space_ok (vs1\<lparr>vs_root := r\<rparr>) e1" using A assms(1,4) by (simp add: space_ok_def same_space_def)
qed

lemma vspace_init_fresh:
  assumes "alloc_ok (pe_alloc e)" "part < 8" "fits part (fa_next (pe_alloc e)) (fa_top (pe_alloc e)) 1"
  shows "\<exists>vs e'. vspace_init_with_alloc pool (Some v0) asid part True e = (ERR_OK, Some vs, e') \<and> space_ok vs e' \<and>
    tables vs e' = {Root} \<and> vs_asid vs = asid \<and> vs_partition_id vs = part \<and> unat (vs_pt_caps_count vs) = 1 \<and> unat (vs_pt_pages_used vs) = 1 \<and>
    fa_top (pe_alloc e') = fa_top (pe_alloc e) \<and> fa_next (pe_alloc e') = after_page part (fa_next (pe_alloc e))"
proof -
  let ?vs = "\<lparr>vs_root = 0, vs_asid = asid, vs_partition_id = part, vs_base = 0, vs_length = 0,
     vs_pt_pages_used = 0, vs_alloc = True, vs_pt_caps = (\<lambda>_. zero_cap), vs_pt_caps_count = 0\<rparr>"
  obtain r vs1 e1 where al: "alloc_pt_page pool ?vs e = (r, vs1, e1)" and r: "r \<noteq> 0" and g: "grown 1 ?vs e vs1 e1"
    using alloc_pt_page_ok[of ?vs e pool] assms by (auto simp: pt_room_def)
  note F = fresh_root[OF _ assms(1) al r]
  have "space_ok (vs1\<lparr>vs_root := r\<rparr>) e1" "tables (vs1\<lparr>vs_root := r\<rparr>) e1 = {Root}"
    using F by (simp_all add: tables_def dom_def)
  then show ?thesis using al r g by (auto simp: vspace_init_with_alloc_def grown_def same_space_def)
qed

end
