(* ===== verification/VspaceAccess.thy ===== *)
theory VspaceAccess
  imports VspaceProgress
begin

text \<open>
  Which addresses the page-table walks of \<^verbatim>\<open>kernel/src/vspace.c\<close> dereference. The definitions of
  \<open>Vspace\<close> give the result of an operation whose every access meets memory; the definitions here say,
  walk by walk, when that is so, and a caller is undefined when it is not. Memory is the range the
  kernel's data capability spans in \<^verbatim>\<open>boot.c\<close>, 256 megabytes from the address the linker script
  places the image at. Page tables taken from a pool inside it never lead a walk outside.
\<close>

definition in_ram :: "u64 \<Rightarrow> nat \<Rightarrow> bool" where
  "in_ram p n \<longleftrightarrow> 0x80000000 \<le> unat p \<and> unat p + n \<le> 0x90000000"

text \<open>The pages cleared for a table.\<close>

definition alloc_pt_page_safe :: "u64 \<Rightarrow> vspace_t \<Rightarrow> pt_env \<Rightarrow> bool" where
  "alloc_pt_page_safe pool vs e \<longleftrightarrow> (case alloc_pt_page pool vs e of (n, _, _) \<Rightarrow> n \<noteq> 0 \<longrightarrow> in_ram n 4096)"

definition vspace_init_safe :: "u64 \<Rightarrow> asid_t \<Rightarrow> u32 \<Rightarrow> bool \<Rightarrow> pt_env \<Rightarrow> bool" where
  "vspace_init_safe pool asid part_id has_alloc e =
     alloc_pt_page_safe pool \<lparr>vs_root = 0, vs_asid = asid, vs_partition_id = part_id, vs_base = 0, vs_length = 0,
       vs_pt_pages_used = 0, vs_alloc = has_alloc, vs_pt_caps = (\<lambda>_. zero_cap), vs_pt_caps_count = 0\<rparr> e"

text \<open>The entry read, written and linked by one level of a map.\<close>

definition next_level_safe :: "u64 \<Rightarrow> vspace_t \<Rightarrow> pt_env \<Rightarrow> u64 \<Rightarrow> u64 \<Rightarrow> bool" where
  "next_level_safe pool vs e t i \<longleftrightarrow> in_ram (pte_addr t i) 8 \<and>
     (pe_mem e (pte_addr t i) AND PTE_V = 0 \<longrightarrow> alloc_pt_page_safe pool vs e)"

definition map_page_safe :: "u64 \<Rightarrow> vspace_t \<Rightarrow> pt_env \<Rightarrow> u64 \<Rightarrow> bool" where
  "map_page_safe pool vs e va \<longleftrightarrow> next_level_safe pool vs e (vs_root vs) (vpn2 va) \<and>
     (case next_level pool vs e (vs_root vs) (vpn2 va) of
        (err, vs1, e1) \<Rightarrow>
          err = ERR_OK \<longrightarrow>
            (let l1 = pte_table (pe_mem e1 (pte_addr (vs_root vs) (vpn2 va))) in
             next_level_safe pool vs1 e1 l1 (vpn1 va) \<and>
             (case next_level pool vs1 e1 l1 (vpn1 va) of
                (err, vs2, e2) \<Rightarrow>
                  err = ERR_OK \<longrightarrow> in_ram (pte_addr (pte_table (pe_mem e2 (pte_addr l1 (vpn1 va)))) (vpn0 va)) 8)))"

fun map_loop_safe :: "u64 \<Rightarrow> vspace_t \<Rightarrow> pt_env \<Rightarrow> u64 \<Rightarrow> u64 \<Rightarrow> u64 \<Rightarrow> u64 list \<Rightarrow> bool" where
  "map_loop_safe pool vs e vaddr paddr flags [] \<longleftrightarrow> True"
| "map_loop_safe pool vs e vaddr paddr flags (off # offs) \<longleftrightarrow> map_page_safe pool vs e (vaddr + off) \<and>
     (case map_page pool vs e (vaddr + off) (paddr + off) flags of
        (err, vs1, e1) \<Rightarrow> err = ERR_OK \<longrightarrow> map_loop_safe pool vs1 e1 vaddr paddr flags offs)"

definition vspace_map_safe :: "u64 \<Rightarrow> vspace_t option \<Rightarrow> pt_env \<Rightarrow> u64 \<Rightarrow> u64 \<Rightarrow> u64 \<Rightarrow> u8 \<Rightarrow> u16 \<Rightarrow> bool" where
  "vspace_map_safe pool vsp e vaddr paddr sz perms color \<longleftrightarrow>
     (case vsp of
        None \<Rightarrow> True
      | Some vs \<Rightarrow>
          if vs_root vs = 0 then True
          else if vaddr mod PAGE_SIZE \<noteq> 0 \<or> paddr mod PAGE_SIZE \<noteq> 0 \<or> sz mod PAGE_SIZE \<noteq> 0 then True
          else if color mod 2 \<noteq> 0 then True
          else if (ucast (drop_bit 12 vaddr mod 16) :: u16) \<noteq> color \<and> color \<noteq> 0 then True
          else map_loop_safe pool vs e vaddr paddr (map_flags vs perms) (page_offsets sz))"

text \<open>The entries read by the walk for one page, of an unmap and of a resolution.\<close>

definition walk_safe :: "vspace_t \<Rightarrow> pt_env \<Rightarrow> u64 \<Rightarrow> bool" where
  "walk_safe vs e va \<longleftrightarrow>
     (let a2 = pte_addr (vs_root vs) (vpn2 va); l2e = pe_mem e a2;
          a1 = pte_addr (pte_table l2e) (vpn1 va); l1e = pe_mem e a1 in
      in_ram a2 8 \<and>
      (l2e AND PTE_V \<noteq> 0 \<longrightarrow> in_ram a1 8 \<and>
         (l1e AND PTE_V \<noteq> 0 \<longrightarrow> in_ram (pte_addr (pte_table l1e) (vpn0 va)) 8)))"

fun unmap_loop_safe :: "vspace_t \<Rightarrow> pt_env \<Rightarrow> u64 \<Rightarrow> u64 list \<Rightarrow> bool" where
  "unmap_loop_safe vs e vaddr [] \<longleftrightarrow> True"
| "unmap_loop_safe vs e vaddr (off # offs) \<longleftrightarrow> walk_safe vs e (vaddr + off) \<and> unmap_loop_safe vs (unmap_page vs e (vaddr + off)) vaddr offs"

definition vspace_unmap_safe :: "vspace_t option \<Rightarrow> pt_env \<Rightarrow> u64 \<Rightarrow> u64 \<Rightarrow> bool" where
  "vspace_unmap_safe vsp e vaddr sz \<longleftrightarrow>
     (case vsp of
        None \<Rightarrow> True
      | Some vs \<Rightarrow>
          if vs_root vs = 0 then True
          else if vaddr mod PAGE_SIZE \<noteq> 0 \<or> sz mod PAGE_SIZE \<noteq> 0 then True
          else unmap_loop_safe vs e vaddr (page_offsets sz))"

definition vspace_resolve_safe :: "vspace_t option \<Rightarrow> pt_env \<Rightarrow> u64 \<Rightarrow> u64 option \<Rightarrow> bool" where
  "vspace_resolve_safe vsp e vaddr outp \<longleftrightarrow>
     (case (vsp, outp) of (Some vs, Some _) \<Rightarrow> vs_root vs = 0 \<or> walk_safe vs e vaddr | _ \<Rightarrow> True)"

subsection \<open>Tables inside memory\<close>

definition pool_in_ram :: "pt_env \<Rightarrow> bool" where
  "pool_in_ram e \<longleftrightarrow> 0x80000000 \<le> unat (fa_next (pe_alloc e)) \<and> unat (fa_top (pe_alloc e)) \<le> 0x90000000"

definition space_safe :: "vspace_t \<Rightarrow> pt_env \<Rightarrow> bool" where
  "space_safe vs e \<longleftrightarrow> space_ok vs e \<and> pool_in_ram e \<and> (\<forall>l p. page_at (pe_mem e) (vs_root vs) l = Some p \<longrightarrow> 0x80000000 \<le> unat p)"

lemma alloc_ok_top: "alloc_ok a \<Longrightarrow> unat (fa_next a) \<le> unat (fa_top a)"
  by (simp add: alloc_ok_def alloc_inv_def word_le_nat_alt)

lemma space_safe_entry:
  assumes "space_safe vs e" "page_at (pe_mem e) (vs_root vs) l = Some p" "unat i < 512"
  shows "in_ram (pte_addr p i) 8"
proof -
  have wf: "pt_wf (pe_mem e) (vs_root vs) (unat (fa_next (pe_alloc e)))" and al: "alloc_ok (pe_alloc e)"
    using assms(1) by (simp_all add: space_safe_def space_ok_def)
  have "unat p + 4096 \<le> 0x90000000" "0x80000000 \<le> unat p"
    using pt_wf_pageD(2)[OF wf assms(2)] alloc_ok_top[OF al] assms(1,2) by (auto simp: space_safe_def pool_in_ram_def)
  then show ?thesis using unat_pte_addr[OF pt_wf_pageD(1)[OF wf assms(2)] assms(3)] assms(3) by (simp add: in_ram_def)
qed

text \<open>The end of the pool never moves.\<close>

lemma alloc_pt_page_top: "alloc_pt_page pool vs e = (n, vs1, e1) \<Longrightarrow> fa_top (pe_alloc e1) = fa_top (pe_alloc e)"
  by (auto simp: alloc_pt_page_def Let_def dest: alloc_frame_InrD(14) split: if_splits sum.splits)

lemma next_level_top: "next_level pool vs e t i = (err, vs1, e1) \<Longrightarrow> fa_top (pe_alloc e1) = fa_top (pe_alloc e)"
  using alloc_pt_page_top by (auto simp: next_level_def split: if_splits prod.splits)

lemma map_page_top: "map_page pool vs e va pa flags = (err, vs1, e1) \<Longrightarrow> fa_top (pe_alloc e1) = fa_top (pe_alloc e)"
  by (auto simp: map_page_def Let_def dest!: next_level_top split: if_splits prod.splits)

lemma map_loop_top: "map_loop pool vs e vaddr paddr flags offs = (err, vs1, e1) \<Longrightarrow> fa_top (pe_alloc e1) = fa_top (pe_alloc e)"
  by (induction offs arbitrary: vs e) (auto dest!: map_page_top split: if_splits prod.splits)

lemma alloc_pt_page_safe:
  assumes "vs_alloc vs" "alloc_ok (pe_alloc e)" "pool_in_ram e"
  shows "alloc_pt_page_safe pool vs e"
proof -
  obtain n vs1 e1 where al: "alloc_pt_page pool vs e = (n, vs1, e1)" by (cases "alloc_pt_page pool vs e") auto
  note A = alloc_pt_page_spec[OF assms(1,2) al]
  show ?thesis
  proof (cases "n = 0")
    case False
    then have "unat (fa_next (pe_alloc e)) \<le> unat n" "unat n + 4096 \<le> unat (fa_top (pe_alloc e1))"
      using A alloc_ok_top[of "pe_alloc e1"] by simp_all
    then show ?thesis using assms(3) al alloc_pt_page_top[OF al] by (simp add: alloc_pt_page_safe_def pool_in_ram_def in_ram_def)
  qed (simp add: alloc_pt_page_safe_def al)
qed

text \<open>What an operation that touches only its own tables and fresh pages keeps.\<close>

lemma touches_safe:
  assumes "touches (vs_root vs) e e'" "space_safe vs e" "space_ok vs' e'" "vs_root vs' = vs_root vs"
    and "fa_top (pe_alloc e') = fa_top (pe_alloc e)"
  shows "space_safe vs' e'"
proof -
  have "0x80000000 \<le> unat p" if "page_at (pe_mem e') (vs_root vs) l = Some p" for l p
    using assms(1,2) that unfolding touches_def space_safe_def pool_in_ram_def by (meson order_trans)
  then show ?thesis using assms by (auto simp: space_safe_def pool_in_ram_def touches_def)
qed

text \<open>A new space, from a pool in memory.\<close>

lemma vspace_init_safe:
  assumes "alloc_ok (pe_alloc e)" "pool_in_ram e"
  shows "vspace_init_safe pool asid part True e"
    "vspace_init_with_alloc pool (Some old) asid part True e = (ERR_OK, Some vs, e') \<Longrightarrow> space_safe vs e'"
proof -
  let ?vs = "\<lparr>vs_root = 0, vs_asid = asid, vs_partition_id = part, vs_base = 0, vs_length = 0,
    vs_pt_pages_used = 0, vs_alloc = True, vs_pt_caps = (\<lambda>_. zero_cap), vs_pt_caps_count = 0\<rparr> :: vspace_t"
  have safe: "alloc_pt_page_safe pool ?vs e" by (rule alloc_pt_page_safe[OF _ assms]) simp
  then show "vspace_init_safe pool asid part True e" by (simp add: vspace_init_safe_def)
  assume i: "vspace_init_with_alloc pool (Some old) asid part True e = (ERR_OK, Some vs, e')"
  obtain r vs1 e1 where al: "alloc_pt_page pool ?vs e = (r, vs1, e1)" by (cases "alloc_pt_page pool ?vs e") auto
  then have v: "vs = vs1\<lparr>vs_root := r\<rparr>" "e' = e1" "r \<noteq> 0" using i by (auto simp: vspace_init_with_alloc_def Let_def split: if_splits)
  note F = fresh_root[OF _ assms(1) al v(3)]
  have "unat (fa_next (pe_alloc e)) \<le> unat (fa_next (pe_alloc e1))" using alloc_pt_page_spec[OF _ assms(1) al] v(3) by simp
  then have "pool_in_ram e1" using assms(2) alloc_pt_page_top[OF al] by (simp add: pool_in_ram_def)
  then show "space_safe vs e'" using F safe al v by (auto simp: space_safe_def alloc_pt_page_safe_def in_ram_def split: if_splits)
qed

lemma next_level_safe:
  assumes s: "space_safe vs e" and t: "page_at (pe_mem e) (vs_root vs) l = Some t" "\<forall>a c. l \<noteq> L0 a c" and i: "unat i < 512"
    and step: "next_level pool vs e t i = (err, vs1, e1)"
  shows "next_level_safe pool vs e t i" "space_safe vs1 e1" "vs_root vs1 = vs_root vs"
    "err = ERR_OK \<Longrightarrow> page_at (pe_mem e1) (vs_root vs1) (child l i) = Some (pte_table (pe_mem e1 (pte_addr t i)))"
proof -
  have ok: "space_ok vs e" using s by (simp add: space_safe_def)
  show "next_level_safe pool vs e t i"
    using space_safe_entry[OF s t(1) i] alloc_pt_page_safe[of vs e pool] s by (simp add: next_level_safe_def space_safe_def space_ok_def)
  note N = next_level_spec[OF ok t i step]
  show r: "vs_root vs1 = vs_root vs" using N by (simp add: same_space_def)
  show "space_safe vs1 e1" using touches_safe[OF _ s _ r next_level_top[OF step]] N by blast
  show "page_at (pe_mem e1) (vs_root vs1) (child l i) = Some (pte_table (pe_mem e1 (pte_addr t i)))" if "err = ERR_OK" using N that r by simp
qed

lemma map_page_safe:
  assumes s: "space_safe vs e"
  shows "map_page_safe pool vs e va"
proof -
  obtain err vs1 e1 where s1: "next_level pool vs e (vs_root vs) (vpn2 va) = (err, vs1, e1)"
    by (cases "next_level pool vs e (vs_root vs) (vpn2 va)") auto
  note N1 = next_level_safe[OF s _ _ vpn_less(1) s1, of Root, simplified]
  show ?thesis
  proof (cases "err = ERR_OK")
    case True
    let ?l1 = "pte_table (pe_mem e1 (pte_addr (vs_root vs) (vpn2 va)))"
    obtain err2 vs2 e2 where s2: "next_level pool vs1 e1 ?l1 (vpn1 va) = (err2, vs2, e2)" by (cases "next_level pool vs1 e1 ?l1 (vpn1 va)") auto
    have l1: "page_at (pe_mem e1) (vs_root vs1) (L1 (vpn2 va)) = Some ?l1" using N1(4) True by simp
    note N2 = next_level_safe[OF N1(2) l1 _ vpn_less(2) s2, simplified]
    have "in_ram (pte_addr (pte_table (pe_mem e2 (pte_addr ?l1 (vpn1 va)))) (vpn0 va)) 8" if "err2 = ERR_OK"
      by (rule space_safe_entry[OF N2(2) _ vpn_less(3), of "L0 (vpn2 va) (vpn1 va)"]) (use N2(4) that in simp)
    then show ?thesis using s1 s2 N1(1) N2(1) by (simp add: map_page_safe_def Let_def)
  qed (use s1 N1(1) in \<open>simp add: map_page_safe_def\<close>)
qed

lemma map_loop_safe:
  assumes "space_safe vs e" "bit flags 0"
  shows "map_loop_safe pool vs e vaddr paddr flags offs"
  using assms(1)
proof (induction offs arbitrary: vs e)
  case (Cons off offs)
  obtain err vs1 e1 where m: "map_page pool vs e (vaddr + off) (paddr + off) flags = (err, vs1, e1)"
    by (cases "map_page pool vs e (vaddr + off) (paddr + off) flags") auto
  have "space_ok vs e" using Cons.prems by (simp add: space_safe_def)
  from map_page_spec[OF this m assms(2)] have "space_safe vs1 e1"
    using touches_safe[OF _ Cons.prems _ _ map_page_top[OF m]] by (simp add: same_space_def)
  then show ?case using Cons.IH m map_page_safe[OF Cons.prems] by simp
qed simp

lemma walk_safe: "space_safe vs e \<Longrightarrow> walk_safe vs e va"
  using space_safe_entry[of vs e Root "vs_root vs" "vpn2 va"] space_safe_entry[of vs e "L1 (vpn2 va)" _ "vpn1 va"]
    space_safe_entry[of vs e "L0 (vpn2 va) (vpn1 va)" _ "vpn0 va"]
  by (auto simp: walk_safe_def Let_def entry_page_def)

lemma unmap_page_keeps_safe:
  assumes "space_safe vs e"
  shows "space_safe vs (unmap_page vs e va)"
proof -
  have "space_ok vs e" using assms by (simp add: space_safe_def)
  moreover have "pe_alloc (unmap_page vs e va) = pe_alloc e" by (simp add: unmap_page_def Let_def)
  ultimately show ?thesis using unmap_page_spec[of vs e va] touches_safe[OF _ assms] by simp
qed

lemma unmap_loop_safe: "space_safe vs e \<Longrightarrow> unmap_loop_safe vs e vaddr offs"
  by (induction offs arbitrary: e) (simp_all add: walk_safe unmap_page_keeps_safe)

text \<open>No operation on a space whose tables lie in memory leaves memory.\<close>

lemma vspace_ops_safe:
  assumes "space_safe vs e"
  shows "vspace_map_safe pool (Some vs) e vaddr paddr sz perms color" "vspace_unmap_safe (Some vs) e vaddr sz"
    "vspace_resolve_safe (Some vs) e vaddr outp"
  using map_loop_safe[OF assms map_flags_valid(1)] unmap_loop_safe[OF assms] walk_safe[OF assms]
  by (simp_all add: vspace_map_safe_def vspace_unmap_safe_def vspace_resolve_safe_def split: option.split)

lemma vspace_map_keeps_safe:
  assumes "space_safe vs e" "vspace_map pool (Some vs) e vaddr paddr sz perms color = (err, Some vs', e')"
  shows "space_safe vs' e'" "touches (vs_root vs) e e'" "same_space vs vs'" "fa_top (pe_alloc e') = fa_top (pe_alloc e)"
proof -
  have ok: "space_ok vs e" using assms(1) by (simp add: space_safe_def)
  have *: "space_ok vs' e' \<and> touches (vs_root vs) e e' \<and> same_space vs vs' \<and> fa_top (pe_alloc e') = fa_top (pe_alloc e)"
    using vspace_map_loop[OF assms(2)] map_loop_spec[OF ok _ map_flags_valid(1)] map_loop_top ok by fastforce
  then show "touches (vs_root vs) e e'" "same_space vs vs'" "fa_top (pe_alloc e') = fa_top (pe_alloc e)" by simp_all
  show "space_safe vs' e'" using touches_safe[OF _ assms(1)] * by (simp add: same_space_def)
qed

lemma vspace_unmap_keeps_safe:
  assumes "space_safe vs e" "vspace_unmap (Some vs) e vaddr sz = (err, e')"
  shows "space_safe vs e'" "touches (vs_root vs) e e'" "fa_top (pe_alloc e') = fa_top (pe_alloc e)"
proof -
  have ok: "space_ok vs e" using assms(1) by (simp add: space_safe_def)
  have top: "fa_top (pe_alloc (foldl (\<lambda>e off. unmap_page vs e (vaddr + off)) e offs)) = fa_top (pe_alloc e)" for offs
    by (induction offs arbitrary: e) (simp_all add: unmap_page_def Let_def)
  have *: "space_ok vs e' \<and> touches (vs_root vs) e e' \<and> fa_top (pe_alloc e') = fa_top (pe_alloc e)"
    using assms(2) unmap_loop_spec[OF ok] top ok by (auto simp: vspace_unmap_def split: if_splits)
  then show "touches (vs_root vs) e e'" "fa_top (pe_alloc e') = fa_top (pe_alloc e)" by simp_all
  show "space_safe vs e'" using touches_safe[OF _ assms(1)] * by simp
qed

end
