(* ===== verification/Syscall.thy ===== *)
theory Syscall
  imports Process VspaceAccess
begin

text \<open>
  The system-call interface, \<^verbatim>\<open>kernel/include/syscall.h\<close> and \<^verbatim>\<open>kernel/src/syscall.c\<close>, over the
  kernel's global objects. A capability of a kernel object holds its address; where the linker puts
  the arrays of threads, endpoints and address spaces is the argument \<open>layout\<close>, which answers the
  index of the object at an address. An address that is neither \<open>NULL\<close> nor that of an object, an
  index outside an array, a page-table walk that leaves memory and a dereference of \<open>NULL\<close> are undefined
  behaviour, \<open>None\<close>. The two
  readings of \<^verbatim>\<open>rdtime\<close>, at entry and in \<open>wcet_check\<close>, are arguments.
\<close>

record trap_frame_t =
  tf_ra :: u64
  tf_sp :: u64
  tf_gp :: u64
  tf_tp :: u64
  tf_t :: "u64 arr"
  tf_a0 :: u64
  tf_a1 :: u64
  tf_a2 :: u64
  tf_a3 :: u64
  tf_a4 :: u64
  tf_a5 :: u64
  tf_a6 :: u64
  tf_a7 :: u64
  tf_s :: "u64 arr"
  tf_pc :: u64
  tf_cause :: u64

datatype syscall_t = SYS_CALL | SYS_REPLY_RECV | SYS_SEND | SYS_YIELD | SYS_SEAL | SYS_INVOKE

text \<open>The cast of a register to the enumeration, \<open>None\<close> for the values the bounds check refuses.\<close>

definition syscall_of :: "u32 \<Rightarrow> syscall_t option" where
  "syscall_of n = (if n = 0 then Some SYS_CALL else if n = 1 then Some SYS_REPLY_RECV
     else if n = 2 then Some SYS_SEND else if n = 3 then Some SYS_YIELD
     else if n = 4 then Some SYS_SEAL else if n = 5 then Some SYS_INVOKE else None)"

datatype invoke_op_t =
    INV_UNTYPED_RETYPE | INV_CNODE_COPY | INV_CNODE_MINT | INV_CNODE_MOVE | INV_CNODE_DELETE
  | INV_TCB_CONFIGURE | INV_TCB_RESUME | INV_TCB_SUSPEND | INV_VSPACE_MAP | INV_VSPACE_UNMAP
  | INV_FRAME_MAP | INV_SCHED_BIND | INV_OTHER u32

definition invoke_op_of :: "u32 \<Rightarrow> invoke_op_t" where
  "invoke_op_of n = (if n = 0 then INV_UNTYPED_RETYPE else if n = 1 then INV_CNODE_COPY
     else if n = 2 then INV_CNODE_MINT else if n = 3 then INV_CNODE_MOVE else if n = 4 then INV_CNODE_DELETE
     else if n = 5 then INV_TCB_CONFIGURE else if n = 6 then INV_TCB_RESUME else if n = 7 then INV_TCB_SUSPEND
     else if n = 8 then INV_VSPACE_MAP else if n = 9 then INV_VSPACE_UNMAP else if n = 10 then INV_FRAME_MAP
     else if n = 11 then INV_SCHED_BIND else INV_OTHER n)"

text \<open>The globals of \<^verbatim>\<open>boot.c\<close>. The root capability node is node \<open>0\<close> of the heap.\<close>

record kstate =
  k_tcbs :: tcb_table_t
  k_endpoints :: "endpoint_t arr"
  k_sched :: sched_state_t
  k_cnodes :: cnode_heap
  k_mdb :: mdb_tree_t
  k_vspaces :: "vspace_t arr"
  k_pt :: pt_env

abbreviation (input) g_root_cnode :: "nat option" where "g_root_cnode \<equiv> Some 0"

record layout =
  lay_ep :: "u64 \<Rightarrow> nat option"
  lay_tcb :: "u64 \<Rightarrow> nat option"
  lay_vs :: "u64 \<Rightarrow> nat option"
  lay_pool :: u64

text \<open>A pointer to an object: \<open>NULL\<close>, an object by its index, or an address with no such object.\<close>

datatype ptr = Null | Obj nat | Wild

definition deref :: "(u64 \<Rightarrow> nat option) \<Rightarrow> u64 \<Rightarrow> ptr" where
  "deref lay p = (if p = 0 then Null else (case lay p of None \<Rightarrow> Wild | Some i \<Rightarrow> Obj i))"

text \<open>The error code and objects of an operation that changes nothing on error.\<close>

definition ret :: "kstate \<Rightarrow> ('a \<Rightarrow> kstate) \<Rightarrow> kerror_t + 'a \<Rightarrow> kerror_t \<times> kstate" where
  "ret k put r = (case r of Inl e \<Rightarrow> (e, k) | Inr x \<Rightarrow> (ERR_OK, put x))"

definition put_cnodes :: "kstate \<Rightarrow> cnode_heap \<Rightarrow> kstate" where "put_cnodes k h = k\<lparr>k_cnodes := h\<rparr>"

definition put_thread :: "kstate \<Rightarrow> nat \<Rightarrow> tcb_t \<Rightarrow> kstate" where
  "put_thread k i t = k\<lparr>k_tcbs := upd_thread i t (k_tcbs k)\<rparr>"

definition slot_arg :: "u64 \<Rightarrow> cptr_t" where "slot_arg x = ucast (x AND 0xFF)"

definition invoke_retype :: "kstate \<Rightarrow> cap_t \<Rightarrow> u64 \<Rightarrow> u64 \<Rightarrow> u64 \<Rightarrow> kerror_t \<times> kstate" where
  "invoke_retype k cap arg1 arg2 arg3 =
     (let new_type = cap_type_of (ucast arg2);
          sz = arg3;
          dest0 = slot_arg (drop_bit 8 arg1);
          dest = (if dest0 = 0 then 5 else dest0) in
      if \<not> cap_can_retype cap new_type sz then (ERR_INVALID_ARG, k)
      else
        let new_cap = cap_retype cap new_type (u_untyped_paddr (c_u cap)) sz in
        if c_is_valid new_cap = 0 then (ERR_INVALID_CAP, k)
        else if dest \<ge> MAX_CAPS_PER_CNODE then (ERR_INVALID_ARG, k)
        else if c_is_valid (cn_slots (k_cnodes k 0) (unat dest)) \<noteq> 0 then (ERR_REVOKE_NEEDED, k)
        else
          let cn = set_slot (unat dest) new_cap (k_cnodes k 0) in
          (ERR_OK, k\<lparr>k_cnodes := (k_cnodes k)(0 := cn\<lparr>cn_used := cn_used cn + 1\<rparr>),
                     k_mdb := (case mdb_insert (Some (k_mdb k)) 0 dest new_cap (Some 0) of
                                 Inl _ \<Rightarrow> k_mdb k | Inr (_, m) \<Rightarrow> m)\<rparr>))"

text \<open>The common body of \<^verbatim>\<open>INV_VSPACE_MAP\<close> and \<^verbatim>\<open>INV_FRAME_MAP\<close>.\<close>

definition invoke_map :: "layout \<Rightarrow> kstate \<Rightarrow> cap_t \<Rightarrow> u64 \<Rightarrow> u64 \<Rightarrow> (kerror_t \<times> kstate) option" where
  "invoke_map lay k cap arg2 arg3 =
     (if c_type cap \<noteq> CAP_VSPACE then Some (ERR_INVALID_CAP, k)
      else (case cnode_lookup (k_cnodes k) g_root_cnode (slot_arg arg3) of
         None \<Rightarrow> Some (ERR_INVALID_CAP, k)
       | Some si \<Rightarrow>
           let frame_cap = cn_slots (k_cnodes k 0) si in
           if c_type frame_cap \<noteq> CAP_FRAME then Some (ERR_INVALID_CAP, k)
           else
             let go = (\<lambda>vsp. vspace_map (lay_pool lay) vsp (k_pt k) arg2 (u_frame_paddr (c_u frame_cap)) PAGE_SIZE
                         (u_frame_perms (c_u frame_cap)) (u_frame_color (c_u frame_cap))) in
             (case deref (lay_vs lay) (u_vspace_root_pt (c_u cap)) of
                Null \<Rightarrow> (case go None of (err, _, e) \<Rightarrow> Some (err, k\<lparr>k_pt := e\<rparr>))
              | Wild \<Rightarrow> None
              | Obj v \<Rightarrow>
                  if \<not> vspace_map_safe (lay_pool lay) (Some (k_vspaces k v)) (k_pt k) arg2 (u_frame_paddr (c_u frame_cap)) PAGE_SIZE
                        (u_frame_perms (c_u frame_cap)) (u_frame_color (c_u frame_cap)) then None
                  else (case go (Some (k_vspaces k v)) of
                     (err, None, e) \<Rightarrow> Some (err, k\<lparr>k_pt := e\<rparr>)
                   | (err, Some vs, e) \<Rightarrow> Some (err, k\<lparr>k_pt := e, k_vspaces := (k_vspaces k)(v := vs)\<rparr>)))))"

definition invoke_tcb_resume :: "layout \<Rightarrow> kstate \<Rightarrow> cap_t \<Rightarrow> (kerror_t \<times> kstate) option" where
  "invoke_tcb_resume lay k cap =
     (if c_type cap \<noteq> CAP_TCB then Some (ERR_INVALID_CAP, k)
      else (case deref (lay_tcb lay) (u_tcb_ptr (c_u cap)) of
         Obj i \<Rightarrow>
           let t = tt_threads (k_tcbs k) i in
           if t_state t = TCB_INACTIVE then
             (case tcb_resume (Some t) of None \<Rightarrow> Some (ERR_OK, k) | Some t' \<Rightarrow> Some (ERR_OK, put_thread k i t'))
           else
             (case tcb_wake_from_ipc (Some t) 0 of Inl _ \<Rightarrow> Some (ERR_OK, k) | Inr t' \<Rightarrow> Some (ERR_OK, put_thread k i t'))
       | _ \<Rightarrow> None))"

definition invoke_tcb_suspend :: "layout \<Rightarrow> kstate \<Rightarrow> cap_t \<Rightarrow> (kerror_t \<times> kstate) option" where
  "invoke_tcb_suspend lay k cap =
     (if c_type cap \<noteq> CAP_TCB then Some (ERR_INVALID_CAP, k)
      else (case deref (lay_tcb lay) (u_tcb_ptr (c_u cap)) of
         Null \<Rightarrow> Some (ERR_OK, k)
       | Wild \<Rightarrow> None
       | Obj i \<Rightarrow>
           (case tcb_suspend (Some (tt_threads (k_tcbs k) i)) of
              None \<Rightarrow> Some (ERR_OK, k) | Some t' \<Rightarrow> Some (ERR_OK, put_thread k i t'))))"

definition invoke_tcb_configure :: "layout \<Rightarrow> kstate \<Rightarrow> cap_t \<Rightarrow> u64 \<Rightarrow> u64 \<Rightarrow> u64 \<Rightarrow> (kerror_t \<times> kstate) option" where
  "invoke_tcb_configure lay k cap arg1 arg2 arg3 =
     (if c_type cap \<noteq> CAP_TCB then Some (ERR_INVALID_CAP, k)
      else
        let cspace = cnode_lookup (k_cnodes k) g_root_cnode (slot_arg (drop_bit 16 arg1));
            vspace = cnode_lookup (k_cnodes k) g_root_cnode (slot_arg arg2) in
        (case cspace of
           None \<Rightarrow> Some (ERR_INVALID_CAP, k)
         | Some ci \<Rightarrow>
             if c_type (cn_slots (k_cnodes k 0) ci) \<noteq> CAP_CNODE then Some (ERR_INVALID_CAP, k)
             else (case vspace of
                None \<Rightarrow> Some (ERR_INVALID_CAP, k)
              | Some vi \<Rightarrow>
                  if c_type (cn_slots (k_cnodes k 0) vi) \<noteq> CAP_VSPACE then Some (ERR_INVALID_CAP, k)
                  else
                    let root = u_vspace_root_pt (c_u (cn_slots (k_cnodes k 0) vi));
                        asid = ucast (arg3 AND 0xFF);
                        part = ucast (drop_bit 8 arg3 AND 0xFF) in
                    (case deref (lay_tcb lay) (u_tcb_ptr (c_u cap)) of
                       Null \<Rightarrow> Some (kerr (tcb_configure None g_root_cnode root asid part), k)
                     | Wild \<Rightarrow> None
                     | Obj i \<Rightarrow> Some (ret k (put_thread k i) (tcb_configure (Some (tt_threads (k_tcbs k) i)) g_root_cnode root asid part))))))"

definition invoke_unmap :: "layout \<Rightarrow> kstate \<Rightarrow> cap_t \<Rightarrow> u64 \<Rightarrow> u64 \<Rightarrow> (kerror_t \<times> kstate) option" where
  "invoke_unmap lay k cap arg2 arg3 =
     (if c_type cap \<noteq> CAP_VSPACE then Some (ERR_INVALID_CAP, k)
      else (case deref (lay_vs lay) (u_vspace_root_pt (c_u cap)) of
         Wild \<Rightarrow> None
       | Null \<Rightarrow> (case vspace_unmap None (k_pt k) arg2 arg3 of (err, e) \<Rightarrow> Some (err, k\<lparr>k_pt := e\<rparr>))
       | Obj v \<Rightarrow>
           if \<not> vspace_unmap_safe (Some (k_vspaces k v)) (k_pt k) arg2 arg3 then None
           else (case vspace_unmap (Some (k_vspaces k v)) (k_pt k) arg2 arg3 of (err, e) \<Rightarrow> Some (err, k\<lparr>k_pt := e\<rparr>))))"

definition invoke_sched_bind :: "kstate \<Rightarrow> cap_t \<Rightarrow> u64 \<Rightarrow> u64 \<Rightarrow> u64 \<Rightarrow> kerror_t \<times> kstate" where
  "invoke_sched_bind k cap arg1 arg2 arg3 =
     (if \<not> cap_is_valid (Some cap) then (ERR_INVALID_CAP, k)
      else ret k (\<lambda>s. k\<lparr>k_sched := s\<rparr>)
        (sched_context_bind (Some (k_sched k)) (ucast (drop_bit 8 arg1 AND 0xFF)) (ucast (drop_bit 16 arg1 AND 0xFF))
           (ucast (drop_bit 24 arg1 AND 0xFF)) arg2 arg3 (ucast (drop_bit 32 arg1 AND 0xFF))))"

definition handle_invoke ::
  "layout \<Rightarrow> kstate \<Rightarrow> cap_t option \<Rightarrow> invoke_op_t \<Rightarrow> u64 \<Rightarrow> u64 \<Rightarrow> u64 \<Rightarrow> (kerror_t \<times> kstate) option" where
  "handle_invoke lay k capp op arg1 arg2 arg3 =
     (case capp of
        None \<Rightarrow> Some (ERR_INVALID_CAP, k)
      | Some cap \<Rightarrow>
          if \<not> cap_is_valid (Some cap) then Some (ERR_INVALID_CAP, k)
          else (case op of
             INV_UNTYPED_RETYPE \<Rightarrow> Some (invoke_retype k cap arg1 arg2 arg3)
           | INV_CNODE_COPY \<Rightarrow>
               if c_type cap \<noteq> CAP_CNODE then Some (ERR_INVALID_CAP, k)
               else Some (ret k (put_cnodes k) (cnode_copy (k_cnodes k) g_root_cnode (slot_arg arg3) g_root_cnode (slot_arg arg2) (c_rights cap)))
           | INV_TCB_RESUME \<Rightarrow> invoke_tcb_resume lay k cap
           | INV_VSPACE_MAP \<Rightarrow> invoke_map lay k cap arg2 arg3
           | INV_CNODE_MINT \<Rightarrow>
               if c_type cap \<noteq> CAP_CNODE then Some (ERR_INVALID_CAP, k)
               else Some (ret k (put_cnodes k) (cnode_mint (k_cnodes k) g_root_cnode (slot_arg arg3) g_root_cnode (slot_arg arg2)
                      (c_rights cap) (ucast (drop_bit 8 arg2 AND 0xFF))))
           | INV_CNODE_MOVE \<Rightarrow>
               if c_type cap \<noteq> CAP_CNODE then Some (ERR_INVALID_CAP, k)
               else map_option (ret k (put_cnodes k)) (cnode_move (k_cnodes k) g_root_cnode (slot_arg arg3) g_root_cnode (slot_arg arg2))
           | INV_CNODE_DELETE \<Rightarrow>
               if c_type cap \<noteq> CAP_CNODE then Some (ERR_INVALID_CAP, k)
               else Some (ret k (put_cnodes k) (cnode_delete (k_cnodes k) g_root_cnode (slot_arg arg2)))
           | INV_TCB_CONFIGURE \<Rightarrow> invoke_tcb_configure lay k cap arg1 arg2 arg3
           | INV_TCB_SUSPEND \<Rightarrow> invoke_tcb_suspend lay k cap
           | INV_VSPACE_UNMAP \<Rightarrow> invoke_unmap lay k cap arg2 arg3
           | INV_FRAME_MAP \<Rightarrow> invoke_map lay k cap arg2 arg3
           | INV_SCHED_BIND \<Rightarrow> Some (invoke_sched_bind k cap arg1 arg2 arg3)
           | INV_OTHER _ \<Rightarrow> Some (ERR_INVALID_ARG, k)))"

subsection \<open>The handler\<close>

text \<open>
  A case of the switch either returns at once (\<open>Inl\<close>, nothing changed) or leaves the switch with
  an error code and the new state (\<open>Inr\<close>).
\<close>

type_synonym case_result = "(kerror_t + (kerror_t \<times> kstate)) option"

definition call_msg :: "u32 \<Rightarrow> ipc_msg_t \<Rightarrow> ipc_msg_t" where
  "call_msg len buf = zero_msg\<lparr>msg_length := len, msg_words := (\<lambda>i. if i < unat len then msg_words buf i else 0)\<rparr>"

text \<open>\<^verbatim>\<open>endpoint_send\<close> on a pointer from a capability.\<close>

definition send_to :: "layout \<Rightarrow> kstate \<Rightarrow> u64 \<Rightarrow> u32 \<Rightarrow> ipc_msg_t \<Rightarrow> (kerror_t \<times> kstate) option" where
  "send_to lay k ep_ptr cur msg =
     (case deref (lay_ep lay) ep_ptr of
        Null \<Rightarrow> Some (kerr (endpoint_send None (k_tcbs k) cur (Some msg)), k)
      | Wild \<Rightarrow> None
      | Obj i \<Rightarrow>
          if \<not> endpoint_send_safe (k_endpoints k i) msg then None
          else Some (ret k (\<lambda>(ep, tt). k\<lparr>k_endpoints := (k_endpoints k)(i := ep), k_tcbs := tt\<rparr>)
                  (endpoint_send (Some (k_endpoints k i)) (k_tcbs k) cur (Some msg))))"

definition set_state :: "kstate \<Rightarrow> u32 \<Rightarrow> tcb_state_t \<Rightarrow> kstate" where
  "set_state k cur st = put_thread k (unat cur) ((tt_threads (k_tcbs k) (unat cur))\<lparr>t_state := st\<rparr>)"

definition sys_call :: "layout \<Rightarrow> kstate \<Rightarrow> u32 \<Rightarrow> cap_t \<Rightarrow> u64 \<Rightarrow> case_result" where
  "sys_call lay k cur cap arg1 =
     (if \<not> cap_has_right cap (CAP_RIGHTS_READ OR CAP_RIGHTS_WRITE) then Some (Inl ERR_NO_RIGHTS)
      else if c_type cap \<noteq> CAP_ENDPOINT then Some (Inl ERR_INVALID_CAP)
      else
        let len = ucast (arg1 AND 0xFF) :: u32 in
        if len > IPC_MSG_MAX then Some (Inl ERR_INVALID_ARG)
        else Option.bind
          (send_to lay k (u_endpoint_ep_ptr (c_u cap)) cur (call_msg len (t_ipc_buffer (tt_threads (k_tcbs k) (unat cur)))))
          (\<lambda>(err, k1). Some (Inr (err, if err = ERR_OK then set_state k1 cur TCB_BLOCKED_REPLY else k1))))"

definition sys_reply_recv :: "layout \<Rightarrow> kstate \<Rightarrow> u32 \<Rightarrow> cap_t \<Rightarrow> case_result" where
  "sys_reply_recv lay k cur cap =
     (if c_type cap \<noteq> CAP_ENDPOINT then Some (Inl ERR_INVALID_CAP)
      else (case deref (lay_ep lay) (u_endpoint_ep_ptr (c_u cap)) of
         Obj i \<Rightarrow>
           let ep = k_endpoints k i;
               was_pending = (ep_pending ep \<or> ep_q_len ep > 0) in
           if \<not> endpoint_recv_safe ep then None
           else (case endpoint_recv (Some ep) (k_tcbs k) cur (Some zero_msg) of
              Inl err \<Rightarrow> Some (Inr (err, k))
            | Inr (outm, ep1, tt1) \<Rightarrow>
                let k1 = k\<lparr>k_endpoints := (k_endpoints k)(i := ep1), k_tcbs := tt1\<rparr> in
                if was_pending then
                  (case outm of
                     None \<Rightarrow> None
                   | Some out \<Rightarrow>
                       if msg_length out > IPC_MSG_MAX then None
                       else
                         let t = tt_threads tt1 (unat cur);
                             buf = (t_ipc_buffer t)\<lparr>msg_words := (\<lambda>j. if j < unat (msg_length out) then msg_words out j
                                       else msg_words (t_ipc_buffer t) j), msg_length := msg_length out\<rparr> in
                         Some (Inr (ERR_OK, put_thread k1 (unat cur) (t\<lparr>t_ipc_buffer := buf\<rparr>))))
                else Some (Inr (ERR_OK, set_state k1 cur TCB_BLOCKED_RECV)))
       | _ \<Rightarrow> None))"

definition sys_send :: "layout \<Rightarrow> kstate \<Rightarrow> u32 \<Rightarrow> cap_t \<Rightarrow> u64 \<Rightarrow> case_result" where
  "sys_send lay k cur cap arg1 =
     (if c_type cap \<noteq> CAP_ENDPOINT then Some (Inl ERR_INVALID_CAP)
      else
        let len = ucast (arg1 AND 0xFF) :: u32;
            buf = t_ipc_buffer (tt_threads (k_tcbs k) (unat cur)) in
        if len > IPC_MSG_MAX then Some (Inl ERR_INVALID_ARG)
        else if msg_caps buf > IPC_CAPS_MAX then None
        else Option.bind
          (send_to lay k (u_endpoint_ep_ptr (c_u cap)) cur
             ((call_msg len buf)\<lparr>msg_caps := msg_caps buf,
                msg_cap_ptrs := (\<lambda>i. if i < unat (msg_caps buf) then msg_cap_ptrs buf i else 0)\<rparr>))
          (\<lambda>r. Some (Inr r)))"

definition dispatch :: "layout \<Rightarrow> kstate \<Rightarrow> trap_frame_t \<Rightarrow> u32 \<Rightarrow> syscall_t \<Rightarrow> cap_t option \<Rightarrow> case_result" where
  "dispatch lay k frame cur sys capp =
     (case sys of
        SYS_CALL \<Rightarrow> Option.bind capp (\<lambda>cap. sys_call lay k cur cap (tf_a1 frame))
      | SYS_REPLY_RECV \<Rightarrow> Option.bind capp (sys_reply_recv lay k cur)
      | SYS_SEND \<Rightarrow> Option.bind capp (\<lambda>cap. sys_send lay k cur cap (tf_a1 frame))
      | SYS_YIELD \<Rightarrow> Some (Inr (ERR_OK, k))
      | SYS_INVOKE \<Rightarrow>
          map_option Inr (handle_invoke lay k capp (invoke_op_of (ucast (tf_a1 frame AND 0xFF))) (tf_a1 frame) (tf_a2 frame) (tf_a3 frame))
      | SYS_SEAL \<Rightarrow> Some (Inr (ERR_INVALID_ARG, k)))"

text \<open>The capability the call names: in the caller's space, or for an invocation of slot 0 in the root node.\<close>

definition find_cap :: "kstate \<Rightarrow> u32 \<Rightarrow> syscall_t \<Rightarrow> trap_frame_t \<Rightarrow> cap_t option" where
  "find_cap k cur sys frame =
     (let cs = t_cspace (tt_threads (k_tcbs k) (unat cur));
          cap_ptr = ucast (tf_a0 frame) :: cptr_t in
      case cnode_lookup (k_cnodes k) cs cap_ptr of
        Some i \<Rightarrow> (case cs of None \<Rightarrow> None | Some n \<Rightarrow> Some (cn_slots (k_cnodes k n) i))
      | None \<Rightarrow>
          if sys = SYS_INVOKE \<and> cap_ptr = 0 then
            (case cnode_lookup (k_cnodes k) g_root_cnode (ucast (tf_a1 frame)) of
               None \<Rightarrow> None | Some i \<Rightarrow> Some (cn_slots (k_cnodes k 0) i))
          else None)"

definition syscall_handler ::
  "layout \<Rightarrow> u64 \<Rightarrow> u64 \<Rightarrow> trap_frame_t option \<Rightarrow> u32 \<Rightarrow> kstate \<Rightarrow> (kerror_t \<times> trap_frame_t option \<times> kstate) option" where
  "syscall_handler lay entry_us now framep cur k =
     (case framep of
        None \<Rightarrow> Some (ERR_INVALID_ARG, None, k)
      | Some frame \<Rightarrow>
          (case syscall_of (ucast (tf_a7 frame)) of
             None \<Rightarrow> Some (ERR_INVALID_ARG, framep, k)
           | Some sys \<Rightarrow>
               if cur \<ge> MAX_TCBS then None
               else
                 let t = tt_threads (k_tcbs k) (unat cur) in
                 if \<not> tcb_is_runnable (Some t) \<and> sys \<noteq> SYS_YIELD then Some (ERR_PARTITION_DENIED, framep, k)
                 else
                   let capp = find_cap k cur sys frame in
                   if sys \<noteq> SYS_YIELD \<and> capp = None then Some (ERR_INVALID_CAP, framep, k)
                   else if t_sched_context t \<ge> 64 then None
                   else if sc_remaining_us (s_contexts (k_sched k) (unat (t_sched_context t))) = 0
                     then Some (ERR_WCET_EXCEEDED, framep, k)
                   else (case dispatch lay k frame cur sys capp of
                      None \<Rightarrow> None
                    | Some (Inl err) \<Rightarrow> Some (err, framep, k)
                    | Some (Inr (err, k1)) \<Rightarrow>
                        if \<not> wcet_check now entry_us then Some (ERR_WCET_EXCEEDED, framep, k1)
                        else Some (err, Some (frame\<lparr>tf_a0 := kerror_val err\<rparr>), k1))))"

subsection \<open>Maps\<close>

lemma invoke_map_cases:
  assumes "invoke_map lay k cap a2 a3 = Some (err, k')" "k' \<noteq> k"
  obtains v paddr perms color vs e where "deref (lay_vs lay) (u_vspace_root_pt (c_u cap)) = Obj v"
    "vspace_map (lay_pool lay) (Some (k_vspaces k v)) (k_pt k) a2 paddr PAGE_SIZE perms color = (err, Some vs, e)"
    "k' = k\<lparr>k_pt := e, k_vspaces := (k_vspaces k)(v := vs)\<rparr>"
proof -
  obtain v paddr perms color where v: "deref (lay_vs lay) (u_vspace_root_pt (c_u cap)) = Obj v"
    and r: "(case vspace_map (lay_pool lay) (Some (k_vspaces k v)) (k_pt k) a2 paddr PAGE_SIZE perms color of
       (err, None, e) \<Rightarrow> Some (err, k\<lparr>k_pt := e\<rparr>)
     | (err, Some vs, e) \<Rightarrow> Some (err, k\<lparr>k_pt := e, k_vspaces := (k_vspaces k)(v := vs)\<rparr>)) = Some (err, k')"
    using assms by (auto simp: invoke_map_def vspace_map_def[of _ None] Let_def split: if_splits option.splits ptr.splits)
  obtain err1 vs e where "vspace_map (lay_pool lay) (Some (k_vspaces k v)) (k_pt k) a2 paddr PAGE_SIZE perms color = (err1, Some vs, e)"
    using vspace_map_space by blast
  then show ?thesis using that[OF v] r by simp
qed

subsection \<open>The capability space under system calls\<close>

lemma slot_arg_u8: "slot_arg x = ucast (ucast x :: u8)"
proof -
  have "x AND 0xFF = take_bit 8 x" by (simp add: take_bit_eq_mask mask_eq_exp_minus_1)
  then show ?thesis by (intro bit_word_eqI) (auto simp: slot_arg_def bit_simps)
qed

text \<open>A set of capabilities closed under the retyping of what lies below its members into the given types.\<close>

definition retype_closed :: "cap_type_t set \<Rightarrow> cap_t set \<Rightarrow> bool" where
  "retype_closed T S \<longleftrightarrow> (\<forall>c0\<in>S. \<forall>c sz. \<forall>nt\<in>T. cap_le c c0 \<longrightarrow> cap_can_retype c nt sz \<longrightarrow>
     (\<exists>c1\<in>S. cap_le (cap_retype c nt (u_untyped_paddr (c_u c)) sz) c1))"

lemma ret_cnodes: "k_cnodes (snd (ret k (put_cnodes k) r)) = keep (k_cnodes k) r"
  by (auto simp: ret_def put_cnodes_def split: sum.splits)

lemma put_thread_cnodes [simp]: "k_cnodes (put_thread k i t) = k_cnodes k"
  by (simp add: put_thread_def)

lemma ret_thread_cnodes [simp]: "k_cnodes (snd (ret k (put_thread k i) r)) = k_cnodes k"
  by (auto simp: ret_def split: sum.splits)

lemma invoke_cnodes_same:
  "invoke_map lay k cap a2 a3 = Some (e, k') \<Longrightarrow> k_cnodes k' = k_cnodes k"
  "invoke_tcb_resume lay k cap = Some (e, k') \<Longrightarrow> k_cnodes k' = k_cnodes k"
  "invoke_tcb_suspend lay k cap = Some (e, k') \<Longrightarrow> k_cnodes k' = k_cnodes k"
  "invoke_tcb_configure lay k cap a1 a2 a3 = Some (e, k') \<Longrightarrow> k_cnodes k' = k_cnodes k"
  "invoke_unmap lay k cap a2 a3 = Some (e, k') \<Longrightarrow> k_cnodes k' = k_cnodes k"
  "k_cnodes (snd (invoke_sched_bind k cap a1 a2 a3)) = k_cnodes k"
  subgoal by (auto simp: invoke_map_def Let_def split: if_splits option.splits ptr.splits prod.splits)
  subgoal by (auto simp: invoke_tcb_resume_def Let_def split: if_splits ptr.splits option.splits sum.splits)
  subgoal by (auto simp: invoke_tcb_suspend_def split: if_splits ptr.splits option.splits)
  subgoal by (auto simp: invoke_tcb_configure_def Let_def ret_def split: if_splits ptr.splits option.splits sum.splits)
  subgoal by (auto simp: invoke_unmap_def split: if_splits ptr.splits prod.splits)
  subgoal by (auto simp: invoke_sched_bind_def ret_def split: sum.splits)
  done

text \<open>The types a system call may retype memory into: all, unless it is a retype invocation.\<close>

definition retypes_into :: "cap_type_t set \<Rightarrow> trap_frame_t \<Rightarrow> bool" where
  "retypes_into T f \<longleftrightarrow> (syscall_of (ucast (tf_a7 f)) = Some SYS_INVOKE \<longrightarrow>
     invoke_op_of (ucast (tf_a1 f AND 0xFF)) = INV_UNTYPED_RETYPE \<longrightarrow> cap_type_of (ucast (tf_a2 f)) \<in> T)"

lemma retypes_into_UNIV [simp]: "retypes_into UNIV f"
  by (simp add: retypes_into_def)

text \<open>Every invocation changes the capability space by one node operation, by a retype, or not at all.\<close>

lemma retype_effect:
  "k_cnodes (snd (invoke_retype k cap a1 a2 a3)) = k_cnodes k \<or>
   (\<exists>i. i < 256 \<and> cap_can_retype cap (cap_type_of (ucast a2)) a3 \<and> caps_of (k_cnodes k) (0, i) = None \<and>
      caps_of (k_cnodes (snd (invoke_retype k cap a1 a2 a3))) =
        (caps_of (k_cnodes k))((0, i) \<mapsto> cap_retype cap (cap_type_of (ucast a2)) (u_untyped_paddr (c_u cap)) a3))"
proof -
  let ?d = "if slot_arg (drop_bit 8 a1) = 0 then 5 else slot_arg (drop_bit 8 a1)" and ?nt = "cap_type_of (ucast a2)"
  have d: "unat ?d < 256" by (simp add: slot_arg_u8)
  show ?thesis
  proof (cases "k_cnodes (snd (invoke_retype k cap a1 a2 a3)) = k_cnodes k")
    case False
    then have "cap_can_retype cap ?nt a3" "c_is_valid (cap_retype cap ?nt (u_untyped_paddr (c_u cap)) a3) \<noteq> 0"
      "c_is_valid (cn_slots (k_cnodes k 0) (unat ?d)) = 0"
      "k_cnodes (snd (invoke_retype k cap a1 a2 a3)) = (k_cnodes k)(0 := (set_slot (unat ?d)
         (cap_retype cap ?nt (u_untyped_paddr (c_u cap)) a3) (k_cnodes k 0))\<lparr>cn_used := cn_used (k_cnodes k 0) + 1\<rparr>)"
      unfolding invoke_retype_def Let_def by (auto split: if_splits)
    then have "unat ?d < 256 \<and> cap_can_retype cap ?nt a3 \<and> caps_of (k_cnodes k) (0, unat ?d) = None \<and>
      caps_of (k_cnodes (snd (invoke_retype k cap a1 a2 a3))) =
        (caps_of (k_cnodes k))((0, unat ?d) \<mapsto> cap_retype cap ?nt (u_untyped_paddr (c_u cap)) a3)"
      using d by (simp only: caps_of_upd) (simp add: caps_of_def)
    then show ?thesis by blast
  qed simp
qed

lemma retype_bounded:
  assumes "bounded_by S (k_cnodes k)" "retype_closed T S" "caps_of (k_cnodes k) p = Some cap"
    and "cap_type_of (ucast a2) \<in> T"
  shows "bounded_by S (k_cnodes (snd (invoke_retype k cap a1 a2 a3)))"
proof -
  obtain c0 where c0: "c0 \<in> S" "cap_le cap c0" using bounded_byD[OF assms(1)] assms(3) by (cases p) blast
  consider "k_cnodes (snd (invoke_retype k cap a1 a2 a3)) = k_cnodes k"
    | i where "cap_can_retype cap (cap_type_of (ucast a2)) a3" "caps_of (k_cnodes (snd (invoke_retype k cap a1 a2 a3))) =
        (caps_of (k_cnodes k))((0, i) \<mapsto> cap_retype cap (cap_type_of (ucast a2)) (u_untyped_paddr (c_u cap)) a3)"
    using retype_effect[of k cap a1 a2 a3] by blast
  then show ?thesis
  proof cases
    case 2
    then obtain c1 where "c1 \<in> S" "cap_le (cap_retype cap (cap_type_of (ucast a2)) (u_untyped_paddr (c_u cap)) a3) c1"
      using assms(2,4) c0 unfolding retype_closed_def by blast
    then show ?thesis using 2(2) bounded_byD[OF assms(1)] by (intro bounded_byI) (metis fun_upd_apply option.inject)
  qed (use assms(1) in simp)
qed

lemma handle_invoke_bounded:
  assumes "bounded_by S (k_cnodes k)" "retype_closed T S" "\<And>cap. capp = Some cap \<Longrightarrow> caps_of (k_cnodes k) p = Some cap"
    and "handle_invoke lay k capp op a1 a2 a3 = Some (err, k')" "op = INV_UNTYPED_RETYPE \<Longrightarrow> cap_type_of (ucast a2) \<in> T"
  shows "bounded_by S (k_cnodes k')"
proof (cases "capp \<noteq> None \<and> cap_is_valid capp")
  case True
  then obtain cap' where cap': "capp = Some cap'" "cap_is_valid (Some cap')" by auto
  note H = assms(4)[unfolded handle_invoke_def cap'(1) option.case] cap'(2) and N = node_op_bounded[OF assms(1)]
  have ret: "bounded_by S (k_cnodes k')" if "ret k (put_cnodes k) r = (err, k')" "bounded_by S (keep (k_cnodes k) r)" for r
    using ret_cnodes[of k r] that by simp
  show ?thesis
  proof (cases op)
    case INV_UNTYPED_RETYPE
    then have "k' = snd (invoke_retype k cap' a1 a2 a3)" using H by simp
    moreover have "caps_of (k_cnodes k) p = Some cap'" using assms(3)[OF cap'(1)] .
    ultimately show ?thesis using retype_bounded[OF assms(1,2)] assms(5) INV_UNTYPED_RETYPE by blast
  next
    case INV_CNODE_COPY
    then show ?thesis using H assms(1) N(1) ret by (auto split: if_splits)
  next
    case INV_CNODE_MINT
    then show ?thesis using H assms(1) N(2) ret by (auto split: if_splits)
  next
    case INV_CNODE_MOVE
    then show ?thesis using H assms(1) N(3) ret by (auto split: if_splits)
  next
    case INV_CNODE_DELETE
    then show ?thesis using H assms(1) N(4) ret by (auto split: if_splits)
  next
    case INV_SCHED_BIND
    then have "k' = snd (invoke_sched_bind k cap' a1 a2 a3)" using H by simp
    then show ?thesis using assms(1) invoke_cnodes_same(6) by simp
  qed (use H assms(1) invoke_cnodes_same(1-5) in auto)
next
  case False
  then have "k' = k" using assms(4) by (auto simp: handle_invoke_def split: option.splits)
  then show ?thesis using assms(1) by simp
qed

lemma find_cap_Some:
  assumes "find_cap k cur sys frame = Some c"
  shows "\<exists>p. caps_of (k_cnodes k) p = Some c" "c_is_valid c \<noteq> 0" "cheri_tag_get (c_hw_cap c)"
proof -
  have "\<exists>q idx n i. cnode_lookup (k_cnodes k) q idx = Some i \<and> q = Some n \<and> c = cn_slots (k_cnodes k n) i"
    using assms by (auto simp: find_cap_def Let_def split: option.splits if_splits)
  then obtain idx n i where l: "cnode_lookup (k_cnodes k) (Some n) idx = Some i" and c: "c = cn_slots (k_cnodes k n) i" by blast
  show "\<exists>p. caps_of (k_cnodes k) p = Some c" "c_is_valid c \<noteq> 0" "cheri_tag_get (c_hw_cap c)"
    using cnode_lookup_Some[OF l] c by auto
qed

lemma send_to_cnodes: "send_to lay k p cur msg = Some (err, k1) \<Longrightarrow> k_cnodes k1 = k_cnodes k"
  by (auto simp: send_to_def ret_def split: ptr.splits sum.splits)

lemma set_state_cnodes [simp]: "k_cnodes (set_state k cur st) = k_cnodes k"
  by (simp add: set_state_def)

lemma ipc_cnodes:
  "sys_call lay k cur cap a1 = Some (Inr (err, k1)) \<Longrightarrow> k_cnodes k1 = k_cnodes k"
  "sys_send lay k cur cap a1 = Some (Inr (err, k1)) \<Longrightarrow> k_cnodes k1 = k_cnodes k"
  "sys_reply_recv lay k cur cap = Some (Inr (err, k1)) \<Longrightarrow> k_cnodes k1 = k_cnodes k"
  subgoal by (auto simp: sys_call_def Let_def bind_eq_Some_conv send_to_cnodes split: if_splits)
  subgoal by (auto simp: sys_send_def Let_def bind_eq_Some_conv send_to_cnodes split: if_splits)
  subgoal by (auto simp: sys_reply_recv_def Let_def split: if_splits ptr.splits sum.splits prod.splits option.splits)
  done

lemma dispatch_bounded:
  assumes "bounded_by S (k_cnodes k)" "retype_closed T S" "\<And>cap. capp = Some cap \<Longrightarrow> \<exists>p. caps_of (k_cnodes k) p = Some cap"
    and "dispatch lay k frame cur sys capp = Some (Inr (err, k1))" "retypes_into T frame" "syscall_of (ucast (tf_a7 frame)) = Some sys"
  shows "bounded_by S (k_cnodes k1)"
proof (cases "sys = SYS_INVOKE")
  case True
  obtain p where p: "\<And>cap. capp = Some cap \<Longrightarrow> caps_of (k_cnodes k) p = Some cap" using assms(3) by (cases capp) auto
  show ?thesis using assms(4-6) True handle_invoke_bounded[OF assms(1,2) p] by (auto simp: dispatch_def retypes_into_def)
next
  case False
  then have "k_cnodes k1 = k_cnodes k"
    using assms(4) ipc_cnodes by (cases sys) (auto simp: dispatch_def bind_eq_Some_conv)
  then show ?thesis using assms(1) by simp
qed

text \<open>A call that changes the state passed every check and went through the dispatch.\<close>

lemma syscall_handler_cases:
  assumes "syscall_handler lay t0 t1 (Some f) cur k = Some (err, f', k')"
  shows "k' = k \<or> (\<exists>sys err1. syscall_of (ucast (tf_a7 f)) = Some sys \<and> unat cur < 128 \<and>
      (sys = SYS_YIELD \<or> t_state (tt_threads (k_tcbs k) (unat cur)) = TCB_RUNNABLE \<and> find_cap k cur sys f \<noteq> None) \<and>
      unat (t_sched_context (tt_threads (k_tcbs k) (unat cur))) < 64 \<and>
      sc_remaining_us (s_contexts (k_sched k) (unat (t_sched_context (tt_threads (k_tcbs k) (unat cur))))) \<noteq> 0 \<and>
      dispatch lay k f cur sys (find_cap k cur sys f) = Some (Inr (err1, k')))"
proof (cases "syscall_of (ucast (tf_a7 f))")
  case None
  then show ?thesis using assms by (simp add: syscall_handler_def)
next
  case (Some sys)
  note H = assms[unfolded syscall_handler_def option.case Some Let_def]
  show ?thesis
  proof (cases "dispatch lay k f cur sys (find_cap k cur sys f)")
    case None
    then show ?thesis using H by (auto simp del: not_None_eq split: if_splits)
  next
    case d: (Some r)
    show ?thesis
    proof (cases r)
      case (Inl e)
      then show ?thesis using H d by (auto simp del: not_None_eq split: if_splits)
    next
      case (Inr ek)
      then show ?thesis using H d Some
        by (auto simp del: not_None_eq simp: word_le_nat_alt tcb_is_runnable_def split: if_splits prod.splits)
    qed
  qed
qed

lemma syscall_bounded:
  assumes "bounded_by S (k_cnodes k)" "retype_closed T S" "syscall_handler lay t0 t1 (Some f) cur k = Some (err, f', k')"
    and "retypes_into T f"
  shows "bounded_by S (k_cnodes k')"
proof (cases "k' = k")
  case False
  then obtain sys e1 where "dispatch lay k f cur sys (find_cap k cur sys f) = Some (Inr (e1, k'))" "syscall_of (ucast (tf_a7 f)) = Some sys"
    using syscall_handler_cases[OF assms(3)] by blast
  moreover have "\<exists>p. caps_of (k_cnodes k) p = Some cap" if "find_cap k cur sys f = Some cap" for cap
    using find_cap_Some(1)[OF that] .
  ultimately show ?thesis using dispatch_bounded[OF assms(1,2) _ _ assms(4)] by metis
qed (use assms(1) in simp)

text \<open>A system call: the two readings of the clock, the registers and the calling thread.\<close>

type_synonym sysop = "u64 \<times> u64 \<times> trap_frame_t \<times> u32"

fun sys_step :: "layout \<Rightarrow> kstate \<Rightarrow> sysop \<Rightarrow> kstate option" where
  "sys_step lay k (t0, t1, f, cur) = map_option (\<lambda>(_, _, k'). k') (syscall_handler lay t0 t1 (Some f) cur k)"

fun call_frame :: "sysop \<Rightarrow> trap_frame_t" where "call_frame (t0, t1, f, cur) = f"

interpretation sysm: guarded_partial_machine "sys_step lay" "\<lambda>k. bounded_by S (k_cnodes k) \<and> retype_closed T S"
  "\<lambda>a. retypes_into T (call_frame a)" for lay S T
proof
  fix k a k1
  assume "bounded_by S (k_cnodes k) \<and> retype_closed T S" "retypes_into T (call_frame a)" "sys_step lay k a = Some k1"
  then show "bounded_by S (k_cnodes k1) \<and> retype_closed T S"
    using syscall_bounded by (cases a) auto
qed

subsection \<open>Confinement to a region of memory\<close>

text \<open>
  The hardware bounds, unless they are empty, the memory of an untyped capability and the page a
  frame capability lets its holder map lie in the region.
\<close>

definition region_cap :: "nat \<Rightarrow> nat \<Rightarrow> cap_t \<Rightarrow> bool" where
  "region_cap lo hi c \<longleftrightarrow>
     (hw_base (c_hw_cap c) < hw_top (c_hw_cap c) \<longrightarrow> lo \<le> unat (hw_base (c_hw_cap c)) \<and> unat (hw_top (c_hw_cap c)) \<le> hi) \<and>
     (c_type c = CAP_FRAME \<longrightarrow> lo \<le> unat (u_frame_paddr (c_u c)) \<and> unat (u_frame_paddr (c_u c)) + 4096 \<le> hi) \<and>
     (c_type c = CAP_UNTYPED \<longrightarrow> lo \<le> unat (u_untyped_paddr (c_u c)) \<and> unat (u_untyped_paddr (c_u c)) + unat (u_untyped_size (c_u c)) \<le> hi)"

lemma region_cap_le: "cap_le c c0 \<Longrightarrow> region_cap lo hi c0 \<Longrightarrow> region_cap lo hi c"
  by (simp add: cap_le_def region_cap_def)

lemma retype_region:
  assumes "hi < 2 ^ 64" "region_cap lo hi c" "cap_can_retype c nt sz"
  shows "region_cap lo hi (cap_retype c nt (u_untyped_paddr (c_u c)) sz)"
proof -
  have c: "c_type c = CAP_UNTYPED" "sz \<le> u_untyped_size (c_u c)" "nt \<noteq> CAP_UNTYPED" "4096 \<le> unat sz"
    using assms(3) by (auto simp: cap_can_retype_def not_less word_le_nat_alt split: if_splits)
  have le: "lo \<le> unat (u_untyped_paddr (c_u c))" "unat (u_untyped_paddr (c_u c)) + unat sz \<le> hi"
    using assms(2) c(1,2) by (simp_all add: region_cap_def word_le_nat_alt)
  then have "unat (u_untyped_paddr (c_u c) + sz) = unat (u_untyped_paddr (c_u c)) + unat sz"
    using assms(1) by (subst unat_add_lem[THEN iffD1]) simp_all
  then show ?thesis using le assms(3) c(3,4) by (simp add: cap_retype_def region_cap_def union_defs)
qed

lemma region_retype_closed: "hi < 2 ^ 64 \<Longrightarrow> retype_closed T {c. region_cap lo hi c}"
  unfolding retype_closed_def using retype_region region_cap_le cap_le_refl by blast

lemma region_bounded_iff: "bounded_by {c. region_cap lo hi c} h \<longleftrightarrow> (\<forall>c\<in>ran (caps_of h). region_cap lo hi c)"
  unfolding bounded_by_def using region_cap_le cap_le_refl by blast

subsection \<open>Properties\<close>

definition demo_cap :: cap_t where
  "demo_cap = zero_cap\<lparr>c_type := CAP_UNTYPED, c_is_valid := 1, c_rights := 15,
     c_u := zero_u\<lparr>uw0 := 0x90000000, uw1 := 0x10000\<rparr>,
     c_hw_cap := zero_sim_cap\<lparr>hw_base := 0x90000000, hw_top := 0x90010000, hw_tag := 1\<rparr>\<rparr>"

definition demo_frame :: "u64 \<Rightarrow> u64 \<Rightarrow> u64 \<Rightarrow> u64 \<Rightarrow> u64 \<Rightarrow> trap_frame_t" where
  "demo_frame n a0 a1 a2 a3 = \<lparr>tf_ra = 0, tf_sp = 0, tf_gp = 0, tf_tp = 0, tf_t = (\<lambda>_. 0), tf_a0 = a0, tf_a1 = a1, tf_a2 = a2,
     tf_a3 = a3, tf_a4 = 0, tf_a5 = 0, tf_a6 = 0, tf_a7 = n, tf_s = (\<lambda>_. 0), tf_pc = 0, tf_cause = 8\<rparr>"

definition demo_lay :: layout where
  "demo_lay = \<lparr>lay_ep = (\<lambda>p. if p = 0x1000 then Some 0 else None), lay_tcb = (\<lambda>_. None), lay_vs = (\<lambda>_. None), lay_pool = 0\<rparr>"

text \<open>One runnable thread whose capability space is the root node, with a capability in slot 1.\<close>

definition demo_k :: "cap_t \<Rightarrow> kstate" where
  "demo_k c = \<lparr>k_tcbs = \<lparr>tt_threads = (\<lambda>_. zero_tcb\<lparr>t_state := TCB_RUNNABLE, t_cspace := Some 0\<rparr>), tt_count = 1\<rparr>,
     k_endpoints = (\<lambda>_. zero_endpoint),
     k_sched = sched_init\<lparr>s_contexts := (\<lambda>_. zero_sched_context\<lparr>sc_bound := True, sc_remaining_us := 10\<rparr>)\<rparr>,
     k_cnodes = (\<lambda>_. zero_cnode\<lparr>cn_radix := 8, cn_slots := (\<lambda>_. zero_cap)(1 := c)\<rparr>),
     k_mdb = mdb_init, k_vspaces = (\<lambda>_. demo_vs), k_pt = demo_env\<rparr>"

lemma demo_direct: "direct_node (k_cnodes (demo_k c) n)"
  by (simp add: demo_k_def direct_node_def zero_cnode_def)

lemma demo_k_caps: "ran (caps_of (k_cnodes (demo_k c))) \<subseteq> {c}"
  by (auto simp: demo_k_def caps_of_def ran_def split: if_splits)

lemma demo_find:
  assumes "c_is_valid c \<noteq> 0" "cheri_tag_get (c_hw_cap c)"
  shows "find_cap (demo_k c) 0 sys (demo_frame n 1 a1 a2 a3) = Some c"
proof -
  have "cnode_lookup (k_cnodes (demo_k c)) (Some 0) 1 = Some 1"
    using assms by (subst cnode_lookup_direct[OF demo_direct]) (simp_all add: demo_k_def)
  then show ?thesis by (simp add: find_cap_def demo_frame_def) (simp add: demo_k_def)
qed

text \<open>
  C4 (safety). Spatial confinement across the system-call interface: if the bounds of every capability
  of every node lie within a region of memory, and so do the memory of every untyped capability and
  the page of every frame capability, then after any sequence of system calls, by any threads with any
  register contents, all of this still holds. Retyping included, no call manufactures authority over
  memory outside the region.
\<close>

theorem syscalls_confined:
  assumes "\<forall>c\<in>ran (caps_of (k_cnodes k)). region_cap lo hi c" "hi < 2 ^ 64"
    and "run_steps (sys_step lay) k calls = Some k'" "c \<in> ran (caps_of (k_cnodes k'))"
  shows "region_cap lo hi c"
proof -
  have "bounded_by {c. region_cap lo hi c} (k_cnodes k')"
    using sysm.run_inv[OF assms(3), of UNIV "{c. region_cap lo hi c}"] assms(1,2) region_bounded_iff region_retype_closed by auto
  then show ?thesis using assms(4) region_bounded_iff by blast
qed

lemma syscall_handler_passes:
  assumes "syscall_of (ucast (tf_a7 f)) = Some sys" "cur < MAX_TCBS" "t_state (tt_threads (k_tcbs k) (unat cur)) = TCB_RUNNABLE"
    and "find_cap k cur sys f = Some cap" "t_sched_context (tt_threads (k_tcbs k) (unat cur)) < 64"
    and "sc_remaining_us (s_contexts (k_sched k) (unat (t_sched_context (tt_threads (k_tcbs k) (unat cur))))) \<noteq> 0"
    and "dispatch lay k f cur sys (Some cap) = Some (Inr (err, k1))"
  shows "syscall_handler lay t0 t1 (Some f) cur k =
    (if wcet_check t1 t0 then Some (err, Some (f\<lparr>tf_a0 := kerror_val err\<rparr>), k1) else Some (ERR_WCET_EXCEEDED, Some f, k1))"
  using assms unfolding syscall_handler_def by (simp add: tcb_is_runnable_def not_le[symmetric])

lemma demo_passes:
  assumes "c_is_valid c \<noteq> 0" "cheri_tag_get (c_hw_cap c)" "syscall_of (ucast n) = Some sys"
    and "dispatch lay (demo_k c) (demo_frame n 1 a1 a2 a3) 0 sys (Some c) = Some (Inr (err, k1))"
  shows "syscall_handler lay t0 t1 (Some (demo_frame n 1 a1 a2 a3)) 0 (demo_k c) =
    (if wcet_check t1 t0 then Some (err, Some ((demo_frame n 1 a1 a2 a3)\<lparr>tf_a0 := kerror_val err\<rparr>), k1)
     else Some (ERR_WCET_EXCEEDED, Some (demo_frame n 1 a1 a2 a3), k1))"
proof (rule syscall_handler_passes[OF _ _ _ demo_find[OF assms(1,2)] _ _ assms(4)])
  show "syscall_of (ucast (tf_a7 (demo_frame n 1 a1 a2 a3))) = Some sys" using assms(3) by (simp add: demo_frame_def)
qed (simp_all add: demo_k_def zero_tcb_def)

lemma demo_retype:
  obtains k1 where "dispatch lay (demo_k demo_cap) (demo_frame 5 1 0x0600 5 0x1000) 0 SYS_INVOKE (Some demo_cap) = Some (Inr (ERR_OK, k1))"
    and "k_cnodes k1 = (k_cnodes (demo_k demo_cap))(0 := (set_slot 6 (cap_retype demo_cap CAP_FRAME 0x90000000 0x1000)
           (k_cnodes (demo_k demo_cap) 0))\<lparr>cn_used := cn_used (k_cnodes (demo_k demo_cap) 0) + 1\<rparr>)"
proof -
  have can: "cap_can_retype demo_cap CAP_FRAME 0x1000" by (simp add: cap_can_retype_def demo_cap_def union_defs)
  have v: "c_is_valid (cap_retype demo_cap CAP_FRAME 0x90000000 0x1000) = 1" using can by (simp add: cap_retype_def)
  have s: "slot_arg (drop_bit 8 0x0600) = 6" "cap_type_of 5 = CAP_FRAME" by (simp_all add: slot_arg_def cap_type_of_def)
  have e: "c_is_valid (cn_slots (k_cnodes (demo_k demo_cap) 0) 6) = 0" by (simp add: demo_k_def zero_cap_def)
  have a: "u_untyped_paddr (c_u demo_cap) = 0x90000000" by (simp add: demo_cap_def union_defs)
  have cv: "cap_is_valid (Some demo_cap)" by (simp add: cap_is_valid_def demo_cap_def cheri_tag_get_def)
  have "handle_invoke lay (demo_k demo_cap) (Some demo_cap) INV_UNTYPED_RETYPE 0x0600 5 0x1000 =
      Some (invoke_retype (demo_k demo_cap) demo_cap 0x0600 5 0x1000)" using cv by (simp add: handle_invoke_def)
  moreover obtain k1 where "invoke_retype (demo_k demo_cap) demo_cap 0x0600 5 0x1000 = (ERR_OK, k1)" and "k_cnodes k1 = (k_cnodes (demo_k demo_cap))(0 := (set_slot 6 (cap_retype demo_cap CAP_FRAME 0x90000000 0x1000)
           (k_cnodes (demo_k demo_cap) 0))\<lparr>cn_used := cn_used (k_cnodes (demo_k demo_cap) 0) + 1\<rparr>)"
    using can v s e a unfolding invoke_retype_def Let_def by simp
  ultimately show ?thesis using that by (simp add: dispatch_def demo_frame_def invoke_op_of_def)
qed

lemma demo_sys_step:
  obtains k1 where "sys_step lay (demo_k demo_cap) (0, 0, demo_frame 5 1 0x0600 5 0x1000, 0) = Some k1"
    and "caps_of (k_cnodes k1) (0, 6) = Some (cap_retype demo_cap CAP_FRAME 0x90000000 0x1000)"
proof -
  obtain k1 where d: "dispatch lay (demo_k demo_cap) (demo_frame 5 1 0x0600 5 0x1000) 0 SYS_INVOKE (Some demo_cap) = Some (Inr (ERR_OK, k1))"
    and c: "k_cnodes k1 = (k_cnodes (demo_k demo_cap))(0 := (set_slot 6 (cap_retype demo_cap CAP_FRAME 0x90000000 0x1000)
           (k_cnodes (demo_k demo_cap) 0))\<lparr>cn_used := cn_used (k_cnodes (demo_k demo_cap) 0) + 1\<rparr>)"
    by (rule demo_retype)
  have "c_is_valid demo_cap \<noteq> 0" "cheri_tag_get (c_hw_cap demo_cap)" "syscall_of (ucast (5 :: u64)) = Some SYS_INVOKE"
    by (simp_all add: demo_cap_def cheri_tag_get_def syscall_of_def)
  from demo_passes[OF this d] have "sys_step lay (demo_k demo_cap) (0, 0, demo_frame 5 1 0x0600 5 0x1000, 0) = Some k1"
    by (simp add: wcet_check_def)
  moreover have "c_is_valid (cap_retype demo_cap CAP_FRAME 0x90000000 0x1000) \<noteq> 0"
    by (simp add: cap_retype_def cap_can_retype_def demo_cap_def union_defs)
  then have "caps_of (k_cnodes k1) (0, 6) = Some (cap_retype demo_cap CAP_FRAME 0x90000000 0x1000)"
    unfolding c by (simp add: caps_of_def)
  ultimately show ?thesis using that by blast
qed

theorem syscalls_confined_witness:
  "\<exists>k'. run_steps (sys_step demo_lay) (demo_k demo_cap) [(0, 0, demo_frame 5 1 0x0600 5 0x1000, 0)] = Some k' \<and>
     (\<forall>c\<in>ran (caps_of (k_cnodes k')). region_cap 0x90000000 0x90010000 c) \<and>
     caps_of (k_cnodes k') (0, 6) = Some (cap_retype demo_cap CAP_FRAME 0x90000000 0x1000)"
proof -
  obtain k1 where k1: "sys_step demo_lay (demo_k demo_cap) (0, 0, demo_frame 5 1 0x0600 5 0x1000, 0) = Some k1"
    "caps_of (k_cnodes k1) (0, 6) = Some (cap_retype demo_cap CAP_FRAME 0x90000000 0x1000)"
    by (rule demo_sys_step)
  have "region_cap 0x90000000 0x90010000 demo_cap" by (simp add: region_cap_def demo_cap_def union_defs)
  then have "\<forall>c\<in>ran (caps_of (k_cnodes (demo_k demo_cap))). region_cap 0x90000000 0x90010000 c"
    using demo_k_caps[of demo_cap] by blast
  moreover have r: "run_steps (sys_step demo_lay) (demo_k demo_cap) [(0, 0, demo_frame 5 1 0x0600 5 0x1000, 0)] = Some k1"
    using k1(1) by simp
  ultimately have "\<forall>c\<in>ran (caps_of (k_cnodes k1)). region_cap 0x90000000 0x90010000 c"
    using syscalls_confined by fastforce
  then show ?thesis using r k1(2) by blast
qed

end
