(* ===== verification/SyscallProps.thy ===== *)
theory SyscallProps
  imports Syscall
begin

text \<open>
  Properties of the system-call interface that span the kernel's components: complete mediation,
  messages carried from one thread to another, what an error reports, and the weaknesses of the
  interface the model shows.
\<close>

subsection \<open>Complete mediation\<close>

text \<open>The kind of capability an invocation needs; binding a scheduling context needs any.\<close>

fun invoke_needs :: "invoke_op_t \<Rightarrow> cap_type_t option" where
  "invoke_needs INV_UNTYPED_RETYPE = Some CAP_UNTYPED"
| "invoke_needs INV_CNODE_COPY = Some CAP_CNODE"
| "invoke_needs INV_CNODE_MINT = Some CAP_CNODE"
| "invoke_needs INV_CNODE_MOVE = Some CAP_CNODE"
| "invoke_needs INV_CNODE_DELETE = Some CAP_CNODE"
| "invoke_needs INV_TCB_CONFIGURE = Some CAP_TCB"
| "invoke_needs INV_TCB_RESUME = Some CAP_TCB"
| "invoke_needs INV_TCB_SUSPEND = Some CAP_TCB"
| "invoke_needs INV_VSPACE_MAP = Some CAP_VSPACE"
| "invoke_needs INV_VSPACE_UNMAP = Some CAP_VSPACE"
| "invoke_needs INV_FRAME_MAP = Some CAP_VSPACE"
| "invoke_needs INV_SCHED_BIND = None"
| "invoke_needs (INV_OTHER _) = None"

fun authorises :: "syscall_t \<Rightarrow> invoke_op_t \<Rightarrow> cap_t \<Rightarrow> bool" where
  "authorises SYS_CALL _ cap \<longleftrightarrow> c_type cap = CAP_ENDPOINT \<and> cap_has_right cap (CAP_RIGHTS_READ OR CAP_RIGHTS_WRITE)"
| "authorises SYS_REPLY_RECV _ cap \<longleftrightarrow> c_type cap = CAP_ENDPOINT"
| "authorises SYS_SEND _ cap \<longleftrightarrow> c_type cap = CAP_ENDPOINT"
| "authorises SYS_INVOKE op cap \<longleftrightarrow> (\<forall>t. invoke_needs op = Some t \<longrightarrow> c_type cap = t)"
| "authorises SYS_YIELD _ cap \<longleftrightarrow> False"
| "authorises SYS_SEAL _ cap \<longleftrightarrow> False"

lemma retype_needs_untyped: "c_type cap \<noteq> CAP_UNTYPED \<Longrightarrow> invoke_retype k cap a1 a2 a3 = (ERR_INVALID_ARG, k)"
  by (simp add: invoke_retype_def cap_can_retype_def Let_def)

lemma invoke_unauthorised:
  assumes "handle_invoke lay k (Some cap) op a1 a2 a3 = Some (err, k1)" "invoke_needs op = Some t" "c_type cap \<noteq> t"
  shows "k1 = k"
  using assms retype_needs_untyped
  by (cases op) (auto simp: handle_invoke_def invoke_map_def invoke_tcb_resume_def invoke_tcb_suspend_def
      invoke_tcb_configure_def invoke_unmap_def split: if_splits)

lemma dispatch_authorised:
  assumes "dispatch lay k f cur sys capp = Some (Inr (err, k1))" "k1 \<noteq> k"
  obtains cap where "capp = Some cap" "authorises sys (invoke_op_of (ucast (tf_a1 f AND 0xFF))) cap"
proof (cases capp)
  case None
  then show ?thesis using assms by (cases sys) (auto simp: dispatch_def handle_invoke_def)
next
  case (Some cap)
  have "authorises sys (invoke_op_of (ucast (tf_a1 f AND 0xFF))) cap"
  proof (cases sys)
    case SYS_INVOKE
    then have "handle_invoke lay k (Some cap) (invoke_op_of (ucast (tf_a1 f AND 0xFF))) (tf_a1 f) (tf_a2 f) (tf_a3 f) = Some (err, k1)"
      using assms(1) Some by (auto simp: dispatch_def)
    from invoke_unauthorised[OF this] show ?thesis using SYS_INVOKE assms(2) by auto
  qed (use assms Some in \<open>auto simp: dispatch_def sys_call_def sys_send_def sys_reply_recv_def split: if_splits\<close>)
  then show ?thesis using Some that by blast
qed

lemma syscall_mediated_state:
  assumes "syscall_handler lay t0 t1 (Some f) cur k = Some (err, f', k')" "k' \<noteq> k"
  shows "\<exists>sys cap p. syscall_of (ucast (tf_a7 f)) = Some sys \<and> unat cur < 128 \<and>
    t_state (tt_threads (k_tcbs k) (unat cur)) = TCB_RUNNABLE \<and>
    sc_remaining_us (s_contexts (k_sched k) (unat (t_sched_context (tt_threads (k_tcbs k) (unat cur))))) \<noteq> 0 \<and>
    find_cap k cur sys f = Some cap \<and> caps_of (k_cnodes k) p = Some cap \<and> cheri_tag_get (c_hw_cap cap) \<and>
    authorises sys (invoke_op_of (ucast (tf_a1 f AND 0xFF))) cap"
proof -
  obtain sys err1 where s: "syscall_of (ucast (tf_a7 f)) = Some sys" "unat cur < 128"
      "sys = SYS_YIELD \<or> t_state (tt_threads (k_tcbs k) (unat cur)) = TCB_RUNNABLE"
      "sc_remaining_us (s_contexts (k_sched k) (unat (t_sched_context (tt_threads (k_tcbs k) (unat cur))))) \<noteq> 0"
      "dispatch lay k f cur sys (find_cap k cur sys f) = Some (Inr (err1, k'))"
    using syscall_handler_cases[OF assms(1)] assms(2) by blast
  obtain cap where cap: "find_cap k cur sys f = Some cap" "authorises sys (invoke_op_of (ucast (tf_a1 f AND 0xFF))) cap"
    using dispatch_authorised[OF s(5) assms(2)] by blast
  obtain p where "caps_of (k_cnodes k) p = Some cap" using find_cap_Some(1)[OF cap(1)] by blast
  moreover have "sys \<noteq> SYS_YIELD" using cap(2) by auto
  ultimately show ?thesis using s cap find_cap_Some(3)[OF cap(1)] by blast
qed

text \<open>
  C7 (safety). Complete mediation: a system call that changes anything in the kernel was made by a
  runnable thread whose scheduling context has budget left, and named a slot that holds a valid
  capability with its tag set, of the type the operation needs (and with read and write rights for
  a call). Without such a capability no register contents change the kernel's state.
\<close>

theorem syscall_mediated:
  assumes "syscall_handler lay t0 t1 (Some f) cur k = Some (err, f', k')" "k' \<noteq> k"
  shows "\<exists>sys cap p. syscall_of (ucast (tf_a7 f)) = Some sys \<and> unat cur < 128 \<and>
    t_state (tt_threads (k_tcbs k) (unat cur)) = TCB_RUNNABLE \<and>
    sc_remaining_us (s_contexts (k_sched k) (unat (t_sched_context (tt_threads (k_tcbs k) (unat cur))))) \<noteq> 0 \<and>
    find_cap k cur sys f = Some cap \<and> caps_of (k_cnodes k) p = Some cap \<and> cheri_tag_get (c_hw_cap cap) \<and>
    authorises sys (invoke_op_of (ucast (tf_a1 f AND 0xFF))) cap"
  by (rule syscall_mediated_state[OF assms])

theorem syscall_mediated_witness:
  "\<exists>sys cap p. syscall_of (ucast (tf_a7 (demo_frame 5 1 0x0600 5 0x1000))) = Some sys \<and> unat (0 :: u32) < 128 \<and>
    t_state (tt_threads (k_tcbs (demo_k demo_cap)) (unat (0 :: u32))) = TCB_RUNNABLE \<and>
    sc_remaining_us (s_contexts (k_sched (demo_k demo_cap)) (unat (t_sched_context (tt_threads (k_tcbs (demo_k demo_cap)) (unat (0 :: u32)))))) \<noteq> 0 \<and>
    find_cap (demo_k demo_cap) 0 sys (demo_frame 5 1 0x0600 5 0x1000) = Some cap \<and>
    caps_of (k_cnodes (demo_k demo_cap)) p = Some cap \<and> cheri_tag_get (c_hw_cap cap) \<and>
    authorises sys (invoke_op_of (ucast (tf_a1 (demo_frame 5 1 0x0600 5 0x1000) AND 0xFF))) cap"
proof -
  obtain k1 where k1: "sys_step demo_lay (demo_k demo_cap) (0, 0, demo_frame 5 1 0x0600 5 0x1000, 0) = Some k1"
    "caps_of (k_cnodes k1) (0, 6) = Some (cap_retype demo_cap CAP_FRAME 0x90000000 0x1000)"
    by (rule demo_sys_step)
  have "caps_of (k_cnodes (demo_k demo_cap)) (0, 6) = None" by (simp add: caps_of_def demo_k_def zero_cap_def)
  then have "k1 \<noteq> demo_k demo_cap" using k1(2) by auto
  moreover obtain err f' where "syscall_handler demo_lay 0 0 (Some (demo_frame 5 1 0x0600 5 0x1000)) 0 (demo_k demo_cap) = Some (err, f', k1)"
    using k1(1) by auto
  ultimately show ?thesis using syscall_mediated by blast
qed

subsection \<open>A message from one thread to another\<close>

text \<open>A call that passes the checks before the dispatch, with the capability it names.\<close>

definition admitted :: "kstate \<Rightarrow> u32 \<Rightarrow> syscall_t \<Rightarrow> trap_frame_t \<Rightarrow> cap_t \<Rightarrow> bool" where
  "admitted k cur sys f cap \<longleftrightarrow> syscall_of (ucast (tf_a7 f)) = Some sys \<and> cur < MAX_TCBS \<and>
     t_state (tt_threads (k_tcbs k) (unat cur)) = TCB_RUNNABLE \<and> find_cap k cur sys f = Some cap \<and>
     t_sched_context (tt_threads (k_tcbs k) (unat cur)) < 64 \<and>
     sc_remaining_us (s_contexts (k_sched k) (unat (t_sched_context (tt_threads (k_tcbs k) (unat cur))))) \<noteq> 0"

lemma admitted_passes:
  assumes "admitted k cur sys f cap" "dispatch lay k f cur sys (Some cap) = Some (Inr (err, k1))"
  shows "syscall_handler lay t0 t1 (Some f) cur k =
    (if wcet_check t1 t0 then Some (err, Some (f\<lparr>tf_a0 := kerror_val err\<rparr>), k1) else Some (ERR_WCET_EXCEEDED, Some f, k1))"
  using assms unfolding admitted_def by (blast intro: syscall_handler_passes)

lemma find_cap_ep_upd: "find_cap (k\<lparr>k_endpoints := e\<rparr>) cur sys f = find_cap k cur sys f"
  by (simp add: find_cap_def cong: option.case_cong if_cong)

lemma admitted_ep_upd:
  "admitted (k\<lparr>k_endpoints := e\<rparr>) cur sys f cap = admitted k cur sys f cap"
  by (simp add: admitted_def find_cap_ep_upd)

definition send_msg :: "u32 \<Rightarrow> ipc_msg_t \<Rightarrow> ipc_msg_t" where
  "send_msg len buf = (call_msg len buf)\<lparr>msg_caps := msg_caps buf,
     msg_cap_ptrs := (\<lambda>i. if i < unat (msg_caps buf) then msg_cap_ptrs buf i else 0)\<rparr>"

lemma sys_send_queues:
  assumes "c_type cap = CAP_ENDPOINT" "deref (lay_ep lay) (u_endpoint_ep_ptr (c_u cap)) = Obj i"
    and "ring_inv (k_endpoints k i)" "\<not> ep_has_receiver (k_endpoints k i)" "unat (ep_q_len (k_endpoints k i)) < 16"
    and "(ucast (a1 AND 0xFF) :: u32) \<le> IPC_MSG_MAX" "msg_caps (t_ipc_buffer (tt_threads (k_tcbs k) (unat cur))) \<le> IPC_CAPS_MAX"
  shows "sys_send lay k cur cap a1 = Some (Inr (ERR_OK, k\<lparr>k_endpoints := (k_endpoints k)(i :=
    ep_push cur (send_msg (ucast (a1 AND 0xFF)) (t_ipc_buffer (tt_threads (k_tcbs k) (unat cur)))) (k_endpoints k i))\<rparr>))"
proof -
  let ?m = "send_msg (ucast (a1 AND 0xFF)) (t_ipc_buffer (tt_threads (k_tcbs k) (unat cur)))"
  have "msg_ok ?m" using assms(6,7) by (simp add: msg_ok_def send_msg_def call_msg_def)
  then have "endpoint_send (Some (k_endpoints k i)) (k_tcbs k) cur (Some ?m) = Inr (ep_push cur ?m (k_endpoints k i), k_tcbs k)"
    using assms(4,5) by (simp add: endpoint_send_queued)
  then show ?thesis using assms(1,2,6,7) ring_safe(1)[OF assms(3)]
    by (simp add: sys_send_def send_to_def ret_def not_less Let_def flip: send_msg_def)
qed

lemma sys_reply_recv_queued:
  assumes "c_type cap = CAP_ENDPOINT" "deref (lay_ep lay) (u_endpoint_ep_ptr (c_u cap)) = Obj i"
    and "ring_inv (k_endpoints k i)" "ep_contents (k_endpoints k i) = (s, m) # rest" "msg_length m \<le> IPC_MSG_MAX"
  shows "\<exists>k1. sys_reply_recv lay k cur cap = Some (Inr (ERR_OK, k1)) \<and>
    ep_contents (k_endpoints k1 i) = rest \<and> k_cnodes k1 = k_cnodes k \<and>
    msg_length (t_ipc_buffer (tt_threads (k_tcbs k1) (unat cur))) = msg_length m \<and>
    (\<forall>j<unat (msg_length m). msg_words (t_ipc_buffer (tt_threads (k_tcbs k1) (unat cur))) j = msg_words m j) \<and>
    t_state (tt_threads (k_tcbs k1) (unat cur)) = t_state (tt_threads (resume_sender (k_tcbs k) s) (unat cur))"
proof -
  have pos: "0 < unat (ep_q_len (k_endpoints k i))" using assms(4) length_ep_contents[of "k_endpoints k i"] by simp
  then have "ep_q_len (k_endpoints k i) > 0" by (simp add: word_less_nat_alt)
  moreover have "endpoint_recv (Some (k_endpoints k i)) (k_tcbs k) cur (Some zero_msg) =
      Inr (Some m, ep_pop (k_endpoints k i), resume_sender (k_tcbs k) s)"
    using endpoint_recv_queued[OF assms(3) pos] assms(4) by simp
  ultimately show ?thesis using assms(1,2,5) ep_pop_ring(2)[OF assms(3) pos] ring_safe(2)[OF assms(3)] assms(4)
    by (auto simp: sys_reply_recv_def put_thread_def Let_def not_less[symmetric])
qed

lemma resume_sender_runnable:
  "t_state (tt_threads tt (unat cur)) = TCB_RUNNABLE \<Longrightarrow> t_state (tt_threads (resume_sender tt s) (unat cur)) = TCB_RUNNABLE"
  by (auto simp: resume_sender_def split: option.splits)

text \<open>
  C13 (roundtrip). A message sent is the message received, across the whole interface: when a thread
  sends at most 30 words, with at most 3 capabilities counted in its buffer, on an idle endpoint (an empty, well-formed
  ring without a waiting receiver), another thread (or the same) then receives on a capability of that
  endpoint, both threads are runnable with budget left and a valid capability, and both calls finish
  within the time bound, then both calls succeed, the receiver's buffer holds the length the sender asked for and
  the words of the sender's buffer, the receiver stays runnable and the endpoint is empty again.
\<close>

theorem send_then_receive:
  assumes "admitted k a SYS_SEND fa ca" "admitted k b SYS_REPLY_RECV fb cb"
    and "c_type ca = CAP_ENDPOINT" "deref (lay_ep lay) (u_endpoint_ep_ptr (c_u ca)) = Obj i"
    and "c_type cb = CAP_ENDPOINT" "deref (lay_ep lay) (u_endpoint_ep_ptr (c_u cb)) = Obj i"
    and "ring_inv (k_endpoints k i)" "ep_q_len (k_endpoints k i) = 0" "\<not> ep_has_receiver (k_endpoints k i)"
    and "(ucast (tf_a1 fa AND 0xFF) :: u32) \<le> IPC_MSG_MAX"
    and "msg_caps (t_ipc_buffer (tt_threads (k_tcbs k) (unat a))) \<le> IPC_CAPS_MAX"
    and "wcet_check t1 t0" "wcet_check t3 t2"
  shows "\<exists>k1 k2. syscall_handler lay t0 t1 (Some fa) a k = Some (ERR_OK, Some (fa\<lparr>tf_a0 := 0\<rparr>), k1) \<and>
    syscall_handler lay t2 t3 (Some fb) b k1 = Some (ERR_OK, Some (fb\<lparr>tf_a0 := 0\<rparr>), k2) \<and>
    msg_length (t_ipc_buffer (tt_threads (k_tcbs k2) (unat b))) = ucast (tf_a1 fa AND 0xFF) \<and>
    (\<forall>j<unat (ucast (tf_a1 fa AND 0xFF) :: u32). msg_words (t_ipc_buffer (tt_threads (k_tcbs k2) (unat b))) j =
       msg_words (t_ipc_buffer (tt_threads (k_tcbs k) (unat a))) j) \<and>
    t_state (tt_threads (k_tcbs k2) (unat b)) = TCB_RUNNABLE \<and> ep_contents (k_endpoints k2 i) = []"
proof -
  let ?buf = "t_ipc_buffer (tt_threads (k_tcbs k) (unat a))" and ?len = "ucast (tf_a1 fa AND 0xFF) :: u32"
  let ?k1 = "k\<lparr>k_endpoints := (k_endpoints k)(i := ep_push a (send_msg ?len ?buf) (k_endpoints k i))\<rparr>"
  have room: "unat (ep_q_len (k_endpoints k i)) < 16" using assms(8) by simp
  have "dispatch lay k fa a SYS_SEND (Some ca) = Some (Inr (ERR_OK, ?k1))"
    using sys_send_queues[OF assms(3,4,7,9) room assms(10,11)] by (simp add: dispatch_def)
  then have h1: "syscall_handler lay t0 t1 (Some fa) a k = Some (ERR_OK, Some (fa\<lparr>tf_a0 := 0\<rparr>), ?k1)"
    using admitted_passes[OF assms(1)] assms(12) by simp
  have adm: "admitted ?k1 b SYS_REPLY_RECV fb cb" using assms(2) by (simp add: admitted_ep_upd)
  have ring: "ring_inv (k_endpoints ?k1 i)" "ep_contents (k_endpoints ?k1 i) = (a, send_msg ?len ?buf) # []"
    using ep_push_ring[OF assms(7) room] ep_contents_empty[OF assms(8)] by simp_all
  have len: "msg_length (send_msg ?len ?buf) = ?len" by (simp add: send_msg_def call_msg_def)
  then have "msg_length (send_msg ?len ?buf) \<le> IPC_MSG_MAX" using assms(10) by simp
  from sys_reply_recv_queued[OF assms(5,6) ring this, of b] obtain k2 where
    r: "sys_reply_recv lay ?k1 b cb = Some (Inr (ERR_OK, k2))" "ep_contents (k_endpoints k2 i) = []"
      "msg_length (t_ipc_buffer (tt_threads (k_tcbs k2) (unat b))) = ?len"
      "\<forall>j<unat ?len. msg_words (t_ipc_buffer (tt_threads (k_tcbs k2) (unat b))) j = msg_words (send_msg ?len ?buf) j"
      "t_state (tt_threads (k_tcbs k2) (unat b)) = t_state (tt_threads (resume_sender (k_tcbs ?k1) a) (unat b))"
    unfolding len by blast
  have "syscall_handler lay t2 t3 (Some fb) b ?k1 = Some (ERR_OK, Some (fb\<lparr>tf_a0 := 0\<rparr>), k2)"
    using admitted_passes[OF adm, of lay ERR_OK k2] r(1) assms(13) by (simp add: dispatch_def)
  moreover have "t_state (tt_threads (k_tcbs k2) (unat b)) = TCB_RUNNABLE"
    using r(5) resume_sender_runnable[of "k_tcbs k" b a] assms(2) by (simp add: admitted_def)
  ultimately show ?thesis using h1 r(2-4) by (intro exI[of _ ?k1] exI[of _ k2]) (simp add: send_msg_def call_msg_def)
qed

definition demo_ep_cap :: cap_t where
  "demo_ep_cap = zero_cap\<lparr>c_type := CAP_ENDPOINT, c_is_valid := 1, c_rights := 15, c_u := zero_u\<lparr>uw0 := 0x1000\<rparr>,
     c_hw_cap := zero_sim_cap\<lparr>hw_tag := 1\<rparr>\<rparr>"

lemma demo_ep_cap_fields:
  "c_type demo_ep_cap = CAP_ENDPOINT" "c_is_valid demo_ep_cap \<noteq> 0" "cheri_tag_get (c_hw_cap demo_ep_cap)"
  "deref (lay_ep demo_lay) (u_endpoint_ep_ptr (c_u demo_ep_cap)) = Obj 0"
  "cap_has_right demo_ep_cap (CAP_RIGHTS_READ OR CAP_RIGHTS_WRITE)"
  by (simp_all add: demo_ep_cap_def cheri_tag_get_def deref_def demo_lay_def union_defs cap_has_right_def)

lemma demo_admitted:
  assumes "c_is_valid c \<noteq> 0" "cheri_tag_get (c_hw_cap c)" "syscall_of (ucast n) = Some sys" "cur < MAX_TCBS"
  shows "admitted (demo_k c) cur sys (demo_frame n 1 a1 a2 a3) c"
proof -
  have "find_cap (demo_k c) cur sys (demo_frame n 1 a1 a2 a3) = find_cap (demo_k c) 0 sys (demo_frame n 1 a1 a2 a3)"
    by (simp add: find_cap_def demo_k_def)
  then show ?thesis using assms demo_find[OF assms(1,2)]
    by (simp add: admitted_def) (simp add: demo_k_def demo_frame_def zero_tcb_def)
qed

theorem send_then_receive_witness:
  "\<exists>k1 k2. syscall_handler demo_lay 0 0 (Some (demo_frame 2 1 4 0 0)) 0 (demo_k demo_ep_cap) =
      Some (ERR_OK, Some ((demo_frame 2 1 4 0 0)\<lparr>tf_a0 := 0\<rparr>), k1) \<and>
    syscall_handler demo_lay 0 0 (Some (demo_frame 1 1 0 0 0)) 7 k1 = Some (ERR_OK, Some ((demo_frame 1 1 0 0 0)\<lparr>tf_a0 := 0\<rparr>), k2) \<and>
    msg_length (t_ipc_buffer (tt_threads (k_tcbs k2) 7)) = 4"
proof -
  have "admitted (demo_k demo_ep_cap) 0 SYS_SEND (demo_frame 2 1 4 0 0) demo_ep_cap"
    "admitted (demo_k demo_ep_cap) 7 SYS_REPLY_RECV (demo_frame 1 1 0 0 0) demo_ep_cap"
    by (rule demo_admitted; simp add: demo_ep_cap_fields syscall_of_def)+
  moreover have "ring_inv (k_endpoints (demo_k demo_ep_cap) 0)" "ep_q_len (k_endpoints (demo_k demo_ep_cap) 0) = 0"
    "\<not> ep_has_receiver (k_endpoints (demo_k demo_ep_cap) 0)"
    "msg_caps (t_ipc_buffer (tt_threads (k_tcbs (demo_k demo_ep_cap)) (unat (0 :: u32)))) \<le> IPC_CAPS_MAX"
    by (simp add: demo_k_def) (simp_all add: demo_k_def zero_endpoint_def zero_tcb_def zero_msg_def)
  moreover have "tf_a1 (demo_frame 2 1 4 0 0) = 4" "wcet_check 0 0" by (simp_all add: demo_frame_def wcet_check_def)
  ultimately show ?thesis
    using send_then_receive[of "demo_k demo_ep_cap" 0 "demo_frame 2 1 4 0 0" demo_ep_cap 7 "demo_frame 1 1 0 0 0" demo_ep_cap demo_lay 0 0 0 0 0]
      demo_ep_cap_fields(1,4) by auto
qed

subsection \<open>What an error code reports\<close>

lemma dispatch_Inl: "dispatch lay k f cur sys capp = Some (Inl e) \<Longrightarrow> e \<noteq> ERR_OK"
  by (cases sys) (auto simp: dispatch_def sys_call_def sys_send_def sys_reply_recv_def bind_eq_Some_conv Let_def
      split: if_splits ptr.splits sum.splits prod.splits option.splits)

lemma syscall_ok_dispatch:
  assumes "syscall_handler lay t0 t1 (Some f) cur k = Some (ERR_OK, f', k1)"
  shows "\<exists>sys. syscall_of (ucast (tf_a7 f)) = Some sys \<and> dispatch lay k f cur sys (find_cap k cur sys f) = Some (Inr (ERR_OK, k1))"
proof (cases "syscall_of (ucast (tf_a7 f))")
  case None
  then show ?thesis using assms(1) by (simp add: syscall_handler_def)
next
  case (Some sys)
  note H = assms(1)[unfolded syscall_handler_def option.case Some Let_def]
  obtain r where d: "dispatch lay k f cur sys (find_cap k cur sys f) = Some r"
    using H by (cases "dispatch lay k f cur sys (find_cap k cur sys f)") (auto simp del: not_None_eq split: if_splits)
  show ?thesis
  proof (cases r)
    case (Inl e)
    then show ?thesis using H d dispatch_Inl[of lay k f cur sys "find_cap k cur sys f" e] by (auto simp del: not_None_eq split: if_splits)
  next
    case (Inr q)
    then show ?thesis using H d Some by (cases q) (auto simp del: not_None_eq split: if_splits)
  qed
qed

text \<open>
  (error). The time check comes after the work: if a call succeeds when the kernel is fast enough,
  then the same call that finishes late reports \<open>ERR_WCET_EXCEEDED\<close>, leaves the caller's
  registers alone, and has changed the kernel's state all the same.
\<close>

theorem wcet_error_after_effect:
  assumes "syscall_handler lay t0 t1 (Some f) cur k = Some (ERR_OK, f', k1)" "\<not> wcet_check t2 t0"
  shows "syscall_handler lay t0 t2 (Some f) cur k = Some (ERR_WCET_EXCEEDED, Some f, k1)"
proof -
  obtain sys where s: "syscall_of (ucast (tf_a7 f)) = Some sys"
    and d: "dispatch lay k f cur sys (find_cap k cur sys f) = Some (Inr (ERR_OK, k1))"
    using syscall_ok_dispatch[OF assms(1)] by blast
  note H = assms(1)[unfolded syscall_handler_def option.case s Let_def]
  show ?thesis using H d s assms(2)
    by (auto simp: syscall_handler_def Let_def simp del: not_None_eq split: if_splits)
qed

theorem wcet_error_after_effect_witness:
  "\<exists>k1. syscall_handler demo_lay 0 5001 (Some (demo_frame 5 1 0x0600 5 0x1000)) 0 (demo_k demo_cap) =
      Some (ERR_WCET_EXCEEDED, Some (demo_frame 5 1 0x0600 5 0x1000), k1) \<and>
    caps_of (k_cnodes k1) (0, 6) = Some (cap_retype demo_cap CAP_FRAME 0x90000000 0x1000)"
proof -
  obtain k1 where d: "dispatch demo_lay (demo_k demo_cap) (demo_frame 5 1 0x0600 5 0x1000) 0 SYS_INVOKE (Some demo_cap) = Some (Inr (ERR_OK, k1))"
    by (rule demo_retype)
  have "admitted (demo_k demo_cap) 0 SYS_INVOKE (demo_frame 5 1 0x0600 5 0x1000) demo_cap"
    by (rule demo_admitted) (simp_all add: demo_cap_def cheri_tag_get_def syscall_of_def)
  from admitted_passes[OF this d, of 0 0]
  have ok: "syscall_handler demo_lay 0 0 (Some (demo_frame 5 1 0x0600 5 0x1000)) 0 (demo_k demo_cap) =
      Some (ERR_OK, Some ((demo_frame 5 1 0x0600 5 0x1000)\<lparr>tf_a0 := 0\<rparr>), k1)" by (simp add: wcet_check_def)
  have "caps_of (k_cnodes k1) (0, 6) = Some (cap_retype demo_cap CAP_FRAME 0x90000000 0x1000)"
    using demo_sys_step[of demo_lay] ok by auto
  then show ?thesis using wcet_error_after_effect[OF ok, of 5001] by (simp add: wcet_check_def)
qed

subsection \<open>A caller waits for a reply no call sends\<close>

text \<open>
  A thread that is inactive or blocked for a reply, and that no endpoint has registered as its
  waiting receiver. Only \<^verbatim>\<open>INV_TCB_RESUME\<close> leads out of this.
\<close>

definition stranded :: "u32 \<Rightarrow> kstate \<Rightarrow> bool" where
  "stranded t k \<longleftrightarrow> t_state (tt_threads (k_tcbs k) (unat t)) \<in> {TCB_INACTIVE, TCB_BLOCKED_REPLY} \<and>
     (\<forall>i. ep_has_receiver (k_endpoints k i) \<longrightarrow> ep_receiver_tcb (k_endpoints k i) \<noteq> t)"

definition resumes :: "sysop \<Rightarrow> bool" where
  "resumes a \<longleftrightarrow> (case a of (_, _, f, _) \<Rightarrow> syscall_of (ucast (tf_a7 f)) = Some SYS_INVOKE \<and>
     invoke_op_of (ucast (tf_a1 f AND 0xFF)) = INV_TCB_RESUME)"

lemma stranded_same: "k_tcbs k1 = k_tcbs k \<Longrightarrow> k_endpoints k1 = k_endpoints k \<Longrightarrow> stranded t k1 = stranded t k"
  by (simp add: stranded_def)

lemma stranded_put_thread:
  "stranded t k \<Longrightarrow> i \<noteq> unat t \<or> t_state x \<in> {TCB_INACTIVE, TCB_BLOCKED_REPLY} \<Longrightarrow> stranded t (put_thread k i x)"
  by (auto simp: stranded_def put_thread_def)

lemma wake_thread_other: "r \<noteq> t \<Longrightarrow> tt_threads (wake_thread tt r s) (unat t) = tt_threads tt (unat t)"
  by (auto simp: wake_thread_def word_unat_eq_iff split: sum.splits)

lemma resume_sender_stranded:
  "t_state (tt_threads tt j) \<noteq> TCB_BLOCKED_SEND \<Longrightarrow> tt_threads (resume_sender tt s) j = tt_threads tt j"
  by (auto simp: resume_sender_def split: option.splits)

lemma send_to_stranded:
  assumes "stranded t k" "send_to lay k p cur msg = Some (err, k1)"
  shows "stranded t k1"
proof (cases "deref (lay_ep lay) p")
  case (Obj i)
  show ?thesis
  proof (cases "endpoint_send (Some (k_endpoints k i)) (k_tcbs k) cur (Some msg)")
    case (Inl e)
    then show ?thesis using assms Obj by (simp add: send_to_def ret_def)
  next
    case (Inr q)
    have r: "ep_has_receiver (k_endpoints k i) \<Longrightarrow> ep_receiver_tcb (k_endpoints k i) \<noteq> t"
      using assms(1) by (simp add: stranded_def)
    show ?thesis using assms Obj Inr r wake_thread_other
      by (cases "ep_has_receiver (k_endpoints k i)")
        (auto simp: send_to_def ret_def stranded_def endpoint_send_def split: if_splits)
  qed
qed (use assms in \<open>auto simp: send_to_def\<close>)

lemma set_state_stranded: "stranded t k \<Longrightarrow> unat cur \<noteq> unat t \<Longrightarrow> stranded t (set_state k cur st)"
  by (simp add: set_state_def stranded_put_thread)

lemma ipc_stranded:
  assumes "stranded t k" "cur \<noteq> t"
  shows "sys_call lay k cur cap a1 = Some (Inr (err, k1)) \<Longrightarrow> stranded t k1"
    and "sys_send lay k cur cap a1 = Some (Inr (err, k1)) \<Longrightarrow> stranded t k1"
proof -
  have "unat cur \<noteq> unat t" using assms(2) by (simp add: word_unat_eq_iff)
  then show "sys_call lay k cur cap a1 = Some (Inr (err, k1)) \<Longrightarrow> stranded t k1"
    and "sys_send lay k cur cap a1 = Some (Inr (err, k1)) \<Longrightarrow> stranded t k1"
    using send_to_stranded[OF assms(1)] set_state_stranded
    by (auto simp: sys_call_def sys_send_def Let_def bind_eq_Some_conv split: if_splits)
qed

lemma reply_recv_stranded:
  assumes "stranded t k" "cur \<noteq> t" "sys_reply_recv lay k cur cap = Some (Inr (err, k1))"
  shows "stranded t k1"
proof -
  obtain i where i: "deref (lay_ep lay) (u_endpoint_ep_ptr (c_u cap)) = Obj i"
    using assms(3) by (auto simp: sys_reply_recv_def Let_def split: if_splits ptr.splits)
  have ne: "unat cur \<noteq> unat t" using assms(2) by (simp add: word_unat_eq_iff)
  have "\<exists>x. endpoint_recv (Some (k_endpoints k i)) (k_tcbs k) cur (Some zero_msg) = Inr x"
    by (simp add: endpoint_recv_def Let_def)
  then obtain outm ep1 tt1 where r: "endpoint_recv (Some (k_endpoints k i)) (k_tcbs k) cur (Some zero_msg) = Inr (outm, ep1, tt1)"
    by (metis prod_cases3)
  let ?k1 = "k\<lparr>k_endpoints := (k_endpoints k)(i := ep1), k_tcbs := tt1\<rparr>"
  have thr: "t_state (tt_threads tt1 (unat t)) = t_state (tt_threads (k_tcbs k) (unat t))"
    using r assms(1) resume_sender_stranded[of "k_tcbs k" "unat t"]
    by (auto simp: endpoint_recv_def stranded_def Let_def split: if_splits)
  have rcv: "ep_has_receiver ep1 \<Longrightarrow> ep_receiver_tcb ep1 \<noteq> t"
    using r assms(1,2) by (auto simp: endpoint_recv_def stranded_def Let_def split: if_splits)
  have "stranded t ?k1" using assms(1) thr rcv by (auto simp: stranded_def)
  then show ?thesis using assms(3) i r set_state_stranded[of t ?k1 cur] stranded_put_thread[of t ?k1 "unat cur"] ne
    by (auto simp: sys_reply_recv_def Let_def split: if_splits option.splits)
qed

lemma ret_cnodes_stranded: "stranded t k \<Longrightarrow> ret k (put_cnodes k) r = (err, k1) \<Longrightarrow> stranded t k1"
  by (auto simp: ret_def put_cnodes_def stranded_def split: sum.splits)

lemma invoke_stranded:
  assumes "stranded t k" "handle_invoke lay k (Some cap) op a1 a2 a3 = Some (err, k1)" "op \<noteq> INV_TCB_RESUME"
  shows "stranded t k1"
proof (cases op)
  case INV_UNTYPED_RETYPE
  then show ?thesis using assms stranded_same[of k1 k]
    by (auto simp: handle_invoke_def invoke_retype_def Let_def split: if_splits sum.splits prod.splits)
next
  case INV_TCB_CONFIGURE
  then show ?thesis using assms stranded_put_thread
    by (auto simp: handle_invoke_def invoke_tcb_configure_def Let_def ret_def tcb_configure_def split: if_splits option.splits ptr.splits)
next
  case INV_TCB_SUSPEND
  then show ?thesis using assms stranded_put_thread
    by (auto simp: handle_invoke_def invoke_tcb_suspend_def tcb_suspend_def split: if_splits ptr.splits)
next
  case INV_VSPACE_MAP
  then show ?thesis using assms stranded_same[of k1 k]
    by (auto simp: handle_invoke_def invoke_map_def Let_def split: if_splits option.splits ptr.splits prod.splits)
next
  case INV_FRAME_MAP
  then show ?thesis using assms stranded_same[of k1 k]
    by (auto simp: handle_invoke_def invoke_map_def Let_def split: if_splits option.splits ptr.splits prod.splits)
next
  case INV_VSPACE_UNMAP
  then show ?thesis using assms stranded_same[of k1 k]
    by (auto simp: handle_invoke_def invoke_unmap_def split: if_splits ptr.splits prod.splits)
next
  case INV_SCHED_BIND
  then show ?thesis using assms stranded_same[of k1 k]
    by (auto simp: handle_invoke_def invoke_sched_bind_def ret_def split: if_splits sum.splits)
qed (use assms ret_cnodes_stranded[OF assms(1)] in \<open>auto simp: handle_invoke_def split: if_splits\<close>)

lemma syscall_stranded:
  assumes "stranded t k" "syscall_handler lay t0 t1 (Some f) cur k = Some (err, f', k1)" "\<not> resumes (t0, t1, f, cur)"
  shows "stranded t k1"
proof (cases "k1 = k")
  case False
  then obtain sys cap where s: "syscall_of (ucast (tf_a7 f)) = Some sys" "find_cap k cur sys f = Some cap"
      "t_state (tt_threads (k_tcbs k) (unat cur)) = TCB_RUNNABLE"
    using syscall_mediated_state[OF assms(2)] by blast
  obtain e1 where d: "dispatch lay k f cur sys (Some cap) = Some (Inr (e1, k1))"
    using syscall_handler_cases[OF assms(2)] False s(1,2) by auto
  have "cur \<noteq> t" using assms(1) s(3) by (auto simp: stranded_def)
  note ipc = ipc_stranded[OF assms(1) this] reply_recv_stranded[OF assms(1) this]
  show ?thesis
  proof (cases sys)
    case SYS_CALL
    then show ?thesis using d ipc(1) by (simp add: dispatch_def)
  next
    case SYS_SEND
    then show ?thesis using d ipc(2) by (simp add: dispatch_def)
  next
    case SYS_REPLY_RECV
    then show ?thesis using d ipc(3) by (simp add: dispatch_def)
  next
    case SYS_INVOKE
    then have "invoke_op_of (ucast (tf_a1 f AND 0xFF)) \<noteq> INV_TCB_RESUME" using assms(3) s(1) by (simp add: resumes_def)
    then show ?thesis using d SYS_INVOKE invoke_stranded[OF assms(1)] by (auto simp: dispatch_def)
  qed (use d False in \<open>simp_all add: dispatch_def\<close>)
qed (use assms in simp)

interpretation strand: guarded_partial_machine "sys_step lay" "stranded t" "\<lambda>a. \<not> resumes a" for lay t
proof
  fix k a k1
  assume "stranded t k" "\<not> resumes a" "sys_step lay k a = Some k1"
  then show "stranded t k1" using syscall_stranded by (cases a) auto
qed

lemma send_to_receivers:
  assumes "send_to lay k p cur msg = Some (err, k1)" "ep_has_receiver (k_endpoints k1 i)"
  shows "ep_has_receiver (k_endpoints k i) \<and> ep_receiver_tcb (k_endpoints k1 i) = ep_receiver_tcb (k_endpoints k i)"
  using assms by (auto simp: send_to_def ret_def endpoint_send_def split: ptr.splits sum.splits if_splits)

lemma sys_call_strands:
  assumes "sys_call lay k cur cap a1 = Some (Inr (ERR_OK, k1))"
    and "\<forall>i. ep_has_receiver (k_endpoints k i) \<longrightarrow> ep_receiver_tcb (k_endpoints k i) \<noteq> cur"
  shows "stranded cur k1"
proof -
  obtain k0 where "send_to lay k (u_endpoint_ep_ptr (c_u cap)) cur
      (call_msg (ucast (a1 AND 0xFF)) (t_ipc_buffer (tt_threads (k_tcbs k) (unat cur)))) = Some (ERR_OK, k0)"
    "k1 = set_state k0 cur TCB_BLOCKED_REPLY"
    using assms(1) by (auto simp: sys_call_def Let_def bind_eq_Some_conv split: if_splits)
  then show ?thesis using send_to_receivers assms(2) by (auto simp: stranded_def set_state_def put_thread_def)
qed

text \<open>
  C18 (liveness). A caller is never answered: after a successful \<^verbatim>\<open>SYS_CALL\<close> by a thread that no
  endpoint has registered as its waiting receiver, no sequence of system calls by any threads makes
  that thread runnable again, unless one of them is the invocation \<^verbatim>\<open>INV_TCB_RESUME\<close>. In particular
  \<^verbatim>\<open>SYS_REPLY_RECV\<close>, whose name promises the reply, receives but never replies.
\<close>

theorem call_never_returns:
  assumes "syscall_handler lay t0 t1 (Some f) cur k = Some (ERR_OK, f', k1)" "syscall_of (ucast (tf_a7 f)) = Some SYS_CALL"
    and "\<forall>i. ep_has_receiver (k_endpoints k i) \<longrightarrow> ep_receiver_tcb (k_endpoints k i) \<noteq> cur"
    and "run_steps (sys_step lay) k1 calls = Some k2" "\<forall>a\<in>set calls. \<not> resumes a"
  shows "t_state (tt_threads (k_tcbs k2) (unat cur)) \<noteq> TCB_RUNNABLE"
proof -
  obtain cap where "sys_call lay k cur cap (tf_a1 f) = Some (Inr (ERR_OK, k1))"
    using syscall_ok_dispatch[OF assms(1)] assms(2) by (auto simp: dispatch_def bind_eq_Some_conv)
  then have "stranded cur k1" using sys_call_strands assms(3) by blast
  then have "stranded cur k2" using strand.run_inv[OF assms(4,5)] by blast
  then show ?thesis by (auto simp: stranded_def)
qed

lemma yield_step:
  assumes "syscall_of (ucast (tf_a7 f)) = Some SYS_YIELD" "cur < MAX_TCBS" "t_sched_context (tt_threads (k_tcbs k) (unat cur)) < 64"
  shows "sys_step lay k (t0, t1, f, cur) = Some k"
  using assms by (simp add: syscall_handler_def dispatch_def not_le Let_def)

lemma demo_call:
  obtains f' k1 where "syscall_handler demo_lay 0 0 (Some (demo_frame 0 1 2 0 0)) 0 (demo_k demo_ep_cap) = Some (ERR_OK, f', k1)"
    and "t_sched_context (tt_threads (k_tcbs k1) 0) = 0"
proof -
  have adm: "admitted (demo_k demo_ep_cap) 0 SYS_CALL (demo_frame 0 1 2 0 0) demo_ep_cap"
    by (rule demo_admitted; simp add: demo_ep_cap_fields syscall_of_def)
  have "\<exists>k1. dispatch demo_lay (demo_k demo_ep_cap) (demo_frame 0 1 2 0 0) 0 SYS_CALL (Some demo_ep_cap) = Some (Inr (ERR_OK, k1)) \<and>
      t_sched_context (tt_threads (k_tcbs k1) 0) = 0"
    using demo_ep_cap_fields
    by (simp add: dispatch_def sys_call_def send_to_def endpoint_send_def ret_def call_msg_def demo_frame_def set_state_def put_thread_def)
      (simp add: demo_k_def zero_endpoint_def zero_msg_def zero_tcb_def endpoint_send_safe_def)
  then show ?thesis using admitted_passes[OF adm] that by (fastforce simp: wcet_check_def)
qed

theorem call_never_returns_witness:
  "\<exists>f' k1 k2. syscall_handler demo_lay 0 0 (Some (demo_frame 0 1 2 0 0)) 0 (demo_k demo_ep_cap) = Some (ERR_OK, f', k1) \<and>
     run_steps (sys_step demo_lay) k1 [(0, 0, demo_frame 3 0 0 0 0, 0)] = Some k2 \<and>
     t_state (tt_threads (k_tcbs k2) (unat (0 :: u32))) \<noteq> TCB_RUNNABLE"
proof -
  obtain f' k1 where h: "syscall_handler demo_lay 0 0 (Some (demo_frame 0 1 2 0 0)) 0 (demo_k demo_ep_cap) = Some (ERR_OK, f', k1)"
      and sc: "t_sched_context (tt_threads (k_tcbs k1) 0) = 0"
    by (rule demo_call)
  have y: "syscall_of (ucast (tf_a7 (demo_frame 3 0 0 0 0))) = Some SYS_YIELD" by (simp add: demo_frame_def syscall_of_def)
  then have r: "run_steps (sys_step demo_lay) k1 [(0, 0, demo_frame 3 0 0 0 0, 0)] = Some k1"
    using yield_step[of "demo_frame 3 0 0 0 0" 0 k1] sc by simp
  have "syscall_of (ucast (tf_a7 (demo_frame 0 1 2 0 0))) = Some SYS_CALL" by (simp add: demo_frame_def syscall_of_def)
  moreover have "\<forall>i. ep_has_receiver (k_endpoints (demo_k demo_ep_cap) i) \<longrightarrow> ep_receiver_tcb (k_endpoints (demo_k demo_ep_cap) i) \<noteq> 0"
    by (simp add: demo_k_def zero_endpoint_def)
  moreover have "\<forall>a\<in>set [(0, 0, demo_frame 3 0 0 0 0, 0)]. \<not> resumes a" using y by (simp add: resumes_def)
  ultimately show ?thesis using h r call_never_returns[OF h _ _ r] by blast
qed

subsection \<open>Defined behaviour\<close>

text \<open>
  The objects a capability points at exist, an endpoint is a ring of messages whose lengths fit the
  buffer, and the tables of an address space lie in memory.
\<close>

definition msgs_ok :: "endpoint_t \<Rightarrow> bool" where
  "msgs_ok ep \<longleftrightarrow> unat (ep_q_head ep) < 16 \<and> (\<forall>j<16. msg_length (ep_queue_msgs ep j) \<le> IPC_MSG_MAX) \<and>
     msg_length (ep_pending_msg ep) \<le> IPC_MSG_MAX"

definition ptr_ok :: "layout \<Rightarrow> kstate \<Rightarrow> cap_t \<Rightarrow> bool" where
  "ptr_ok lay k cap \<longleftrightarrow>
     (c_type cap = CAP_ENDPOINT \<longrightarrow> (\<exists>i. deref (lay_ep lay) (u_endpoint_ep_ptr (c_u cap)) = Obj i \<and>
        ring_inv (k_endpoints k i) \<and> msgs_ok (k_endpoints k i))) \<and>
     (c_type cap = CAP_TCB \<longrightarrow> (\<exists>i. deref (lay_tcb lay) (u_tcb_ptr (c_u cap)) = Obj i)) \<and>
     (c_type cap = CAP_VSPACE \<longrightarrow> (\<exists>i. deref (lay_vs lay) (u_vspace_root_pt (c_u cap)) = Obj i \<and> space_safe (k_vspaces k i) (k_pt k)))"

lemma recv_msg_ok:
  assumes "msgs_ok ep" "endpoint_recv (Some ep) tt r (Some out) = Inr (outm, ep1, tt1)" "ep_pending ep \<or> ep_q_len ep > 0"
  shows "\<exists>m. outm = Some m \<and> msg_length m \<le> IPC_MSG_MAX"
  using assms by (auto simp: endpoint_recv_def msgs_ok_def Let_def split: if_splits)

lemma ipc_defined:
  assumes "ptr_ok lay k cap"
  shows "sys_call lay k cur cap a1 \<noteq> None" "sys_reply_recv lay k cur cap \<noteq> None"
    and "msg_caps (t_ipc_buffer (tt_threads (k_tcbs k) (unat cur))) \<le> IPC_CAPS_MAX \<Longrightarrow> sys_send lay k cur cap a1 \<noteq> None"
proof -
  have send: "send_to lay k (u_endpoint_ep_ptr (c_u cap)) cur m \<noteq> None" if "c_type cap = CAP_ENDPOINT" for m
    using assms that ring_safe(1) by (auto simp: ptr_ok_def send_to_def)
  show "sys_call lay k cur cap a1 \<noteq> None"
    using send by (simp add: sys_call_def Let_def bind_eq_None_conv split_beta del: not_None_eq)
  show "msg_caps (t_ipc_buffer (tt_threads (k_tcbs k) (unat cur))) \<le> IPC_CAPS_MAX \<Longrightarrow> sys_send lay k cur cap a1 \<noteq> None"
    using send by (simp add: sys_send_def Let_def bind_eq_None_conv not_le[symmetric] del: not_None_eq)
  show "sys_reply_recv lay k cur cap \<noteq> None"
  proof (cases "c_type cap = CAP_ENDPOINT")
    case True
    then obtain i where i: "deref (lay_ep lay) (u_endpoint_ep_ptr (c_u cap)) = Obj i" "msgs_ok (k_endpoints k i)" "ring_inv (k_endpoints k i)"
      using assms by (auto simp: ptr_ok_def)
    then show ?thesis
      using True recv_msg_ok[OF i(2), of "k_tcbs k" cur zero_msg] ring_safe(2)[OF i(3)]
      by (fastforce simp: sys_reply_recv_def Let_def not_le split: sum.splits)
  qed (simp add: sys_reply_recv_def)
qed

lemma invoke_defined: "ptr_ok lay k cap \<Longrightarrow> handle_invoke lay k (Some cap) op a1 a2 a3 \<noteq> None"
  using vspace_ops_safe
  by (cases op) (auto simp: handle_invoke_def ptr_ok_def invoke_map_def invoke_unmap_def invoke_tcb_resume_def invoke_tcb_suspend_def
      invoke_tcb_configure_def Let_def slot_arg_u8 cnode_move_defined simp del: not_None_eq split: option.splits prod.splits sum.splits)

text \<open>
  If the calling thread's index and scheduling context are within their arrays, its buffer claims at
  most three capabilities, and the capability the call names points at an object of its kind, then
  the handler executes nothing undefined, whatever the registers hold, and returns.
\<close>

lemma syscall_defined:
  assumes "cur < MAX_TCBS" "t_sched_context (tt_threads (k_tcbs k) (unat cur)) < 64"
    and "msg_caps (t_ipc_buffer (tt_threads (k_tcbs k) (unat cur))) \<le> IPC_CAPS_MAX"
    and "\<forall>sys cap. find_cap k cur sys f = Some cap \<longrightarrow> ptr_ok lay k cap"
  shows "\<exists>r. syscall_handler lay t0 t1 (Some f) cur k = Some r"
proof (cases "syscall_of (ucast (tf_a7 f))")
  case None
  then show ?thesis by (simp add: syscall_handler_def)
next
  case (Some sys)
  have "dispatch lay k f cur sys (find_cap k cur sys f) \<noteq> None" if "sys = SYS_YIELD \<or> find_cap k cur sys f \<noteq> None"
  proof (cases "find_cap k cur sys f")
    case None
    then show ?thesis using that by (simp add: dispatch_def)
  next
    case c: (Some cap)
    then have p: "ptr_ok lay k cap" using assms(4) by blast
    show ?thesis using ipc_defined(1,2)[OF p] ipc_defined(3)[OF p assms(3)] invoke_defined[OF p] c
      by (cases sys) (simp_all add: dispatch_def del: not_None_eq)
  qed
  then show ?thesis using Some assms(1,2)
    by (auto simp: syscall_handler_def Let_def not_le simp del: not_None_eq split: option.splits sum.splits prod.splits)
qed

lemma syscall_defined_witness: "\<exists>r. syscall_handler demo_lay 0 0 (Some (demo_frame 0 1 2 0 0)) 0 (demo_k demo_ep_cap) = Some r"
proof (rule syscall_defined)
  have "find_cap (demo_k demo_ep_cap) 0 sys (demo_frame 0 1 2 0 0) = Some demo_ep_cap" for sys
    by (rule demo_find[OF demo_ep_cap_fields(2,3)])
  moreover have "ptr_ok demo_lay (demo_k demo_ep_cap) demo_ep_cap"
    using demo_ep_cap_fields(1,4) by (simp add: ptr_ok_def) (simp add: msgs_ok_def ring_inv_def demo_k_def zero_endpoint_def zero_msg_def)
  ultimately show "\<forall>sys cap. find_cap (demo_k demo_ep_cap) 0 sys (demo_frame 0 1 2 0 0) = Some cap \<longrightarrow> ptr_ok demo_lay (demo_k demo_ep_cap) cap"
    by simp
qed (simp_all add: demo_k_def zero_tcb_def zero_msg_def)

subsection \<open>Retyping\<close>

lemma invoke_retype_ok:
  assumes "cap_can_retype cap (cap_type_of (ucast a2)) sz" "slot_arg (drop_bit 8 a1) = d" "d \<noteq> 0"
    and "c_is_valid (cn_slots (k_cnodes k 0) (unat d)) = 0"
  shows "\<exists>m. invoke_retype k cap a1 a2 sz = (ERR_OK, k\<lparr>k_cnodes := (k_cnodes k)(0 := (set_slot (unat d)
      (cap_retype cap (cap_type_of (ucast a2)) (u_untyped_paddr (c_u cap)) sz) (k_cnodes k 0))\<lparr>cn_used := cn_used (k_cnodes k 0) + 1\<rparr>),
      k_mdb := m\<rparr>)"
proof -
  have "c_is_valid (cap_retype cap (cap_type_of (ucast a2)) (u_untyped_paddr (c_u cap)) sz) = 1"
    using assms(1) by (simp add: cap_retype_def)
  moreover have "d < MAX_CAPS_PER_CNODE" unfolding assms(2)[symmetric] slot_arg_u8 by simp
  ultimately show ?thesis using assms by (simp add: invoke_retype_def Let_def not_le) blast
qed

text \<open>
  (safety). Untyped memory is not used up: two retype invocations of one untyped capability into
  two empty slots both succeed, and the two objects they make occupy the same memory.
\<close>

theorem retype_twice_overlaps:
  assumes "cap_is_valid (Some cap)" "cap_can_retype cap (cap_type_of (ucast a2)) sz"
    and "slot_arg (drop_bit 8 x) = d" "d \<noteq> 0" "c_is_valid (cn_slots (k_cnodes k 0) (unat d)) = 0"
    and "slot_arg (drop_bit 8 y) = e" "e \<noteq> 0" "c_is_valid (cn_slots (k_cnodes k 0) (unat e)) = 0" "d \<noteq> e"
  shows "\<exists>k1 k2. handle_invoke lay k (Some cap) INV_UNTYPED_RETYPE x a2 sz = Some (ERR_OK, k1) \<and>
    handle_invoke lay k1 (Some cap) INV_UNTYPED_RETYPE y a2 sz = Some (ERR_OK, k2) \<and>
    hw_base (c_hw_cap (cn_slots (k_cnodes k2 0) (unat d))) = u_untyped_paddr (c_u cap) \<and>
    hw_base (c_hw_cap (cn_slots (k_cnodes k2 0) (unat e))) = u_untyped_paddr (c_u cap) \<and>
    hw_top (c_hw_cap (cn_slots (k_cnodes k2 0) (unat d))) = hw_top (c_hw_cap (cn_slots (k_cnodes k2 0) (unat e)))"
proof -
  let ?new = "cap_retype cap (cap_type_of (ucast a2)) (u_untyped_paddr (c_u cap)) sz"
  have ne: "unat d \<noteq> unat e" using assms(9) by (simp add: word_unat_eq_iff)
  obtain m1 where r1: "invoke_retype k cap x a2 sz = (ERR_OK, k\<lparr>k_cnodes := (k_cnodes k)(0 := (set_slot (unat d) ?new (k_cnodes k 0))
      \<lparr>cn_used := cn_used (k_cnodes k 0) + 1\<rparr>), k_mdb := m1\<rparr>)" (is "_ = (_, ?k1)")
    using invoke_retype_ok[OF assms(2,3,4,5)] by blast
  have "c_is_valid (cn_slots (k_cnodes ?k1 0) (unat e)) = 0" using assms(8) ne by simp
  from invoke_retype_ok[OF assms(2,6,7) this] obtain m2 where
    "invoke_retype ?k1 cap y a2 sz = (ERR_OK, ?k1\<lparr>k_cnodes := (k_cnodes ?k1)(0 := (set_slot (unat e) ?new (k_cnodes ?k1 0))
      \<lparr>cn_used := cn_used (k_cnodes ?k1 0) + 1\<rparr>), k_mdb := m2\<rparr>)" by blast
  moreover have "hw_base (c_hw_cap ?new) = u_untyped_paddr (c_u cap)" using assms(2) by (simp add: cap_retype_def)
  ultimately show ?thesis using r1 assms(1) ne by (simp add: handle_invoke_def)
qed

theorem retype_twice_overlaps_witness:
  "\<exists>k1 k2. handle_invoke demo_lay (demo_k demo_cap) (Some demo_cap) INV_UNTYPED_RETYPE 0x0600 5 0x1000 = Some (ERR_OK, k1) \<and>
    handle_invoke demo_lay k1 (Some demo_cap) INV_UNTYPED_RETYPE 0x0700 5 0x1000 = Some (ERR_OK, k2) \<and>
    hw_base (c_hw_cap (cn_slots (k_cnodes k2 0) (unat (6 :: u32)))) = u_untyped_paddr (c_u demo_cap) \<and>
    hw_base (c_hw_cap (cn_slots (k_cnodes k2 0) (unat (7 :: u32)))) = u_untyped_paddr (c_u demo_cap) \<and>
    hw_top (c_hw_cap (cn_slots (k_cnodes k2 0) (unat (6 :: u32)))) = hw_top (c_hw_cap (cn_slots (k_cnodes k2 0) (unat (7 :: u32))))"
proof (rule retype_twice_overlaps)
  show "cap_is_valid (Some demo_cap)" by (simp add: cap_is_valid_def demo_cap_def cheri_tag_get_def)
  show "cap_can_retype demo_cap (cap_type_of (ucast (5 :: u64))) 0x1000"
    by (simp add: cap_can_retype_def demo_cap_def cap_type_of_def union_defs)
  show "slot_arg (drop_bit 8 0x0600) = 6" "slot_arg (drop_bit 8 0x0700) = 7" by (simp_all add: slot_arg_def)
qed (simp_all add: demo_k_def zero_cap_def)

text \<open>
  C37 (safety). The fall-back to the root node is ambient authority: a runnable thread with no
  capability space at all retypes the root node's untyped capability in slot 0, by invoking
  capability 0 with operation 0, and the new object is put into the root node.
\<close>

theorem root_retype_without_capability:
  assumes "t_cspace (tt_threads (k_tcbs k) (unat cur)) = None" "cur < MAX_TCBS"
    and "t_state (tt_threads (k_tcbs k) (unat cur)) = TCB_RUNNABLE" "t_sched_context (tt_threads (k_tcbs k) (unat cur)) < 64"
    and "sc_remaining_us (s_contexts (k_sched k) (unat (t_sched_context (tt_threads (k_tcbs k) (unat cur))))) \<noteq> 0"
    and "ucast (tf_a7 f) = (5 :: u32)" "tf_a0 f = 0" "tf_a1 f = 0" "cnode_lookup (k_cnodes k) (Some 0) 0 = Some 0"
    and "cap_can_retype (cn_slots (k_cnodes k 0) 0) (cap_type_of (ucast (tf_a2 f))) (tf_a3 f)"
    and "c_is_valid (cn_slots (k_cnodes k 0) 5) = 0" "wcet_check t1 t0"
  shows "\<exists>k'. syscall_handler lay t0 t1 (Some f) cur k = Some (ERR_OK, Some (f\<lparr>tf_a0 := 0\<rparr>), k') \<and>
    cn_slots (k_cnodes k' 0) 5 = cap_retype (cn_slots (k_cnodes k 0) 0) (cap_type_of (ucast (tf_a2 f)))
      (u_untyped_paddr (c_u (cn_slots (k_cnodes k 0) 0))) (tf_a3 f)"
proof -
  let ?cap = "cn_slots (k_cnodes k 0) 0" and ?nt = "cap_type_of (ucast (tf_a2 f))"
  have sys: "syscall_of (ucast (tf_a7 f)) = Some SYS_INVOKE" using assms(6) by (simp add: syscall_of_def)
  have find: "find_cap k cur SYS_INVOKE f = Some ?cap"
    using assms(1,7-9) by (simp add: find_cap_def cnode_lookup_def)
  have "c_type ?cap = CAP_UNTYPED" using assms(10) by (simp add: cap_can_retype_def split: if_splits)
  then have valid: "cap_is_valid (Some ?cap)" using find_cap_Some(2,3)[OF find] by (simp add: cap_is_valid_def)
  have new: "c_is_valid (cap_retype ?cap ?nt (u_untyped_paddr (c_u ?cap)) (tf_a3 f)) = 1" using assms(10) by (simp add: cap_retype_def)
  obtain k1 where "invoke_retype k ?cap 0 (tf_a2 f) (tf_a3 f) = (ERR_OK, k1)"
    "cn_slots (k_cnodes k1 0) 5 = cap_retype ?cap ?nt (u_untyped_paddr (c_u ?cap)) (tf_a3 f)"
    using assms(10,11) new by (simp add: invoke_retype_def Let_def slot_arg_def)
  then have "dispatch lay k f cur SYS_INVOKE (Some ?cap) = Some (Inr (ERR_OK, k1))"
    "cn_slots (k_cnodes k1 0) 5 = cap_retype ?cap ?nt (u_untyped_paddr (c_u ?cap)) (tf_a3 f)"
    using valid assms(8) by (simp_all add: dispatch_def handle_invoke_def invoke_op_of_def)
  moreover have "admitted k cur SYS_INVOKE f ?cap" using assms(2-5) sys find by (simp add: admitted_def)
  ultimately show ?thesis using admitted_passes[of k cur SYS_INVOKE f ?cap lay ERR_OK k1 t0 t1] assms(12) by simp
qed

definition demo_root_k :: kstate where
  "demo_root_k = (demo_k demo_cap)\<lparr>k_tcbs := \<lparr>tt_threads = (\<lambda>_. zero_tcb\<lparr>t_state := TCB_RUNNABLE\<rparr>), tt_count = 1\<rparr>,
     k_cnodes := (\<lambda>_. zero_cnode\<lparr>cn_radix := 8, cn_slots := (\<lambda>_. zero_cap)(0 := demo_cap)\<rparr>)\<rparr>"

theorem root_retype_without_capability_witness:
  "\<exists>k'. syscall_handler demo_lay 0 0 (Some (demo_frame 5 0 0 5 0x1000)) 0 demo_root_k = Some (ERR_OK, Some ((demo_frame 5 0 0 5 0x1000)\<lparr>tf_a0 := 0\<rparr>), k') \<and>
    cn_slots (k_cnodes k' 0) 5 = cap_retype (cn_slots (k_cnodes demo_root_k 0) 0) (cap_type_of (ucast (tf_a2 (demo_frame 5 0 0 5 0x1000))))
      (u_untyped_paddr (c_u (cn_slots (k_cnodes demo_root_k 0) 0))) (tf_a3 (demo_frame 5 0 0 5 0x1000))"
proof (rule root_retype_without_capability)
  have cap: "cn_slots (k_cnodes demo_root_k 0) 0 = demo_cap" by (simp add: demo_root_k_def)
  have "direct_node (k_cnodes demo_root_k 0)" by (simp add: demo_root_k_def direct_node_def zero_cnode_def)
  from cnode_lookup_direct[of "k_cnodes demo_root_k" 0 0, OF this] show "cnode_lookup (k_cnodes demo_root_k) (Some 0) 0 = Some 0"
    using cap by (simp add: demo_cap_def cheri_tag_get_def)
  show "cap_can_retype (cn_slots (k_cnodes demo_root_k 0) 0) (cap_type_of (ucast (tf_a2 (demo_frame 5 0 0 5 0x1000)))) (tf_a3 (demo_frame 5 0 0 5 0x1000))"
    unfolding cap by (simp add: demo_frame_def cap_can_retype_def demo_cap_def cap_type_of_def union_defs)
qed (simp_all add: demo_root_k_def demo_k_def demo_frame_def zero_tcb_def zero_cap_def wcet_check_def)

end
