(* ===== verification/VgaConsole.thy ===== *)
theory VgaConsole
  imports VspaceAccess
begin

text \<open>
  The framebuffer console, \<^verbatim>\<open>kernel/src/vga.c\<close>: the font, the text console with its cursor, the
  drawing routines and the set-up of the display. The framebuffer is an array of 800 x 600 pixels;
  a store outside it, and an overflow of the \<^verbatim>\<open>int\<close> coordinates, are undefined behaviour (\<open>None\<close>).
  What the set-up reads from the PCI configuration space is an argument, its stores are recorded in
  order. The messages on the serial line are not modelled.
\<close>

abbreviation (input) VGA_WIDTH :: int where "VGA_WIDTH \<equiv> 800"
abbreviation (input) VGA_HEIGHT :: int where "VGA_HEIGHT \<equiv> 600"
abbreviation (input) CONSOLE_COLS :: int where "CONSOLE_COLS \<equiv> 100"
abbreviation (input) CONSOLE_ROWS :: int where "CONSOLE_ROWS \<equiv> 37"
abbreviation (input) VGA_FB_BASE :: u64 where "VGA_FB_BASE \<equiv> 0x40000000"
abbreviation (input) VGA_BAR2_BASE :: u64 where "VGA_BAR2_BASE \<equiv> 0x41000000"

definition font8x8 :: "u8 list list" where
  "font8x8 =
    [[0x00, 0x00, 0x00, 0x00, 0x00, 0x00, 0x00, 0x00], [0x00, 0x00, 0x00, 0x00, 0x00, 0x00, 0x00, 0x00],
     [0x00, 0x00, 0x00, 0x00, 0x00, 0x00, 0x00, 0x00], [0x00, 0x00, 0x00, 0x00, 0x00, 0x00, 0x00, 0x00],
     [0x00, 0x00, 0x00, 0x00, 0x00, 0x00, 0x00, 0x00], [0x00, 0x00, 0x00, 0x00, 0x00, 0x00, 0x00, 0x00],
     [0x00, 0x00, 0x00, 0x00, 0x00, 0x00, 0x00, 0x00], [0x00, 0x00, 0x00, 0x00, 0x00, 0x00, 0x00, 0x00],
     [0x00, 0x00, 0x00, 0x00, 0x00, 0x00, 0x00, 0x00], [0x00, 0x00, 0x00, 0x00, 0x00, 0x00, 0x00, 0x00],
     [0x00, 0x00, 0x00, 0x00, 0x00, 0x00, 0x00, 0x00], [0x00, 0x00, 0x00, 0x00, 0x00, 0x00, 0x00, 0x00],
     [0x00, 0x00, 0x00, 0x00, 0x00, 0x00, 0x00, 0x00], [0x00, 0x00, 0x00, 0x00, 0x00, 0x00, 0x00, 0x00],
     [0x00, 0x00, 0x00, 0x00, 0x00, 0x00, 0x00, 0x00], [0x00, 0x00, 0x00, 0x00, 0x00, 0x00, 0x00, 0x00],
     [0x00, 0x00, 0x00, 0x00, 0x00, 0x00, 0x00, 0x00], [0x00, 0x00, 0x00, 0x00, 0x00, 0x00, 0x00, 0x00],
     [0x00, 0x00, 0x00, 0x00, 0x00, 0x00, 0x00, 0x00], [0x00, 0x00, 0x00, 0x00, 0x00, 0x00, 0x00, 0x00],
     [0x00, 0x00, 0x00, 0x00, 0x00, 0x00, 0x00, 0x00], [0x00, 0x00, 0x00, 0x00, 0x00, 0x00, 0x00, 0x00],
     [0x00, 0x00, 0x00, 0x00, 0x00, 0x00, 0x00, 0x00], [0x00, 0x00, 0x00, 0x00, 0x00, 0x00, 0x00, 0x00],
     [0x00, 0x00, 0x00, 0x00, 0x00, 0x00, 0x00, 0x00], [0x00, 0x00, 0x00, 0x00, 0x00, 0x00, 0x00, 0x00],
     [0x00, 0x00, 0x00, 0x00, 0x00, 0x00, 0x00, 0x00], [0x00, 0x00, 0x00, 0x00, 0x00, 0x00, 0x00, 0x00],
     [0x00, 0x00, 0x00, 0x00, 0x00, 0x00, 0x00, 0x00], [0x00, 0x00, 0x00, 0x00, 0x00, 0x00, 0x00, 0x00],
     [0x00, 0x00, 0x00, 0x00, 0x00, 0x00, 0x00, 0x00], [0x00, 0x00, 0x00, 0x00, 0x00, 0x00, 0x00, 0x00],
     [0x00, 0x00, 0x00, 0x00, 0x00, 0x00, 0x00, 0x00], [0x18, 0x3C, 0x3C, 0x18, 0x18, 0x00, 0x18, 0x00],
     [0x36, 0x36, 0x00, 0x00, 0x00, 0x00, 0x00, 0x00], [0x36, 0x36, 0x7F, 0x36, 0x7F, 0x36, 0x36, 0x00],
     [0x0C, 0x3E, 0x03, 0x1E, 0x30, 0x1F, 0x0C, 0x00], [0x00, 0x63, 0x33, 0x18, 0x0C, 0x66, 0x63, 0x00],
     [0x1C, 0x36, 0x1C, 0x6E, 0x3B, 0x33, 0x6E, 0x00], [0x06, 0x06, 0x03, 0x00, 0x00, 0x00, 0x00, 0x00],
     [0x18, 0x0C, 0x06, 0x06, 0x06, 0x0C, 0x18, 0x00], [0x06, 0x0C, 0x18, 0x18, 0x18, 0x0C, 0x06, 0x00],
     [0x00, 0x66, 0x3C, 0xFF, 0x3C, 0x66, 0x00, 0x00], [0x00, 0x0C, 0x0C, 0x3F, 0x0C, 0x0C, 0x00, 0x00],
     [0x00, 0x00, 0x00, 0x00, 0x00, 0x0C, 0x0C, 0x06], [0x00, 0x00, 0x00, 0x3F, 0x00, 0x00, 0x00, 0x00],
     [0x00, 0x00, 0x00, 0x00, 0x00, 0x0C, 0x0C, 0x00], [0x60, 0x30, 0x18, 0x0C, 0x06, 0x03, 0x01, 0x00],
     [0x3E, 0x63, 0x73, 0x7B, 0x6F, 0x67, 0x3E, 0x00], [0x0C, 0x0E, 0x0C, 0x0C, 0x0C, 0x0C, 0x3F, 0x00],
     [0x1E, 0x33, 0x30, 0x1C, 0x06, 0x33, 0x3F, 0x00], [0x1E, 0x33, 0x30, 0x1C, 0x30, 0x33, 0x1E, 0x00],
     [0x38, 0x3C, 0x36, 0x33, 0x7F, 0x30, 0x78, 0x00], [0x3F, 0x03, 0x1F, 0x30, 0x30, 0x33, 0x1E, 0x00],
     [0x1C, 0x06, 0x03, 0x1F, 0x33, 0x33, 0x1E, 0x00], [0x3F, 0x33, 0x30, 0x18, 0x0C, 0x0C, 0x0C, 0x00],
     [0x1E, 0x33, 0x33, 0x1E, 0x33, 0x33, 0x1E, 0x00], [0x1E, 0x33, 0x33, 0x3E, 0x30, 0x18, 0x0E, 0x00],
     [0x00, 0x0C, 0x0C, 0x00, 0x00, 0x0C, 0x0C, 0x00], [0x00, 0x0C, 0x0C, 0x00, 0x00, 0x0C, 0x0C, 0x06],
     [0x18, 0x0C, 0x06, 0x03, 0x06, 0x0C, 0x18, 0x00], [0x00, 0x00, 0x3F, 0x00, 0x00, 0x3F, 0x00, 0x00],
     [0x06, 0x0C, 0x18, 0x30, 0x18, 0x0C, 0x06, 0x00], [0x1E, 0x33, 0x30, 0x18, 0x0C, 0x00, 0x0C, 0x00],
     [0x3E, 0x63, 0x7B, 0x7B, 0x7B, 0x03, 0x1E, 0x00], [0x0C, 0x1E, 0x33, 0x33, 0x3F, 0x33, 0x33, 0x00],
     [0x3F, 0x66, 0x66, 0x3E, 0x66, 0x66, 0x3F, 0x00], [0x3C, 0x66, 0x03, 0x03, 0x03, 0x66, 0x3C, 0x00],
     [0x1F, 0x36, 0x66, 0x66, 0x66, 0x36, 0x1F, 0x00], [0x7F, 0x46, 0x16, 0x1E, 0x16, 0x46, 0x7F, 0x00],
     [0x7F, 0x46, 0x16, 0x1E, 0x16, 0x06, 0x0F, 0x00], [0x3C, 0x66, 0x03, 0x03, 0x73, 0x66, 0x7C, 0x00],
     [0x33, 0x33, 0x33, 0x3F, 0x33, 0x33, 0x33, 0x00], [0x1E, 0x0C, 0x0C, 0x0C, 0x0C, 0x0C, 0x1E, 0x00],
     [0x78, 0x30, 0x30, 0x30, 0x33, 0x33, 0x1E, 0x00], [0x67, 0x66, 0x36, 0x1E, 0x36, 0x66, 0x67, 0x00],
     [0x0F, 0x06, 0x06, 0x06, 0x46, 0x66, 0x7F, 0x00], [0x63, 0x77, 0x7F, 0x7F, 0x6B, 0x63, 0x63, 0x00],
     [0x63, 0x67, 0x6F, 0x7B, 0x73, 0x63, 0x63, 0x00], [0x1C, 0x36, 0x63, 0x63, 0x63, 0x36, 0x1C, 0x00],
     [0x3F, 0x66, 0x66, 0x3E, 0x06, 0x06, 0x0F, 0x00], [0x1E, 0x33, 0x33, 0x33, 0x3B, 0x1E, 0x38, 0x00],
     [0x3F, 0x66, 0x66, 0x3E, 0x36, 0x66, 0x67, 0x00], [0x1E, 0x33, 0x07, 0x0E, 0x38, 0x33, 0x1E, 0x00],
     [0x3F, 0x2D, 0x0C, 0x0C, 0x0C, 0x0C, 0x1E, 0x00], [0x33, 0x33, 0x33, 0x33, 0x33, 0x33, 0x3F, 0x00],
     [0x33, 0x33, 0x33, 0x33, 0x33, 0x1E, 0x0C, 0x00], [0x63, 0x63, 0x63, 0x6B, 0x7F, 0x77, 0x63, 0x00],
     [0x63, 0x63, 0x36, 0x1C, 0x1C, 0x36, 0x63, 0x00], [0x33, 0x33, 0x33, 0x1E, 0x0C, 0x0C, 0x1E, 0x00],
     [0x7F, 0x63, 0x31, 0x18, 0x4C, 0x66, 0x7F, 0x00], [0x1E, 0x06, 0x06, 0x06, 0x06, 0x06, 0x1E, 0x00],
     [0x03, 0x06, 0x0C, 0x18, 0x30, 0x60, 0x40, 0x00], [0x1E, 0x18, 0x18, 0x18, 0x18, 0x18, 0x1E, 0x00],
     [0x08, 0x1C, 0x36, 0x63, 0x00, 0x00, 0x00, 0x00], [0x00, 0x00, 0x00, 0x00, 0x00, 0x00, 0x00, 0xFF],
     [0x0C, 0x0C, 0x18, 0x00, 0x00, 0x00, 0x00, 0x00], [0x00, 0x00, 0x1E, 0x30, 0x3E, 0x33, 0x6E, 0x00],
     [0x07, 0x06, 0x06, 0x3E, 0x66, 0x66, 0x3B, 0x00], [0x00, 0x00, 0x1E, 0x33, 0x03, 0x33, 0x1E, 0x00],
     [0x38, 0x30, 0x30, 0x3E, 0x33, 0x33, 0x6E, 0x00], [0x00, 0x00, 0x1E, 0x33, 0x3F, 0x03, 0x1E, 0x00],
     [0x1C, 0x36, 0x06, 0x0F, 0x06, 0x06, 0x0F, 0x00], [0x00, 0x00, 0x6E, 0x33, 0x33, 0x3E, 0x30, 0x1F],
     [0x07, 0x06, 0x36, 0x6E, 0x66, 0x66, 0x67, 0x00], [0x0C, 0x00, 0x0E, 0x0C, 0x0C, 0x0C, 0x1E, 0x00],
     [0x30, 0x00, 0x30, 0x30, 0x30, 0x33, 0x33, 0x1E], [0x07, 0x06, 0x66, 0x36, 0x1E, 0x36, 0x67, 0x00],
     [0x0E, 0x0C, 0x0C, 0x0C, 0x0C, 0x0C, 0x1E, 0x00], [0x00, 0x00, 0x33, 0x7F, 0x7F, 0x6B, 0x63, 0x00],
     [0x00, 0x00, 0x1F, 0x33, 0x33, 0x33, 0x33, 0x00], [0x00, 0x00, 0x1E, 0x33, 0x33, 0x33, 0x1E, 0x00],
     [0x00, 0x00, 0x3B, 0x66, 0x66, 0x3E, 0x06, 0x0F], [0x00, 0x00, 0x6E, 0x33, 0x33, 0x3E, 0x30, 0x78],
     [0x00, 0x00, 0x3B, 0x6E, 0x66, 0x06, 0x0F, 0x00], [0x00, 0x00, 0x3E, 0x03, 0x1E, 0x30, 0x1F, 0x00],
     [0x08, 0x0C, 0x3E, 0x0C, 0x0C, 0x2C, 0x18, 0x00], [0x00, 0x00, 0x33, 0x33, 0x33, 0x33, 0x6E, 0x00],
     [0x00, 0x00, 0x33, 0x33, 0x33, 0x1E, 0x0C, 0x00], [0x00, 0x00, 0x63, 0x6B, 0x7F, 0x7F, 0x36, 0x00],
     [0x00, 0x00, 0x63, 0x36, 0x1C, 0x36, 0x63, 0x00], [0x00, 0x00, 0x33, 0x33, 0x33, 0x3E, 0x30, 0x1F],
     [0x00, 0x00, 0x3F, 0x19, 0x0C, 0x26, 0x3F, 0x00], [0x38, 0x0C, 0x0C, 0x07, 0x0C, 0x0C, 0x38, 0x00],
     [0x18, 0x18, 0x18, 0x00, 0x18, 0x18, 0x18, 0x00], [0x07, 0x0C, 0x0C, 0x38, 0x0C, 0x0C, 0x07, 0x00],
     [0x6E, 0x3B, 0x00, 0x00, 0x00, 0x00, 0x00, 0x00], [0x00, 0x00, 0x00, 0x00, 0x00, 0x00, 0x00, 0x00]]"

record vga_t =
  vg_fb :: "u32 arr"
  vg_init_done :: bool
  vg_cx :: int
  vg_cy :: int

definition zero_vga :: vga_t where
  "zero_vga = \<lparr>vg_fb = (\<lambda>_. 0), vg_init_done = False, vg_cx = 0, vg_cy = 0\<rparr>"

definition int_ok :: "int \<Rightarrow> bool" where "int_ok v \<longleftrightarrow> - (2 ^ 31) \<le> v \<and> v < 2 ^ 31"

definition set_px :: "u32 arr \<Rightarrow> int \<Rightarrow> u32 \<Rightarrow> u32 arr option" where
  "set_px fb i c = (if 0 \<le> i \<and> i < VGA_WIDTH * VGA_HEIGHT then Some (fb(nat i := c)) else None)"

text \<open>The glyph of a character: characters that cannot be printed are shown as a question mark.\<close>

definition glyph :: "u8 \<Rightarrow> u8 list" where
  "glyph c = (let c1 = (if c < 0x20 \<or> c > 0x7E then 63 else c) in font8x8 ! unat c1)"

text \<open>One pixel of a glyph, two screen rows high.\<close>

definition draw_px :: "int \<Rightarrow> int \<Rightarrow> u8 list \<Rightarrow> u32 \<Rightarrow> u32 \<Rightarrow> u32 arr \<Rightarrow> nat \<times> nat \<Rightarrow> u32 arr option" where
  "draw_px x y g fg bg fb rc =
     (case rc of (row, col) \<Rightarrow>
        let px = x * 8 + int col;
            py = y * 16 + int row * 2 in
        if \<not> int_ok px \<or> \<not> int_ok py then None
        else if px \<ge> VGA_WIDTH \<or> py \<ge> VGA_HEIGHT then Some fb
        else
          let colr = (if bit (g ! row) col then fg else bg) in
          Option.bind (set_px fb (py * VGA_WIDTH + px) colr)
            (\<lambda>fb1. if py + 1 < VGA_HEIGHT then set_px fb1 ((py + 1) * VGA_WIDTH + px) colr else Some fb1))"

fun draw_loop :: "int \<Rightarrow> int \<Rightarrow> u8 list \<Rightarrow> u32 \<Rightarrow> u32 \<Rightarrow> (nat \<times> nat) list \<Rightarrow> u32 arr \<Rightarrow> u32 arr option" where
  "draw_loop x y g fg bg [] fb = Some fb"
| "draw_loop x y g fg bg (rc # rcs) fb = Option.bind (draw_px x y g fg bg fb rc) (draw_loop x y g fg bg rcs)"

definition draw_char :: "int \<Rightarrow> int \<Rightarrow> u8 \<Rightarrow> u32 \<Rightarrow> u32 \<Rightarrow> u32 arr \<Rightarrow> u32 arr option" where
  "draw_char x y c fg bg fb = draw_loop x y (glyph c) fg bg (List.product [0..<8] [0..<8]) fb"

definition fill_fb :: "u32 \<Rightarrow> u32 arr \<Rightarrow> u32 arr" where
  "fill_fb color fb = (\<lambda>i. if i < 480000 then color else fb i)"

definition vga_is_initialized :: "vga_t \<Rightarrow> bool" where "vga_is_initialized v = vg_init_done v"

definition vga_console_clear :: "vga_t \<Rightarrow> vga_t" where
  "vga_console_clear v = (if \<not> vg_init_done v then v else v\<lparr>vg_cx := 0, vg_cy := 0\<rparr>)"

definition vga_console_scroll :: "vga_t \<Rightarrow> vga_t" where
  "vga_console_scroll v = (if \<not> vg_init_done v then v else v\<lparr>vg_fb := fill_fb 0 (vg_fb v), vg_cy := 0, vg_cx := 0\<rparr>)"

definition next_row :: "vga_t \<Rightarrow> vga_t" where
  "next_row v =
     (let v1 = v\<lparr>vg_cx := 0, vg_cy := vg_cy v + 1\<rparr> in
      if vg_cy v1 \<ge> CONSOLE_ROWS then (vga_console_scroll v1)\<lparr>vg_cy := CONSOLE_ROWS - 1\<rparr> else v1)"

definition vga_console_putc :: "vga_t \<Rightarrow> u8 \<Rightarrow> vga_t option" where
  "vga_console_putc v c =
     (if \<not> vg_init_done v then Some v
      else if c = 13 then Some (v\<lparr>vg_cx := 0\<rparr>)
      else if c = 10 then Some (next_row v)
      else (case draw_char (vg_cx v) (vg_cy v) c 0x00FFFFFF 0 (vg_fb v) of
         None \<Rightarrow> None
       | Some fb \<Rightarrow>
           let v1 = v\<lparr>vg_fb := fb, vg_cx := vg_cx v + 1\<rparr> in
           Some (if vg_cx v1 \<ge> CONSOLE_COLS then next_row v1 else v1)))"

fun vga_console_puts :: "vga_t \<Rightarrow> u8 list \<Rightarrow> vga_t option" where
  "vga_console_puts v [] = Some v"
| "vga_console_puts v (c # s) = Option.bind (vga_console_putc v c) (\<lambda>v1. vga_console_puts v1 s)"

definition vga_clear :: "vga_t \<Rightarrow> u32 \<Rightarrow> vga_t" where
  "vga_clear v color = (if \<not> vg_init_done v then v else v\<lparr>vg_fb := fill_fb color (vg_fb v)\<rparr>)"

fun puts_loop :: "int \<Rightarrow> int \<Rightarrow> u8 list \<Rightarrow> u32 arr \<Rightarrow> u32 arr option" where
  "puts_loop x y [] fb = Some fb"
| "puts_loop x y (c # s) fb =
     (if c = 10 then puts_loop 0 (y + 1) s fb
      else Option.bind (draw_char x y c 0x00FFFFFF 0 fb)
        (if x + 1 \<ge> VGA_WIDTH div 8 then puts_loop 0 (y + 1) s else puts_loop (x + 1) y s))"

definition vga_puts :: "vga_t \<Rightarrow> u8 list \<Rightarrow> vga_t option" where
  "vga_puts v s = (if \<not> vg_init_done v then Some v else map_option (\<lambda>fb. v\<lparr>vg_fb := fb\<rparr>) (puts_loop 0 0 s (vg_fb v)))"

fun puts_at_loop :: "int \<Rightarrow> int \<Rightarrow> int \<Rightarrow> u32 \<Rightarrow> u32 \<Rightarrow> u8 list \<Rightarrow> u32 arr \<Rightarrow> u32 arr option" where
  "puts_at_loop x cx cy fg bg [] fb = Some fb"
| "puts_at_loop x cx cy fg bg (c # s) fb =
     (if c = 10 then puts_at_loop x x (cy + 1) fg bg s fb
      else Option.bind (draw_char cx cy c fg bg fb) (puts_at_loop x (cx + 1) cy fg bg s))"

definition vga_puts_at :: "vga_t \<Rightarrow> u8 list \<Rightarrow> int \<Rightarrow> int \<Rightarrow> u32 \<Rightarrow> u32 \<Rightarrow> vga_t option" where
  "vga_puts_at v s x y fg bg =
     (if \<not> vg_init_done v then Some v else map_option (\<lambda>fb. v\<lparr>vg_fb := fb\<rparr>) (puts_at_loop x x y fg bg s (vg_fb v)))"

fun render_loop :: "int \<Rightarrow> int \<Rightarrow> int \<Rightarrow> u32 \<Rightarrow> u32 \<Rightarrow> u8 list \<Rightarrow> u32 arr \<Rightarrow> u32 arr option" where
  "render_loop x cx cy fg bg [] fb = Some fb"
| "render_loop x cx cy fg bg (c # s) fb =
     (if c = 10 then render_loop x x (cy + 1) fg bg s fb
      else Option.bind (draw_char cx cy c fg bg fb)
        (if cx + 1 \<ge> VGA_WIDTH div 8 then render_loop x x (cy + 1) fg bg s else render_loop x (cx + 1) cy fg bg s))"

definition vga_render_text :: "vga_t \<Rightarrow> u8 list option \<Rightarrow> int \<Rightarrow> int \<Rightarrow> u32 \<Rightarrow> u32 \<Rightarrow> vga_t option" where
  "vga_render_text v text x y fg bg =
     (case text of
        None \<Rightarrow> Some v
      | Some s \<Rightarrow>
          if \<not> vg_init_done v then Some v
          else map_option (\<lambda>fb. v\<lparr>vg_fb := fb\<rparr>) (render_loop x x y fg bg s (vg_fb v)))"

definition vga_draw_hello :: "vga_t \<Rightarrow> vga_t option" where
  "vga_draw_hello v =
     (if \<not> vg_init_done v then Some v
      else vga_console_puts (vga_console_clear v) [72, 101, 108, 108, 111, 32, 119, 111, 114, 108, 100, 10])"

subsection \<open>Set-up of the display\<close>

text \<open>The address of a PCI device's configuration space, and the stores that program a display found there.\<close>

definition ecam :: "nat \<Rightarrow> u64" where "ecam dev = 0x30000000 OR push_bit 15 (of_nat dev)"

definition is_display :: "u32 \<Rightarrow> bool" where
  "is_display idw \<longleftrightarrow> idw \<noteq> 0xffffffff \<and> idw AND 0xFFFF = 0x1234 \<and> drop_bit 16 idw AND 0xFFFF = 0x1111"

definition program_display :: "(u64 \<Rightarrow> u32) \<Rightarrow> u64 \<Rightarrow> (u64 \<times> u32) list" where
  "program_display rd e =
     (e + 0x10, 0x40000000) #
     (if rd (e + 0x10) AND 0x6 = 0x4 then [(e + 0x14, 0)] else []) @
     (e + 0x18, 0x41000000) #
     (if rd (e + 0x18) AND 0x6 = 0x4 then [(e + 0x1C, 0)] else []) @
     [(e + 0x04, rd (e + 0x04) OR 0x07),
      (VGA_BAR2_BASE + 0x500, 0xB0C5), (VGA_BAR2_BASE + 0x502, 800), (VGA_BAR2_BASE + 0x504, 600),
      (VGA_BAR2_BASE + 0x506, 32), (VGA_BAR2_BASE + 0x508, 0x41)]"

definition vga_init ::
  "u64 \<Rightarrow> (u64 \<Rightarrow> u32) \<Rightarrow> vspace_t option \<Rightarrow> pt_env \<Rightarrow> vga_t \<Rightarrow>
   kerror_t \<times> vspace_t option \<times> pt_env \<times> vga_t \<times> (u64 \<times> u32) list" where
  "vga_init pool rd vs e v =
     (let fb_size = ((800 * 600 * (32 div 8)) + PAGE_SIZE - 1) AND NOT (PAGE_SIZE - 1) in
      case vspace_map pool vs e VGA_FB_BASE VGA_FB_BASE fb_size 0x7 0 of (e1, vs1, env1) \<Rightarrow>
      if e1 \<noteq> ERR_OK then (e1, vs1, env1, v, [])
      else case vspace_map pool vs1 env1 VGA_BAR2_BASE VGA_BAR2_BASE PAGE_SIZE 0x7 0 of (e2, vs2, env2) \<Rightarrow>
      if e2 \<noteq> ERR_OK then (e2, vs2, env2, v, [])
      else case vspace_map pool vs2 env2 0x30000000 0x30000000 0x1000000 0x7 0 of (e3, vs3, env3) \<Rightarrow>
      if e3 \<noteq> ERR_OK then (e3, vs3, env3, v, [])
      else (case first_index 32 (\<lambda>dev. is_display (rd (ecam dev))) of
         None \<Rightarrow> (ERR_NO_MEM, vs3, env3, v, [])
       | Some dev \<Rightarrow>
           (ERR_OK, vs3, env3,
            v\<lparr>vg_init_done := True, vg_fb := (\<lambda>i. if i < 100 then 0 else vg_fb v i), vg_cx := 0, vg_cy := 0\<rparr>,
            program_display rd (ecam dev))))"

text \<open>The page-table walks of the three maps stay in memory.\<close>

definition vga_init_safe :: "u64 \<Rightarrow> vspace_t option \<Rightarrow> pt_env \<Rightarrow> bool" where
  "vga_init_safe pool vs e \<longleftrightarrow>
     (let fb_size = ((800 * 600 * (32 div 8)) + PAGE_SIZE - 1) AND NOT (PAGE_SIZE - 1) in
      vspace_map_safe pool vs e VGA_FB_BASE VGA_FB_BASE fb_size 0x7 0 \<and>
      (case vspace_map pool vs e VGA_FB_BASE VGA_FB_BASE fb_size 0x7 0 of (e1, vs1, env1) \<Rightarrow>
         e1 = ERR_OK \<longrightarrow> vspace_map_safe pool vs1 env1 VGA_BAR2_BASE VGA_BAR2_BASE PAGE_SIZE 0x7 0 \<and>
         (case vspace_map pool vs1 env1 VGA_BAR2_BASE VGA_BAR2_BASE PAGE_SIZE 0x7 0 of (e2, vs2, env2) \<Rightarrow>
            e2 = ERR_OK \<longrightarrow> vspace_map_safe pool vs2 env2 0x30000000 0x30000000 0x1000000 0x7 0)))"

subsection \<open>Glyphs\<close>

lemma font_shape: "length font8x8 = 128" "list_all (\<lambda>g. length g = 8) font8x8"
  by (simp_all add: font8x8_def)

text \<open>
  (type). The font table is never read out of bounds: whatever byte is printed, it selects one of the
  128 glyphs, and that glyph has eight rows.
\<close>

theorem glyph_rows: "length (glyph c) = 8 \<and> glyph c \<in> set font8x8"
proof -
  let ?c = "if c < 0x20 \<or> c > 0x7E then 63 else c"
  have "unat ?c < 128" by (auto simp: word_less_nat_alt not_less)
  then have "glyph c \<in> set font8x8" by (simp add: glyph_def font_shape)
  then show ?thesis using font_shape(2) by (simp add: list_all_iff)
qed

subsection \<open>Drawing inside the screen\<close>

definition cell :: "int \<Rightarrow> int \<Rightarrow> nat \<Rightarrow> nat \<Rightarrow> nat \<Rightarrow> nat" where
  "cell x y row col k = (16 * nat y + 2 * row + k) * 800 + (8 * nat x + col)"

definition on_screen :: "int \<Rightarrow> int \<Rightarrow> bool" where
  "on_screen x y \<longleftrightarrow> 0 \<le> x \<and> x < CONSOLE_COLS \<and> 0 \<le> y \<and> y < CONSOLE_ROWS"

definition shade :: "int \<Rightarrow> int \<Rightarrow> u8 list \<Rightarrow> u32 \<Rightarrow> u32 \<Rightarrow> nat \<Rightarrow> u32" where
  "shade x y g fg bg i = (if bit (g ! ((i div 800 - 16 * nat y) div 2)) (i mod 800 - 8 * nat x) then fg else bg)"

lemma cell_decode:
  assumes "on_screen x y" "row < 8" "col < 8" "k < 2"
  shows "cell x y row col k div 800 = 16 * nat y + 2 * row + k" "cell x y row col k mod 800 = 8 * nat x + col"
    and "shade x y g fg bg (cell x y row col k) = (if bit (g ! row) col then fg else bg)"
proof -
  have "nat x < 100" using assms(1) by (simp add: on_screen_def nat_less_iff)
  then have lt: "8 * nat x + col < 800" using assms(3) by linarith
  show d: "cell x y row col k div 800 = 16 * nat y + 2 * row + k" unfolding cell_def using lt by simp
  show m: "cell x y row col k mod 800 = 8 * nat x + col" unfolding cell_def using lt by (simp only: mod_mult_self3 mod_less)
  have "(2 * row + k) div 2 = row" using assms(4) by simp
  then show "shade x y g fg bg (cell x y row col k) = (if bit (g ! row) col then fg else bg)" by (simp add: shade_def d m)
qed

lemma draw_px_on_screen:
  assumes "on_screen x y" "row < 8" "col < 8"
  shows "draw_px x y g fg bg fb (row, col) =
    Some (fb(cell x y row col 0 := if bit (g ! row) col then fg else bg, cell x y row col 1 := if bit (g ! row) col then fg else bg))"
proof -
  have b: "0 \<le> x" "x \<le> 99" "0 \<le> y" "y \<le> 36" "int row \<le> 7" "int col \<le> 7" using assms by (simp_all add: on_screen_def)
  have i0: "(y * 16 + int row * 2) * 800 + (x * 8 + int col) = int (cell x y row col 0)"
   and i1: "(y * 16 + int row * 2 + 1) * 800 + (x * 8 + int col) = int (cell x y row col 1)"
    using b by (simp_all add: cell_def algebra_simps)
  have "int (cell x y row col 0) < 480000" unfolding i0[symmetric] distrib_right mult.assoc using b by simp
  moreover have "int (cell x y row col 1) < 480000" unfolding i1[symmetric] distrib_right mult.assoc using b by simp
  ultimately have lim: "int (cell x y row col 0) < 480000" "int (cell x y row col 1) < 480000" .
  have s: "set_px f (int (cell x y row col 0)) c = Some (f(cell x y row col 0 := c))"
    "set_px f (int (cell x y row col 1)) c = Some (f(cell x y row col 1 := c))" for f c
    using lim by (simp_all add: set_px_def)
  have ok: "int_ok (x * 8 + int col)" "int_ok (y * 16 + int row * 2)" "x * 8 + int col < 800" "y * 16 + int row * 2 + 1 < 600"
    using b by (simp_all add: int_ok_def)
  then show ?thesis unfolding draw_px_def Let_def prod.case i0 i1 s by (simp add: s)
qed

lemma draw_loop_on_screen:
  assumes "on_screen x y" "\<forall>(row, col)\<in>set rcs. row < 8 \<and> col < 8"
  shows "draw_loop x y g fg bg rcs fb = Some (\<lambda>i. if \<exists>(row, col)\<in>set rcs. \<exists>k<2. i = cell x y row col k then shade x y g fg bg i else fb i)"
  using assms(2)
proof (induction rcs arbitrary: fb)
  case (Cons rc rcs)
  obtain row col where rc: "rc = (row, col)" by (cases rc)
  then have lt: "row < 8" "col < 8" using Cons.prems by auto
  have k2: "(\<exists>k<2. P k) \<longleftrightarrow> P 0 \<or> P 1" for P :: "nat \<Rightarrow> bool" by (auto simp: less_Suc_eq numeral_2_eq_2)
  have "draw_px x y g fg bg fb rc = Some (\<lambda>i. if \<exists>k<2. i = cell x y row col k then shade x y g fg bg i else fb i)"
    unfolding rc draw_px_on_screen[OF assms(1) lt] k2
    using cell_decode(3)[OF assms(1) lt, of 0 g fg bg] cell_decode(3)[OF assms(1) lt, of 1 g fg bg] by (auto simp: fun_eq_iff)
  then show ?case using Cons rc by (auto simp: fun_eq_iff)
qed simp

lemma draw_char_on_screen:
  assumes "on_screen x y"
  shows "draw_char x y c fg bg fb = Some (\<lambda>i. if \<exists>row<8. \<exists>col<8. \<exists>k<2. i = cell x y row col k then shade x y (glyph c) fg bg i else fb i)"
proof -
  have "(\<exists>(row, col)\<in>set (List.product [0..<8] [0..<8]). \<exists>k<2. i = cell x y row col k) \<longleftrightarrow> (\<exists>row<8. \<exists>col<8. \<exists>k<2. i = cell x y row col k)" for i
    by (auto simp: Bex_def)
  then show ?thesis unfolding draw_char_def by (subst draw_loop_on_screen[OF assms]) auto
qed

subsection \<open>The console\<close>

definition console_inv :: "vga_t \<Rightarrow> bool" where
  "console_inv v \<longleftrightarrow> on_screen (vg_cx v) (vg_cy v)"

lemma next_row_inv: "0 \<le> vg_cy v \<Longrightarrow> vg_cy v < CONSOLE_ROWS \<Longrightarrow> console_inv (next_row v)"
  by (auto simp: console_inv_def on_screen_def next_row_def vga_console_scroll_def Let_def)

interpretation vgam: checked_machine vga_console_putc console_inv "\<lambda>_ _. True"
proof
  fix v c
  assume inv: "console_inv v"
  then have scr: "on_screen (vg_cx v) (vg_cy v)" by (simp add: console_inv_def)
  show "\<exists>v1. vga_console_putc v c = Some v1 \<and> console_inv v1"
    using inv scr draw_char_on_screen[OF scr] next_row_inv
    by (auto simp: vga_console_putc_def Let_def console_inv_def on_screen_def)
qed

lemma console_puts_run: "vga_console_puts v s = run_steps vga_console_putc v s"
  by (induction s arbitrary: v) simp_all

lemma console_runs:
  assumes "console_inv v"
  shows "\<exists>v1. vga_console_puts v s = Some v1 \<and> console_inv v1"
  unfolding console_puts_run by (rule vgam.run_safe[OF assms run_allowed_static]) simp

text \<open>
  C34 (bounds). Printing on the console is safe: from a cursor on the screen, every string of bytes is
  printed without a store outside the framebuffer, and leaves the cursor on the screen.
\<close>

theorem console_puts_safe:
  assumes "on_screen (vg_cx v) (vg_cy v)"
  shows "\<exists>v1. vga_console_puts v s = Some v1 \<and> on_screen (vg_cx v1) (vg_cy v1)"
  using console_runs[of v s] assms by (simp add: console_inv_def)

theorem console_puts_safe_witness:
  "\<exists>v1. vga_console_puts (zero_vga\<lparr>vg_init_done := True\<rparr>) [72, 105, 10, 255] = Some v1 \<and> on_screen (vg_cx v1) (vg_cy v1)"
  by (rule console_puts_safe) (simp add: zero_vga_def on_screen_def)

text \<open>
  (functional). A printed character appears at the cursor and nowhere else: before the last column,
  printing a character other than the two control characters sets the two screen rows of every
  pixel of its cell to white where the glyph's bit is set and to black where it is not, leaves every
  other pixel alone and advances the cursor by one.
\<close>

theorem console_putc_draws:
  assumes "vg_init_done v" "on_screen (vg_cx v) (vg_cy v)" "vg_cx v < CONSOLE_COLS - 1" "c \<noteq> 10" "c \<noteq> 13"
  shows "\<exists>v1. vga_console_putc v c = Some v1 \<and> vg_cx v1 = vg_cx v + 1 \<and> vg_cy v1 = vg_cy v \<and>
    (\<forall>row<8. \<forall>col<8. \<forall>k<2. vg_fb v1 (cell (vg_cx v) (vg_cy v) row col k) = (if bit (glyph c ! row) col then 0xFFFFFF else 0)) \<and>
    (\<forall>i. (\<forall>row<8. \<forall>col<8. \<forall>k<2. i \<noteq> cell (vg_cx v) (vg_cy v) row col k) \<longrightarrow> vg_fb v1 i = vg_fb v i)"
proof -
  let ?X = "vg_cx v" and ?Y = "vg_cy v"
  let ?fb = "\<lambda>i. if \<exists>row<8. \<exists>col<8. \<exists>k<2. i = cell ?X ?Y row col k then shade ?X ?Y (glyph c) 0xFFFFFF 0 i else vg_fb v i"
  define fb where "fb = ?fb"
  have "fb (cell ?X ?Y row col k) = (if bit (glyph c ! row) col then 0xFFFFFF else 0)" if rck: "row < 8" "col < 8" "k < 2" for row col k
  proof -
    have "\<exists>r<8. \<exists>c<8. \<exists>k'<2. cell ?X ?Y row col k = cell ?X ?Y r c k'" using rck by blast
    then show ?thesis using cell_decode(3)[OF assms(2) rck] by (simp add: fb_def)
  qed
  moreover have "fb i = vg_fb v i" if "\<forall>row<8. \<forall>col<8. \<forall>k<2. i \<noteq> cell ?X ?Y row col k" for i
    using that by (auto simp: fb_def)
  moreover have "vga_console_putc v c = Some (v\<lparr>vg_fb := fb, vg_cx := ?X + 1\<rparr>)"
    using assms draw_char_on_screen[OF assms(2)] by (simp add: vga_console_putc_def fb_def)
  ultimately show ?thesis by simp
qed

theorem console_putc_draws_witness:
  "\<exists>v1. vga_console_putc (zero_vga\<lparr>vg_init_done := True\<rparr>) 65 = Some v1 \<and> vg_cx v1 = 1 \<and> vg_fb v1 (cell 0 0 0 2 1) = 0xFFFFFF"
proof -
  have "bit (glyph 65 ! 0) 2" by (simp add: glyph_def font8x8_def)
  then show ?thesis using console_putc_draws[of "zero_vga\<lparr>vg_init_done := True\<rparr>" 65] by (auto simp: zero_vga_def on_screen_def)
qed

text \<open>
  (safety). The text routines trust their coordinates: the drawing loop compares a pixel with the
  right and lower edge only, so a character to the left of the screen in the top row, or above the
  screen, is stored outside the framebuffer.
\<close>

theorem puts_at_outside:
  assumes "vg_init_done v" "c \<noteq> 10" "int_ok (x * 8)" "int_ok (y * 16)" "x < 100" "y \<le> 0" "x < 0 \<or> y < 0"
  shows "vga_puts_at v (c # s) x y fg bg = None"
proof -
  have "List.product [0..<8] [0..<8] = (0, 0) # tl (List.product [0..<8] [0..<8])" by (simp add: upt_rec)
  moreover have "draw_px x y (glyph c) fg bg (vg_fb v) (0, 0) = None"
    using assms by (auto simp: draw_px_def set_px_def)
  ultimately have "draw_char x y c fg bg (vg_fb v) = None" unfolding draw_char_def by (metis bind.bind_lzero draw_loop.simps(2))
  then show ?thesis using assms(1,2) by (simp add: vga_puts_at_def)
qed

theorem puts_at_outside_witness: "vga_puts_at (zero_vga\<lparr>vg_init_done := True\<rparr>) [65] (- 1) 0 0xFFFFFF 0 = None"
  by (rule puts_at_outside) (simp_all add: zero_vga_def int_ok_def)

end
