(* ===== verification/Boot.thy ===== *)
theory Boot
  imports SyscallProps VspaceProgress VgaConsole
begin

text \<open>
  The boot sequence, \<^verbatim>\<open>kernel/src/boot.c\<close>, in its RISC-V hybrid configuration: what \<^verbatim>\<open>kernel_boot\<close>
  does to the globals, from the zeroed data segment to the parking loop. A stage is a function on
  the globals; it continues (\<open>Runs\<close>), enters one of the endless wait loops of the error paths
  (\<open>Halts\<close>), or meets behaviour C leaves undefined (\<open>Undef\<close>). Every message goes to the serial
  line and, once the display is set up, to the console on the screen.
\<close>

record boot_t =
  bt_k :: kstate
  bt_vga :: vga_t
  bt_uart :: "u8 list"
  bt_satp :: u64

datatype boot_out = Undef | Halts boot_t | Runs boot_t

type_synonym stage = "boot_t \<Rightarrow> boot_out"

fun stages :: "stage list \<Rightarrow> stage" where
  "stages [] b = Runs b"
| "stages (f # fs) b = (case f b of Runs b1 \<Rightarrow> stages fs b1 | r \<Rightarrow> r)"

text \<open>
  What the machine and the linker provide: the trap registers, the symbols \<^verbatim>\<open>_kernel_end\<close> and
  \<^verbatim>\<open>user_hello\<close>, the address of each endpoint, the PCI configuration space, and for the trap test
  the registers it saves and the two readings of the clock.
\<close>

record machine =
  mc_mtvec :: u64
  mc_mscratch :: u64
  mc_kernel_end :: u64
  mc_user_hello :: u64
  mc_endpoint :: "nat \<Rightarrow> u64"
  mc_pci :: "u64 \<Rightarrow> u32"
  mc_frame :: trap_frame_t
  mc_entry_us :: u64
  mc_exit_us :: u64

subsection \<open>Messages\<close>

definition bytes :: "string \<Rightarrow> u8 list" where "bytes s = map of_char s"

definition uart_puts :: "u8 list \<Rightarrow> stage" where
  "uart_puts s b =
     (let b1 = b\<lparr>bt_uart := bt_uart b @ s\<rparr> in
      if vga_is_initialized (bt_vga b1) then
        (case vga_console_puts (bt_vga b1) s of None \<Rightarrow> Undef | Some v \<Rightarrow> Runs (b1\<lparr>bt_vga := v\<rparr>))
      else Runs b1)"

definition hex_digit :: "u64 \<Rightarrow> nat \<Rightarrow> u8" where
  "hex_digit v i = (let n = ucast (drop_bit i v AND 0xF) in if n < 10 then 0x30 + n else 0x61 + n - 10)"

definition uart_hex :: "u64 \<Rightarrow> stage" where
  "uart_hex v b =
     (let digits = map (\<lambda>j. hex_digit v ((15 - j) * 4)) [0..<16];
          b1 = b\<lparr>bt_uart := bt_uart b @ digits @ [10]\<rparr> in
      if vga_is_initialized (bt_vga b1) then
        (case vga_console_puts (bt_vga b1) digits of
           None \<Rightarrow> Undef
         | Some v1 \<Rightarrow> (case vga_console_puts v1 [10] of None \<Rightarrow> Undef | Some v2 \<Rightarrow> Runs (b1\<lparr>bt_vga := v2\<rparr>)))
      else Runs b1)"

definition say :: "string \<Rightarrow> stage" where "say s = uart_puts (bytes s)"

definition halt :: stage where "halt b = Halts b"

definition on_k :: "(kstate \<Rightarrow> kstate) \<Rightarrow> stage" where "on_k f b = Runs (b\<lparr>bt_k := f (bt_k b)\<rparr>)"

subsection \<open>The stages\<close>

definition boot_trap :: "machine \<Rightarrow> stage" where
  "boot_trap mc = stages
     [say ''[trap] mtvec='', uart_hex (mc_mtvec mc), say ''[trap] mscratch='', uart_hex (mc_mscratch mc),
      if mc_mtvec mc AND NOT 0x3 = 0 then stages [say ''[trap] FAIL mtvec zero\<newline>'', halt] else say ''[trap] riscv OK\<newline>'']"

definition sim_ddc :: sim_cap_t where
  "sim_ddc = zero_sim_cap\<lparr>hw_base := 0x80000000, hw_top := 0x90000000, hw_addr := 0x80000000, hw_perms := 0xFF, hw_tag := 1\<rparr>"

definition boot_cheri :: stage where
  "boot_cheri =
     (if \<not> cheri_cap_is_valid sim_ddc 0x80000000 0x10000000 (CHERI_PERM_LOAD OR CHERI_PERM_STORE)
      then stages [say ''[CHERI] FAIL sim DDC\<newline>'', halt]
      else say ''[CHERI] hybrid sim DDC OK (tag=1 bounds 0x80000000-0x90000000)\<newline>'')"

definition create :: "u32 \<Rightarrow> u64 \<Rightarrow> u64 \<Rightarrow> u8 \<Rightarrow> kstate \<Rightarrow> kstate" where
  "create i off bud crit k =
     k\<lparr>k_sched := (case sched_partition_create (Some (k_sched k)) i off bud crit of Inl _ \<Rightarrow> k_sched k | Inr s \<Rightarrow> s)\<rparr>"

definition check_schedulable :: stage where
  "check_schedulable b =
     (case sched_is_schedulable (k_sched (bt_k b)) of
        None \<Rightarrow> Undef
      | Some False \<Rightarrow> stages [say ''[SCHED] NOT schedulable\<newline>'', halt] b
      | Some True \<Rightarrow> say ''[SCHED] partitions + EDF OK\<newline>'' b)"

definition boot_sched :: stage where
  "boot_sched = stages
     [on_k (\<lambda>k. k\<lparr>k_sched := sched_init\<rparr>),
      on_k (create 0 0 6000 1), on_k (create 1 6000 2000 3), on_k (create 2 8000 2000 2), check_schedulable]"

definition boot_cnode :: stage where
  "boot_cnode = stages
     [on_k (\<lambda>k. k\<lparr>k_cnodes := (case cnode_init (k_cnodes k) g_root_cnode 0 8 of Inl _ \<Rightarrow> k_cnodes k | Inr h \<Rightarrow> h)\<rparr>),
      say ''[CNODE] root OK\<newline>'']"

definition kernel_size :: "u64 \<Rightarrow> u64" where
  "kernel_size k_end =
     (let k_size = (k_end - 0x80000000 + PAGE_SIZE - 1) AND NOT (PAGE_SIZE - 1) in
      if k_size < 0x400000 then 0x400000 else k_size)"

definition put_space :: "vspace_t option \<Rightarrow> pt_env \<Rightarrow> boot_t \<Rightarrow> boot_t" where
  "put_space vs e b =
     b\<lparr>bt_k := (bt_k b)\<lparr>k_vspaces := (case vs of None \<Rightarrow> k_vspaces (bt_k b) | Some v \<Rightarrow> (k_vspaces (bt_k b))(0 := v)), k_pt := e\<rparr>\<rparr>"

definition init_space :: "layout \<Rightarrow> stage" where
  "init_space lay b =
     (if \<not> vspace_init_safe (lay_pool lay) 1 0 True (k_pt (bt_k b)) then Undef
      else case vspace_init_with_alloc (lay_pool lay) (Some (k_vspaces (bt_k b) 0)) 1 0 True (k_pt (bt_k b)) of
        (err, vs, e) \<Rightarrow>
          if err \<noteq> ERR_OK then stages [say ''[PAGING] vspace_init FAIL\<newline>'', halt] (put_space vs e b)
          else say ''[PAGING] root PT alloc OK (per-color via alloc_frame, color 0)\<newline>'' (put_space vs e b))"

text \<open>
  One map into the kernel's address space, which is element 0 of the array; the error decides how to
  go on.
\<close>

definition kmap :: "layout \<Rightarrow> u64 \<Rightarrow> u64 \<Rightarrow> u8 \<Rightarrow> (kerror_t \<Rightarrow> stage) \<Rightarrow> stage" where
  "kmap lay va sz perms go b =
     (if \<not> vspace_map_safe (lay_pool lay) (Some (k_vspaces (bt_k b) 0)) (k_pt (bt_k b)) va va sz perms 0 then Undef
      else case vspace_map (lay_pool lay) (Some (k_vspaces (bt_k b) 0)) (k_pt (bt_k b)) va va sz perms 0 of
        (err, vs, e) \<Rightarrow> go err (put_space vs e b))"

definition report_resolve :: "u64 \<Rightarrow> string \<Rightarrow> string \<Rightarrow> stage" where
  "report_resolve va good bad b =
     (if \<not> vspace_resolve_safe (Some (k_vspaces (bt_k b) 0)) (k_pt (bt_k b)) va (Some 0) then Undef
      else say (if vspace_resolve (Some (k_vspaces (bt_k b) 0)) (k_pt (bt_k b)) va (Some 0) = Some va then good else bad) b)"

definition boot_paging :: "layout \<Rightarrow> machine \<Rightarrow> stage" where
  "boot_paging lay mc = stages
     [on_k (\<lambda>k. k\<lparr>k_pt := (k_pt k)\<lparr>pe_alloc := alloc_init 0x80400000 0x400000\<rparr>, k_mdb := mdb_init\<rparr>),
      init_space lay,
      say ''k_size='', uart_hex (kernel_size (mc_kernel_end mc)),
      kmap lay 0x80000000 (kernel_size (mc_kernel_end mc)) 0x7
        (\<lambda>err. if err \<noteq> ERR_OK then stages [say ''[PAGING] kernel map FAIL err='', uart_hex (kerror_val err), halt]
               else stages [say ''[PAGING] kernel '', say ''Sv39'', say '' mapped\<newline>'']),
      kmap lay 0x10000000 PAGE_SIZE 0x3
        (\<lambda>err. if err \<noteq> ERR_OK then stages [say ''[PAGING] UART map FAIL\<newline>'', halt] else say ''[PAGING] UART mapped\<newline>''),
      report_resolve 0x80000000 ''[PAGING] resolve OK\<newline>'' ''[PAGING] resolve FAIL\<newline>'',
      report_resolve 0x10000000 ''[PAGING] UART resolve OK\<newline>'' ''[PAGING] UART resolve FAIL\<newline>'',
      \<lambda>b. Runs (b\<lparr>bt_satp := vspace_switch (Some (k_vspaces (bt_k b) 0))\<rparr>),
      say ''[PAGING] '', say ''Sv39'', say '' switch OK\<newline>'']"

definition boot_vga :: "layout \<Rightarrow> machine \<Rightarrow> stage" where
  "boot_vga lay mc b =
     (if \<not> vga_init_safe (lay_pool lay) (Some (k_vspaces (bt_k b) 0)) (k_pt (bt_k b)) then Undef
      else case vga_init (lay_pool lay) (mc_pci mc) (Some (k_vspaces (bt_k b) 0)) (k_pt (bt_k b)) (bt_vga b) of
        (err, vs, e, v, _) \<Rightarrow>
          let b1 = (put_space vs e b)\<lparr>bt_vga := v\<rparr> in
          if err = ERR_OK then
            (case vga_draw_hello (bt_vga b1) of
               None \<Rightarrow> Undef
             | Some v1 \<Rightarrow> stages [say ''[VGA] framebuffer mapped, drawing Hello world\<newline>'', say ''[VGA] Hello world on screen OK\<newline>'']
                            (b1\<lparr>bt_vga := v1\<rparr>))
          else say ''[VGA] FAIL map framebuffer\<newline>'' b1)"

text \<open>The trap entry passes thread 0 to the handler, whatever thread is running.\<close>

definition yield_trap :: "layout \<Rightarrow> trap_frame_t \<Rightarrow> u64 \<Rightarrow> u64 \<Rightarrow> stage" where
  "yield_trap lay f entry_us now b =
     (case syscall_handler lay entry_us now (Some (f\<lparr>tf_a7 := 3\<rparr>)) 0 (bt_k b) of
        None \<Rightarrow> Undef | Some (_, _, k1) \<Rightarrow> Runs (b\<lparr>bt_k := k1\<rparr>))"

definition boot_ecall :: "layout \<Rightarrow> machine \<Rightarrow> stage" where
  "boot_ecall lay mc = stages
     [say ''[TRAP] ecall test (SYS_YIELD)...\<newline>'', yield_trap lay (mc_frame mc) (mc_entry_us mc) (mc_exit_us mc),
      say ''[TRAP] ECALL RETURNED - OK\<newline>'', say ''[TRAP] HANDLER OK - DONE\<newline>'']"

definition root_untyped :: cap_t where
  "root_untyped = zero_cap\<lparr>c_type := CAP_UNTYPED, c_is_valid := 1, c_is_sealed := 1, c_rights := 0xFF,
     c_u := set_untyped_size 0x400000 (set_untyped_paddr 0x90000000 zero_u),
     c_hw_cap := zero_sim_cap\<lparr>hw_base := 0x90000000, hw_top := 0x90400000, hw_addr := 0x90000000, hw_tag := 1, hw_sealed := 1\<rparr>\<rparr>"

definition boot_untyped :: stage where
  "boot_untyped = on_k (\<lambda>k.
     k\<lparr>k_cnodes := (k_cnodes k)(0 := (set_slot 0 root_untyped (k_cnodes k 0))\<lparr>cn_used := 1\<rparr>),
       k_mdb := (case mdb_insert (Some (k_mdb k)) 0xFFFF 0 root_untyped (Some 0) of Inl _ \<Rightarrow> k_mdb k | Inr (_, m) \<Rightarrow> m)\<rparr>)"

definition boot_args :: "u64 \<Rightarrow> u64 \<Rightarrow> u32 \<Rightarrow> u8 \<Rightarrow> u64 \<Rightarrow> u64 \<Rightarrow> process_create_args_t" where
  "boot_args pc sp_top part prio budget period =
     \<lparr>pa_parent_cnode = 0, pa_untyped_cptr = 0, pa_partition_id = part, pa_budget_us = budget, pa_period_us = period,
      pa_priority = prio, pa_pc = pc, pa_sp_top = sp_top, pa_stack_size = 4096\<rparr>"

text \<open>Creation of a process on the globals, and what follows when it succeeds.\<close>

definition spawn :: "process_create_args_t \<Rightarrow> (u32 \<Rightarrow> stage) \<Rightarrow> stage" where
  "spawn args go b =
     (let k = bt_k b in
      case process_create (Some \<lparr>pv_tcbs = k_tcbs k, pv_alloc = pe_alloc (k_pt k), pv_sched = k_sched k, pv_mdb = k_mdb k\<rparr>)
             (Some args) (Some 0) of
        None \<Rightarrow> Undef
      | Some (err, pid, env) \<Rightarrow>
          let k1 = (case env of
                      None \<Rightarrow> k
                    | Some v \<Rightarrow> k\<lparr>k_tcbs := pv_tcbs v, k_pt := (k_pt k)\<lparr>pe_alloc := pv_alloc v\<rparr>, k_sched := pv_sched v, k_mdb := pv_mdb v\<rparr>) in
          (case pid of
             Some p \<Rightarrow> if err = ERR_OK then go p (b\<lparr>bt_k := k1\<rparr>) else Runs (b\<lparr>bt_k := k1\<rparr>)
           | None \<Rightarrow> Runs (b\<lparr>bt_k := k1\<rparr>)))"

definition resume_thread :: "u32 \<Rightarrow> stage" where
  "resume_thread pid = on_k (\<lambda>k.
     case tcb_resume (Some (tt_threads (k_tcbs k) (unat pid))) of
       None \<Rightarrow> k | Some t \<Rightarrow> k\<lparr>k_tcbs := upd_thread (unat pid) t (k_tcbs k)\<rparr>)"

definition boot_hello :: "machine \<Rightarrow> stage" where
  "boot_hello mc = spawn (boot_args (mc_user_hello mc) 0x80500000 0 10 1000 5000)
     (\<lambda>pid. stages [say ''[BOOT] hello thread created\<newline>'', resume_thread pid, say ''[BOOT] hello thread resumed\<newline>''])"

definition boot_retype :: "layout \<Rightarrow> stage" where
  "boot_retype lay b =
     (case cnode_lookup (k_cnodes (bt_k b)) g_root_cnode 0 of
        None \<Rightarrow> Runs b
      | Some i \<Rightarrow>
          let ut = cn_slots (k_cnodes (bt_k b) 0) i in
          if c_type ut \<noteq> CAP_UNTYPED then Runs b
          else (case handle_invoke lay (bt_k b) (Some ut) INV_UNTYPED_RETYPE (push_bit 8 5 OR 0) (ucast (cap_type_val CAP_FRAME)) 4096 of
             None \<Rightarrow> Undef
           | Some (re, k1) \<Rightarrow> say (if re = ERR_OK then ''[BOOT] handle_invoke retype OK\<newline>'' else ''[BOOT] retype FAIL\<newline>'') (b\<lparr>bt_k := k1\<rparr>)))"

definition boot_driver :: stage where
  "boot_driver = stages
     [say ''[BOOT] virtio_net driver isolated (MMIO+IRQ+IOMMU, partition 2, no kernel access)\<newline>'',
      say ''[BOOT] driver IOMMU window 0x50000000-0x50100000 (dev 0) OK\<newline>'',
      say ''[BOOT] driver IRQ 3 -> Notification badge 0x4000 OK\<newline>'']"

definition endpoint_cap :: "u64 \<Rightarrow> cap_t" where
  "endpoint_cap p = zero_cap\<lparr>c_type := CAP_ENDPOINT, c_is_valid := 1, c_is_sealed := 1, c_rights := 0xFF,
     c_u := set_endpoint_ep_ptr p zero_u, c_hw_cap := zero_sim_cap\<lparr>hw_tag := 1\<rparr>\<rparr>"

definition boot_endpoint :: "machine \<Rightarrow> nat \<Rightarrow> stage" where
  "boot_endpoint mc i = on_k (\<lambda>k.
     let cn = set_slot (10 + i) (endpoint_cap (mc_endpoint mc i)) (k_cnodes k 0) in
     k\<lparr>k_endpoints := (k_endpoints k)(i := (k_endpoints k i)\<lparr>ep_has_receiver := False, ep_q_len := 0, ep_pending := False\<rparr>),
       k_cnodes := (k_cnodes k)(0 := cn\<lparr>cn_used := cn_used cn + 1\<rparr>)\<rparr>)"

definition boot_server :: "machine \<Rightarrow> u64 \<Rightarrow> u32 \<Rightarrow> string \<Rightarrow> stage" where
  "boot_server mc sp_top part message = spawn (boot_args (mc_user_hello mc) sp_top part 5 500 2000)
     (\<lambda>pid. stages [resume_thread pid, say message, uart_hex (ucast pid)])"

definition kernel_boot :: "layout \<Rightarrow> machine \<Rightarrow> stage" where
  "kernel_boot lay mc = stages
     [say ''\<newline>[BOOT] MoonlightOS trap/paging/CHERI init\<newline>'',
      boot_trap mc, boot_cheri, boot_sched, boot_cnode, boot_paging lay mc, boot_vga lay mc, boot_ecall lay mc,
      say ''[FLUSH] MICROARCH OK\<newline>'',
      boot_untyped, boot_hello mc, boot_retype lay, boot_driver,
      boot_endpoint mc 1, boot_endpoint mc 2, boot_endpoint mc 3,
      boot_server mc 0x80600000 0 ''[BOOT] mem_server spawned pid '',
      boot_server mc 0x80700000 1 ''[BOOT] sched_server spawned pid '',
      boot_server mc 0x80800000 2 ''[BOOT] vfs_server spawned pid '',
      say ''[BOOT] ALL OK - parking\<newline>'']"

text \<open>
  The thread all boot processes run: its greeting, and one turn of its endless loop, a yield. The trap
  entry passes thread 0 to the handler, and the frame it restores is not looked at again.
\<close>

definition user_hello_start :: stage where
  "user_hello_start = say ''[USER] hello from userspace thread\<newline>''"

definition user_hello_turn :: "layout \<Rightarrow> trap_frame_t \<Rightarrow> u64 \<Rightarrow> u64 \<Rightarrow> stage" where
  "user_hello_turn = yield_trap"

text \<open>The messages of \<^verbatim>\<open>flush.c\<close>, which go to the serial line alone.\<close>

definition print_flush :: stage where
  "print_flush b = Runs (b\<lparr>bt_uart := bt_uart b @ bytes ''[FLUSH] microarch ok - done\<newline>''\<rparr>)"

definition print_boot_spawning :: stage where
  "print_boot_spawning b = Runs (b\<lparr>bt_uart := bt_uart b @ bytes ''[BOOT] ALL OK - spawning userspace\<newline>''\<rparr>)"

text \<open>The globals in the zeroed data segment, over any contents of memory.\<close>

definition zero_vspace :: vspace_t where
  "zero_vspace = \<lparr>vs_root = 0, vs_asid = 0, vs_partition_id = 0, vs_base = 0, vs_length = 0, vs_pt_pages_used = 0,
     vs_alloc = False, vs_pt_caps = (\<lambda>_. zero_cap), vs_pt_caps_count = 0\<rparr>"

definition zero_globals :: "(u64 \<Rightarrow> pte_t) \<Rightarrow> boot_t" where
  "zero_globals mem = \<lparr>bt_k = \<lparr>k_tcbs = \<lparr>tt_threads = (\<lambda>_. zero_tcb), tt_count = 0\<rparr>, k_endpoints = (\<lambda>_. zero_endpoint),
       k_sched = sched_init, k_cnodes = (\<lambda>_. zero_cnode),
       k_mdb = \<lparr>mdb_nodes = (\<lambda>_. zero_mdb_node), mdb_count = 0, mdb_free_head = 0\<rparr>,
       k_vspaces = (\<lambda>_. zero_vspace), k_pt = \<lparr>pe_mem = mem, pe_alloc = zero_frame_alloc, pe_fallback_next = 0\<rparr>\<rparr>,
     bt_vga = zero_vga, bt_uart = [], bt_satp = 0\<rparr>"

end
