(* ===== verification/BootProps.thy ===== *)
theory BootProps
  imports Boot
begin

text \<open>
  The boot sequence reaches the parking loop. The stages are verified with triples over the kernel
  state, which the messages leave alone; the counting lemmas of \<open>VspaceProgress\<close> show that the
  pool has room for every page table the kernel maps.
\<close>

named_theorems boot_rules

subsection \<open>Triples\<close>

definition triple :: "(kstate \<Rightarrow> bool) \<Rightarrow> stage \<Rightarrow> (kstate \<Rightarrow> bool) \<Rightarrow> bool" where
  "triple P f Q \<longleftrightarrow> (\<forall>b. console_inv (bt_vga b) \<longrightarrow> P (bt_k b) \<longrightarrow> (\<exists>b1. f b = Runs b1 \<and> console_inv (bt_vga b1) \<and> Q (bt_k b1)))"

lemma triple_stages:
  "triple P (stages []) P"
  "triple P f Q \<Longrightarrow> triple Q (stages fs) R \<Longrightarrow> triple P (stages (f # fs)) R"
  by (fastforce simp: triple_def)+

lemma triple_one: "triple P f Q \<Longrightarrow> triple P (stages [f]) Q"
  by (fastforce simp: triple_def)

lemma triple_conseq: "triple P f Q \<Longrightarrow> (\<And>k. P' k \<Longrightarrow> P k) \<Longrightarrow> (\<And>k. Q k \<Longrightarrow> Q' k) \<Longrightarrow> triple P' f Q'"
  by (fastforce simp: triple_def)

lemma triple_on_k: "(\<And>k. P k \<Longrightarrow> Q (f k)) \<Longrightarrow> triple P (on_k f) Q"
  by (simp add: triple_def on_k_def)

lemma triple_puts: "triple P (uart_puts s) P"
  unfolding triple_def
proof (intro allI impI)
  fix b :: boot_t assume c: "console_inv (bt_vga b)" and "P (bt_k b)"
  then show "\<exists>b1. uart_puts s b = Runs b1 \<and> console_inv (bt_vga b1) \<and> P (bt_k b1)"
    using console_runs[OF c, of s] by (auto simp: uart_puts_def Let_def)
qed

lemma triple_say: "triple P (say s) P"
  unfolding say_def by (rule triple_puts)

lemma triple_hex: "triple P (uart_hex v) P"
  unfolding triple_def
proof (intro allI impI)
  fix b :: boot_t assume c: "console_inv (bt_vga b)" and P: "P (bt_k b)"
  let ?d = "map (\<lambda>j. hex_digit v ((15 - j) * 4)) [0..<16]"
  obtain v1 where v1: "vga_console_puts (bt_vga b) ?d = Some v1" "console_inv v1" using console_runs[OF c] by blast
  obtain v2 where "vga_console_puts v1 [10] = Some v2" "console_inv v2" using console_runs[OF v1(2)] by blast
  then show "\<exists>b1. uart_hex v b = Runs b1 \<and> console_inv (bt_vga b1) \<and> P (bt_k b1)"
    using c P v1 by (auto simp: uart_hex_def Let_def simp del: upt_rec_numeral)
qed

text \<open>Messages are stepped over.\<close>

lemma triple_messages [boot_rules]:
  "triple P (stages fs) Q \<Longrightarrow> triple P (stages (say s # fs)) Q"
  "triple P (stages fs) Q \<Longrightarrow> triple P (stages (uart_hex v # fs)) Q"
  "triple P (stages []) P" "triple P (say s) P" "triple P (uart_hex v) P"
  using triple_stages(2)[OF triple_say] triple_stages(2)[OF triple_hex] triple_stages(1) triple_say triple_hex by blast+

subsection \<open>Room for the kernel's page tables\<close>

lemma boot_mark: "(after_page 0 ^^ Suc n) 0x80400000 = 0x80401000 + of_nat n * 0x10000"
proof (induction n)
  case 0
  show ?case by (simp add: after_page_eq skip_pages_def color_ix_def alloc_color_for_partition_def)
next
  case (Suc n)
  have "color_ix (0x80401000 + of_nat n * 0x10000) = 1"
  proof -
    have "color_ix 0x80401000 = 1" by (simp add: color_ix_def)
    then have "color_ix (0x80401000 + of_nat (16 * n) * 4096) = 1" unfolding color_ix_steps by simp
    then show ?thesis by (simp add: mult.commute)
  qed
  then have "skip_pages (alloc_color_for_partition 0) (0x80401000 + of_nat n * 0x10000) = 15"
    by (simp add: skip_pages_def alloc_color_for_partition_def)
  then have "after_page 0 (0x80401000 + of_nat n * 0x10000) = 0x80401000 + of_nat (Suc n) * 0x10000"
    by (simp add: after_page_eq algebra_simps)
  then show ?case using Suc by simp
qed

lemma boot_fits: "n \<le> 64 \<Longrightarrow> fits 0 0x80400000 0x80800000 n"
proof -
  assume n: "n \<le> 64"
  have "0x80401000 + of_nat k * 0x10000 \<le> (0x80800000 :: u64)" if "k < n" for k
  proof -
    have "unat (0x80401000 + of_nat k * 0x10000 :: u64) = 0x80401000 + k * 0x10000"
      using that n by (simp add: unat_word_ariths unat_of_nat take_bit_nat_eq_self)
    then show ?thesis using that n by (simp add: word_le_nat_alt)
  qed
  then show ?thesis by (simp add: fits_iff boot_mark del: funpow.simps)
qed

subsection \<open>The kernel's address space during boot\<close>

text \<open>
  \<open>n\<close> page-table pages taken from the pool, the tables \<open>T\<close>, and identity mappings of the ranges
  \<open>M\<close>, each a first address and a number of pages.
\<close>

definition identity :: "vspace_t \<Rightarrow> pt_env \<Rightarrow> u64 \<times> nat \<Rightarrow> bool" where
  "identity vs e r \<longleftrightarrow> (\<forall>k < snd r. \<exists>f. (\<forall>i\<ge>10. \<not> bit f i) \<and>
     vs_lookup vs e (vpn (fst r + of_nat k * 4096)) = Some (pte_encode (drop_bit 12 (fst r + of_nat k * 4096)) f))"

definition space_at :: "nat \<Rightarrow> pt_label set \<Rightarrow> (u64 \<times> nat) list \<Rightarrow> vspace_t \<Rightarrow> pt_env \<Rightarrow> bool" where
  "space_at n T M vs e \<longleftrightarrow> space_safe vs e \<and> vs_partition_id vs = 0 \<and> vs_asid vs = 1 \<and> tables vs e = T \<and>
     unat (vs_pt_caps_count vs) = n \<and> unat (vs_pt_pages_used vs) = n \<and>
     fa_top (pe_alloc e) = 0x80800000 \<and> fa_next (pe_alloc e) = (after_page 0 ^^ n) 0x80400000 \<and> list_all (identity vs e) M"

lemma identity_mono:
  assumes "vs_lookup vs e \<subseteq>\<^sub>m vs_lookup vs' e'" "identity vs e r"
  shows "identity vs' e' r"
proof -
  have "vs_lookup vs' e' v = Some x" if "vs_lookup vs e v = Some x" for v x
    using that assms(1) by (metis domI map_le_def)
  then show ?thesis using assms(2) unfolding identity_def by blast
qed

lemma map_ident:
  assumes "space_ok vs e" "vspace_map pool (Some vs) e va va sz perms 0 = (ERR_OK, Some vs', e')"
  shows "space_ok vs' e'" "vs_lookup vs e \<subseteq>\<^sub>m vs_lookup vs' e'" "identity vs' e' (va, unat sz div 4096)"
proof -
  have "map_loop pool vs e va va (map_flags vs perms) (page_offsets sz) = (ERR_OK, vs', e')"
    using vspace_map_loop[OF assms(2)] by simp
  note M = map_loop_spec[OF assms(1) this map_flags_valid(1)]
  show "space_ok vs' e'" "vs_lookup vs e \<subseteq>\<^sub>m vs_lookup vs' e'" using M by auto
  show "identity vs' e' (va, unat sz div 4096)"
    unfolding identity_def using M map_flags_valid(2) page_offsets_nth[of _ sz] by fastforce
qed

lemma map_step:
  fixes va sz :: u64
  defines "R \<equiv> (\<Union>j\<in>{..<(unat sz div 4096 + 511) div 512}. needs (va + of_nat j * 0x200000))"
  assumes "space_at n T M vs e" "unat va mod 2 ^ 21 = 0" "va mod 4096 = 0" "sz mod 4096 = 0" "unat sz \<le> 2 ^ 39"
    and "\<forall>a c. L0 a c \<in> R \<longrightarrow> L0 a c \<notin> T" "n + card (R - T) \<le> 64"
  shows "\<exists>vs' e'. vspace_map pool (Some vs) e va va sz perms 0 = (ERR_OK, Some vs', e') \<and>
    space_at (n + card (R - T)) (T \<union> R) ((va, unat sz div 4096) # M) vs' e'"
proof -
  note S = assms(2)[unfolded space_at_def]
  have safe: "space_safe vs e" and ok: "space_ok vs e" using S by (simp_all add: space_safe_def)
  have "pt_room vs e (card (R - T))"
    using S assms(8) fits_add[of 0 "0x80400000" "0x80800000" n "card (R - T)"] boot_fits[OF assms(8)] by (simp add: pt_room_def)
  then obtain vs' e' where r: "vspace_map pool (Some vs) e va va sz perms 0 = (ERR_OK, Some vs', e')"
    and g: "grown (card (R - T)) vs e vs' e'" and t: "tables vs' e' = T \<union> R"
    using map_fresh[OF ok, of va va sz pool perms] S assms(3-7) unfolding R_def by blast
  note I = map_ident[OF ok r]
  have "list_all (identity vs' e') ((va, unat sz div 4096) # M)"
    using I S identity_mono by (auto simp: list_all_iff)
  then have "space_at (n + card (R - T)) (T \<union> R) ((va, unat sz div 4096) # M) vs' e'"
    using S g t vspace_map_keeps_safe(1)[OF safe r] by (simp add: space_at_def grown_def same_space_def funpow_add add.commute[of n])
  then show ?thesis using r by blast
qed

lemma identity_resolves:
  assumes "space_ok vs e" "identity vs e r" "k < snd r" "vpn va = vpn (fst r + of_nat k * 4096)"
    and "push_bit 12 (drop_bit 12 (fst r + of_nat k * 4096)) OR (va AND 0xFFF) = va"
  shows "vspace_resolve (Some vs) e va (Some out) = Some va"
proof -
  obtain f where f: "\<forall>i\<ge>10. \<not> bit f i" "vs_lookup vs e (vpn va) = Some (pte_encode (drop_bit 12 (fst r + of_nat k * 4096)) f)"
    using assms(2-4) by (auto simp: identity_def)
  then show ?thesis
    using assms(1,5) pte_table_encode[OF f(1), of "fst r + of_nat k * 4096"] by (simp add: resolve_lookup pte_table_def space_ok_def)
qed

subsection \<open>The schedule of the boot processes\<close>

definition boot_plan :: "sched_op list" where
  "boot_plan = [Sched_create 0 0 6000 1, Sched_create 1 6000 2000 3, Sched_create 2 8000 2000 2,
     Sched_bind 0 0 0 1000 5000 10, Sched_bind 1 1 0 500 2000 5, Sched_bind 2 2 1 500 2000 5, Sched_bind 3 3 2 500 2000 5]"

definition boot_schedule :: "nat \<Rightarrow> sched_state_t" where
  "boot_schedule n = foldl sched_step sched_init (take (3 + n) boot_plan)"

definition bound_context :: "u32 \<Rightarrow> u32 \<Rightarrow> u64 \<Rightarrow> u64 \<Rightarrow> u8 \<Rightarrow> sched_context_t" where
  "bound_context tid part budget period prio = zero_sched_context\<lparr>sc_bound := True, sc_tcb_id := tid, sc_partition_id := part,
     sc_budget_us := budget, sc_period_us := period, sc_priority := prio, sc_remaining_us := budget, sc_deadline := period\<rparr>"

definition boot_contexts :: "sched_context_t list" where
  "boot_contexts = [bound_context 0 0 1000 5000 10, bound_context 1 0 500 2000 5, bound_context 2 1 500 2000 5, bound_context 3 2 500 2000 5]"

lemma schedule_inv: "sched_inv (boot_schedule n)"
proof -
  have "\<forall>a\<in>set (take (3 + n) boot_plan). sched_allowed a" by (auto simp: boot_plan_def dest!: in_set_takeD)
  then show ?thesis unfolding boot_schedule_def by (rule schedm.run_inv[OF sched_inv_init])
qed

lemma schedule_partitions:
  "s_num_partitions (boot_schedule 0) = 3"
  "tp_active (s_partitions (boot_schedule 0) 0) \<and> tp_budget_us (s_partitions (boot_schedule 0) 0) = 6000"
  "tp_active (s_partitions (boot_schedule 0) 1) \<and> tp_budget_us (s_partitions (boot_schedule 0) 1) = 2000"
  "tp_active (s_partitions (boot_schedule 0) 2) \<and> tp_budget_us (s_partitions (boot_schedule 0) 2) = 2000"
  by code_simp+

lemma create_contexts: "s_contexts (sched_step s (Sched_create i off bud crit)) = s_contexts s"
  by (auto simp: sched_partition_create_def split: sum.splits)

lemma schedule_contexts: "s_contexts (boot_schedule 0) = (\<lambda>_. zero_sched_context)"
  by (simp add: boot_schedule_def boot_plan_def create_contexts numeral_3_eq_3 del: sched_step.simps) (simp add: sched_init_def)

lemma schedule_steps:
  assumes "n < 4"
  shows "boot_schedule (Suc n) = sched_step (boot_schedule n) (boot_plan ! (3 + n))"
proof -
  have "take (Suc (3 + n)) boot_plan = take (3 + n) boot_plan @ [boot_plan ! (3 + n)]"
    using assms by (intro take_Suc_conv_app_nth) (simp add: boot_plan_def)
  then show ?thesis by (simp add: boot_schedule_def)
qed

lemma less_4_cases: "n < 4 \<Longrightarrow> n = 0 \<or> n = 1 \<or> n = 2 \<or> n = (3 :: nat)"
  by auto

definition boot_proc :: "u64 \<Rightarrow> nat \<Rightarrow> process_create_args_t" where
  "boot_proc pc n = [boot_args pc 0x80500000 0 10 1000 5000, boot_args pc 0x80600000 0 5 500 2000,
     boot_args pc 0x80700000 1 5 500 2000, boot_args pc 0x80800000 2 5 500 2000] ! n"

lemma schedule_facts:
  assumes "n < 4"
  shows "first_index 64 (\<lambda>c. \<not> sc_bound (s_contexts (boot_schedule n) c)) = Some n"
    "sched_is_schedulable (boot_schedule (Suc n)) = Some True"
proof -
  have "first_index 64 (\<lambda>c. \<not> sc_bound (s_contexts (boot_schedule 0) c)) = Some 0"
    "first_index 64 (\<lambda>c. \<not> sc_bound (s_contexts (boot_schedule 1) c)) = Some 1"
    "first_index 64 (\<lambda>c. \<not> sc_bound (s_contexts (boot_schedule 2) c)) = Some 2"
    "first_index 64 (\<lambda>c. \<not> sc_bound (s_contexts (boot_schedule 3) c)) = Some 3" by code_simp+
  then show "first_index 64 (\<lambda>c. \<not> sc_bound (s_contexts (boot_schedule n) c)) = Some n" using less_4_cases[OF assms] by auto
  have "sched_is_schedulable (boot_schedule 1) = Some True" "sched_is_schedulable (boot_schedule 2) = Some True"
    "sched_is_schedulable (boot_schedule 3) = Some True" "sched_is_schedulable (boot_schedule 4) = Some True" by code_simp+
  then show "sched_is_schedulable (boot_schedule (Suc n)) = Some True" using less_4_cases[OF assms] by (auto simp: numeral_eq_Suc)
qed

lemma schedule_bind:
  assumes "n < 4"
  shows "sched_context_bind (Some (boot_schedule n)) (of_nat n) (of_nat n) (pa_partition_id (boot_proc pc n))
    (pa_budget_us (boot_proc pc n)) (pa_period_us (boot_proc pc n)) (pa_priority (boot_proc pc n)) = Inr (boot_schedule (Suc n))"
proof -
  let ?b = "\<lambda>n p bud per prio. sched_context_bind (Some (boot_schedule n)) (of_nat n) (of_nat n) p bud per prio"
  have "isl (?b 0 0 1000 5000 10) = False" "isl (?b 1 0 500 2000 5) = False" "isl (?b 2 1 500 2000 5) = False"
    "isl (?b 3 2 500 2000 5) = False" by code_simp+
  then show ?thesis using less_4_cases[OF assms] schedule_steps[OF assms]
    by (elim disjE) (auto simp: boot_proc_def boot_args_def boot_plan_def isl_def split: sum.splits)
qed

subsection \<open>Creation of the boot processes\<close>

definition kernel_space :: "(u64 \<times> nat) list \<Rightarrow> kstate \<Rightarrow> bool" where
  "kernel_space M k \<longleftrightarrow> space_safe (k_vspaces k 0) (k_pt k) \<and> vs_asid (k_vspaces k 0) = 1 \<and> list_all (identity (k_vspaces k 0) (k_pt k)) M"

definition pool_at :: "nat \<Rightarrow> frame_alloc_t \<Rightarrow> bool" where
  "pool_at n a \<longleftrightarrow> fa_top a = 0x80800000 \<and> 0x80501000 \<le> unat (fa_next a) \<and> unat (fa_next a) \<le> 0x80501000 + n * 0x10000"

definition boot_thread :: "u64 \<Rightarrow> nat \<Rightarrow> tcb_t \<Rightarrow> bool" where
  "boot_thread pc i t \<longleftrightarrow> t_id t = of_nat i \<and> t_pc t = pc \<and> t_sp t = pa_sp_top (boot_proc pc i) \<and> t_cspace t = None \<and> t_ipc_buffer t = zero_msg \<and>
     t_time_partition t = pa_partition_id (boot_proc pc i) \<and> t_sched_context t = of_nat i \<and>
     0x80501000 \<le> unat (hw_base (t_csp t)) \<and> unat (hw_top (t_csp t)) \<le> 0x80541000"

text \<open>\<open>n\<close> processes created; \<open>r\<close> of them resumed.\<close>

definition launched :: "u64 \<Rightarrow> cnode_heap \<Rightarrow> endpoint_t arr \<Rightarrow> (u64 \<times> nat) list \<Rightarrow> nat \<Rightarrow> nat \<Rightarrow> kstate \<Rightarrow> bool" where
  "launched pc h ep M n r k \<longleftrightarrow> k_cnodes k = h \<and> k_endpoints k = ep \<and> k_sched k = boot_schedule n \<and>
     (\<forall>i<n. boot_thread pc i (tt_threads (k_tcbs k) i)) \<and> (\<forall>i<r. t_state (tt_threads (k_tcbs k) i) = TCB_RUNNABLE) \<and>
     (\<forall>i\<ge>n. tt_threads (k_tcbs k) i = zero_tcb) \<and> mdb_inv (k_mdb k) \<and> valid_at (k_mdb k) 0 \<and>
     kernel_space M k \<and> pool_at n (pe_alloc (k_pt k))"

lemma insert_mdb:
  assumes "mdb_inv m" "valid_at m 0" "parent_ok m p"
  shows "mdb_inv (case mdb_insert (Some m) p c cap (Some 0) of Inl _ \<Rightarrow> m | Inr (_, m1) \<Rightarrow> m1)"
    "valid_at (case mdb_insert (Some m) p c cap (Some 0) of Inl _ \<Rightarrow> m | Inr (_, m1) \<Rightarrow> m1) 0"
proof -
  let ?m = "case mdb_insert (Some m) p c cap (Some 0) of Inl _ \<Rightarrow> m | Inr (_, m1) \<Rightarrow> m1"
  have "mdb_inv ?m \<and> valid_at ?m 0"
  proof (cases "mdb_insert (Some m) p c cap (Some 0)")
    case (Inr r)
    obtain idx m1 where r: "r = (idx, m1)" by (cases r)
    note F = mdb_insert_forest(1,3,5)[OF assms(1) Inr[unfolded r] assms(3)]
    have "0 \<noteq> unat idx" using F(2) assms(2) by metis
    then show ?thesis using Inr r F(1) F(3)[of 0] assms(2) by simp
  qed (use assms in simp)
  then show "mdb_inv ?m" "valid_at ?m 0" by auto
qed

lemma pool_alloc:
  assumes "alloc_ok a" "pool_at n a" "n < 4" "part < 8"
  obtains c a1 where "alloc_frame (Some a) part 4096 (Some zero_cap) = Inr (c, a1)" "alloc_ok a1" "pool_at (Suc n) a1"
    "unat (fa_next a) \<le> unat (fa_next a1)" "0x80501000 \<le> unat (u_frame_paddr (c_u c))" "unat (u_frame_paddr (c_u c)) + 4096 \<le> 0x80501000 + Suc n * 0x10000"
proof -
  let ?col = "alloc_color_for_partition part"
  have lo: "unat (while (color_mismatch ?col) next_page (fa_next a)) = unat (fa_next a) + 4096 * skip_pages ?col (fa_next a)"
    using assms(2,3) by (intro color_search_nowrap) (auto simp: pool_at_def)
  have le: "unat (fa_next a) + 4096 * skip_pages ?col (fa_next a) + 4096 \<le> 0x80501000 + Suc n * 0x10000"
    using assms(2) skip_pages_less[of ?col "fa_next a"] by (simp add: pool_at_def)
  then have "unat (while (color_mismatch ?col) next_page (fa_next a) + 4096) = unat (fa_next a) + 4096 * skip_pages ?col (fa_next a) + 4096"
    using lo assms(3) by (subst unat_add_lem[THEN iffD1]) simp_all
  then have "while (color_mismatch ?col) next_page (fa_next a) + 4096 \<le> fa_top a"
    using le assms(2,3) by (simp add: word_le_nat_alt pool_at_def)
  then obtain c a1 where al: "alloc_frame (Some a) part 4096 (Some zero_cap) = Inr (c, a1)"
    using assms(4) by (auto simp: alloc_frame_def Let_def not_le split: if_splits)
  note P = alloc_frame_page[OF assms(1) al] and D = alloc_frame_InrD[OF al]
  have "unat (u_frame_paddr (c_u c)) = unat (fa_next a) + 4096 * skip_pages ?col (fa_next a)" using D(10) lo by simp
  then show ?thesis using that[OF al P(1)] P(3,4) D(14) le assms(2) by (simp add: pool_at_def)
qed

lemma kernel_space_alloc:
  assumes "kernel_space M k" "alloc_ok a1" "unat (fa_next (pe_alloc (k_pt k))) \<le> unat (fa_next a1)" "fa_top a1 = fa_top (pe_alloc (k_pt k))"
    and "k_vspaces k1 = k_vspaces k" "k_pt k1 = (k_pt k)\<lparr>pe_alloc := a1\<rparr>"
  shows "kernel_space M k1"
proof -
  have "vs_lookup vs ((k_pt k)\<lparr>pe_alloc := a1\<rparr>) = vs_lookup vs (k_pt k)" for vs by (simp add: vs_lookup_def)
  then have "identity vs ((k_pt k)\<lparr>pe_alloc := a1\<rparr>) r = identity vs (k_pt k) r" for vs r by (simp add: identity_def)
  moreover have "pt_wf m r b" if "pt_wf m r a" "a \<le> b" for m r a b using that unfolding pt_wf_def by fastforce
  ultimately show ?thesis using assms by (auto simp: kernel_space_def space_safe_def space_ok_def pool_in_ram_def list_all_iff)
qed

lemma boot_proc_fields:
  assumes "n < 4"
  shows "pa_partition_id (boot_proc pc n) < 8" "pa_stack_size (boot_proc pc n) = 4096" "pa_pc (boot_proc pc n) = pc"
    "\<not> pa_budget_us (boot_proc pc n) > pa_period_us (boot_proc pc n)" "pa_budget_us (boot_proc pc n) \<noteq> 0"
    "pa_sp_top (boot_proc pc n) \<noteq> 0"
  using less_4_cases[OF assms] by (auto simp: boot_proc_def boot_args_def)

lemma spawn_creates:
  assumes L: "launched pc h ep M n n (bt_k b)" and n: "n < 4"
  shows "\<exists>k1. spawn (boot_proc pc n) go b = go (of_nat n) (b\<lparr>bt_k := k1\<rparr>) \<and> launched pc h ep M (Suc n) n k1"
proof -
  let ?k = "bt_k b" and ?args = "boot_proc pc n"
  note L' = L[unfolded launched_def]
  have al: "alloc_ok (pe_alloc (k_pt ?k))" using L' by (simp add: kernel_space_def space_safe_def space_ok_def)
  obtain c a1 where A: "alloc_frame (Some (pe_alloc (k_pt ?k))) (pa_partition_id ?args) 4096 (Some zero_cap) = Inr (c, a1)" "alloc_ok a1"
    "pool_at (Suc n) a1" "unat (fa_next (pe_alloc (k_pt ?k))) \<le> unat (fa_next a1)" "0x80501000 \<le> unat (u_frame_paddr (c_u c))"
    "unat (u_frame_paddr (c_u c)) + 4096 \<le> 0x80501000 + Suc n * 0x10000"
    using pool_alloc[OF al _ n boot_proc_fields(1)[OF n]] L' by metis
  have first: "first_index 128 (\<lambda>i. thread_free (tt_threads (k_tcbs ?k) i)) = Some n"
    using L' n boot_proc_fields(6) by (auto simp: first_index_Some_iff thread_free_def boot_thread_def zero_tcb_def)
  let ?t = "(new_thread (of_nat n) ?args c)\<lparr>t_sched_context := of_nat n\<rparr>"
  let ?tt = "upd_thread n ?t (k_tcbs ?k)"
  let ?m = "case mdb_insert (Some (k_mdb ?k)) 0xFFFF (of_nat n) c (Some 0) of Inl _ \<Rightarrow> k_mdb ?k | Inr (_, m1) \<Rightarrow> m1"
  let ?k1 = "?k\<lparr>k_tcbs := ?tt\<lparr>tt_count := tt_count ?tt + 1\<rparr>, k_pt := (k_pt ?k)\<lparr>pe_alloc := a1\<rparr>, k_sched := boot_schedule (Suc n), k_mdb := ?m\<rparr>"
  have "spawn ?args go b = go (of_nat n) (b\<lparr>bt_k := ?k1\<rparr>)"
    using L' A(1) first boot_proc_fields[OF n] schedule_facts[OF n] schedule_bind[OF n]
    by (simp add: spawn_def process_create_def Let_def not_le[symmetric] cong: sum.case_cong)
  moreover have "boot_thread pc n ?t"
  proof -
    have "unat (u_frame_paddr (c_u c) + 4096) = unat (u_frame_paddr (c_u c)) + 4096"
      using A(6) n by (subst unat_add_lem[THEN iffD1]) simp_all
    then show ?thesis using A(5,6) n boot_proc_fields[OF n, of pc] by (simp add: boot_thread_def new_thread_def Let_def zero_tcb_def)
  qed
  moreover have "kernel_space M ?k" using L' by simp
  then have "kernel_space M ?k1" by (rule kernel_space_alloc[OF _ A(2,4)]) (use A(3) L' in \<open>simp_all add: pool_at_def\<close>)
  moreover have "mdb_inv (k_mdb ?k)" "valid_at (k_mdb ?k) 0" "parent_ok (k_mdb ?k) 0xFFFF" using L' by (simp_all add: parent_ok_def)
  then have "mdb_inv ?m" "valid_at ?m 0" by (rule insert_mdb)+
  ultimately have "spawn ?args go b = go (of_nat n) (b\<lparr>bt_k := ?k1\<rparr>) \<and> launched pc h ep M (Suc n) n ?k1"
    using L' A(3) by (auto simp: launched_def less_Suc_eq)
  then show ?thesis by blast
qed

lemma triple_spawn:
  assumes "n < 4" "triple (launched pc h ep M (Suc n) n) (go (of_nat n)) Q"
  shows "triple (launched pc h ep M n n) (spawn (boot_proc pc n) go) Q"
  unfolding triple_def
proof (intro allI impI)
  fix b :: boot_t assume "console_inv (bt_vga b)" "launched pc h ep M n n (bt_k b)"
  then show "\<exists>b1. spawn (boot_proc pc n) go b = Runs b1 \<and> console_inv (bt_vga b1) \<and> Q (bt_k b1)"
    using spawn_creates[OF _ assms(1), of pc h ep M b go] assms(2) by (fastforce simp: triple_def)
qed

lemma triple_resume: "n < 4 \<Longrightarrow> triple (launched pc h ep M (Suc n) n) (resume_thread (of_nat n)) (launched pc h ep M (Suc n) (Suc n))"
  unfolding resume_thread_def
  by (rule triple_on_k) (auto simp: launched_def boot_thread_def kernel_space_def less_Suc_eq take_bit_nat_eq_self unat_of_nat)

subsection \<open>The stages before the first process\<close>

definition root_node :: cnode_heap where
  "root_node = (\<lambda>_. zero_cnode)(0 := zero_cnode\<lparr>cn_guard := 0, cn_radix := 8\<rparr>)"

definition quiet :: "kstate \<Rightarrow> bool" where
  "quiet k \<longleftrightarrow> tt_threads (k_tcbs k) = (\<lambda>_. zero_tcb) \<and> k_endpoints k = (\<lambda>_. zero_endpoint)"

definition prepared :: "kstate \<Rightarrow> bool" where
  "prepared k \<longleftrightarrow> quiet k \<and> k_sched k = boot_schedule 0 \<and> k_cnodes k = root_node"

definition paged :: "nat \<Rightarrow> pt_label set \<Rightarrow> (u64 \<times> nat) list \<Rightarrow> kstate \<Rightarrow> bool" where
  "paged n T M k \<longleftrightarrow> prepared k \<and> k_mdb k = mdb_init \<and> space_at n T M (k_vspaces k 0) (k_pt k)"

lemma triple_trap: "mc_mtvec mc AND NOT 0x3 \<noteq> 0 \<Longrightarrow> triple P (boot_trap mc) P"
  unfolding boot_trap_def by (auto intro!: boot_rules)

lemma triple_cheri: "triple P boot_cheri P"
  unfolding boot_cheri_def by (simp add: cheri_cap_is_valid_def sim_ddc_def triple_say)

lemma triple_sched: "triple (\<lambda>k. quiet k \<and> k_cnodes k = h) boot_sched (\<lambda>k. quiet k \<and> k_cnodes k = h \<and> k_sched k = boot_schedule 0)"
proof -
  let ?P = "\<lambda>s k. quiet k \<and> k_cnodes k = h \<and> k_sched k = s"
  have c: "triple (?P s) (on_k (create i off bud crit)) (?P (sched_step s (Sched_create i off bud crit)))" for s i off bud crit
    by (rule triple_on_k) (auto simp: create_def quiet_def split: sum.splits)
  have "sched_is_schedulable (boot_schedule 0) = Some True" by code_simp
  then have ok: "triple (?P (boot_schedule 0)) check_schedulable (?P (boot_schedule 0))"
    using triple_say[of "?P (boot_schedule 0)"] by (simp add: triple_def check_schedulable_def)
  have eq: "boot_schedule 0 = sched_step (sched_step (sched_step sched_init (Sched_create 0 0 6000 1)) (Sched_create 1 6000 2000 3)) (Sched_create 2 8000 2000 2)"
    by (simp add: boot_schedule_def boot_plan_def numeral_3_eq_3 del: sched_step.simps)
  have i: "triple (\<lambda>k. quiet k \<and> k_cnodes k = h) (on_k (\<lambda>k. k\<lparr>k_sched := sched_init\<rparr>)) (?P sched_init)"
    by (rule triple_on_k) (simp add: quiet_def)
  note seq = triple_stages(2)
  show ?thesis unfolding boot_sched_def eq by (rule seq[OF i seq[OF c seq[OF c seq[OF c triple_one[OF ok[unfolded eq]]]]]])
qed

lemma triple_cnode:
  "triple (\<lambda>k. quiet k \<and> k_cnodes k = (\<lambda>_. zero_cnode) \<and> k_sched k = boot_schedule 0) boot_cnode prepared"
  unfolding boot_cnode_def
proof (rule triple_stages(2)[where Q = prepared])
  show "triple prepared (stages [say ''[CNODE] root OK\<newline>'']) prepared" by (intro boot_rules)
qed (auto simp: prepared_def quiet_def cnode_init_def root_node_def intro!: triple_on_k)

text \<open>A map into the kernel's space that the tables have room for.\<close>

lemma triple_kmap:
  fixes va sz :: u64
  defines "R \<equiv> (\<Union>j\<in>{..<(unat sz div 4096 + 511) div 512}. needs (va + of_nat j * 0x200000))"
  assumes "unat va mod 2 ^ 21 = 0" "va mod 4096 = 0" "sz mod 4096 = 0" "unat sz \<le> 2 ^ 39"
    and "\<forall>a c. L0 a c \<in> R \<longrightarrow> L0 a c \<notin> T" "n + card (R - T) \<le> 64"
    and R: "n + card (R - T) = n'" "T \<union> R = T'" "unat sz div 4096 = m"
    and go: "triple (paged n' T' ((va, m) # M)) (go ERR_OK) Q"
  shows "triple (paged n T M) (kmap lay va sz perms go) Q"
  unfolding triple_def
proof (intro allI impI)
  fix b :: boot_t assume c: "console_inv (bt_vga b)" and p: "paged n T M (bt_k b)"
  obtain vs' e' where m: "vspace_map (lay_pool lay) (Some (k_vspaces (bt_k b) 0)) (k_pt (bt_k b)) va va sz perms 0 = (ERR_OK, Some vs', e')"
    "space_at (n + card (R - T)) (T \<union> R) ((va, unat sz div 4096) # M) vs' e'"
    using map_step[of n T M "k_vspaces (bt_k b) 0" "k_pt (bt_k b)" va sz "lay_pool lay" perms] p assms(2-7)
    unfolding R_def paged_def by blast
  have "paged (n + card (R - T)) (T \<union> R) ((va, unat sz div 4096) # M) (bt_k (put_space (Some vs') e' b))"
    using p m(2) by (simp add: paged_def prepared_def quiet_def put_space_def)
  moreover have "console_inv (bt_vga (put_space (Some vs') e' b))" using c by (simp add: put_space_def)
  ultimately show "\<exists>b1. kmap lay va sz perms go b = Runs b1 \<and> console_inv (bt_vga b1) \<and> Q (bt_k b1)"
    using go m(1) R p vspace_ops_safe(1) by (simp add: kmap_def triple_def paged_def space_at_def)
qed

lemma triple_init_space:
  "triple (\<lambda>k. prepared k \<and> k_mdb k = mdb_init \<and> pe_alloc (k_pt k) = alloc_init 0x80400000 0x400000) (init_space lay) (paged 1 {Root} [])"
  unfolding triple_def
proof (intro allI impI)
  fix b :: boot_t
  assume c: "console_inv (bt_vga b)"
    and p: "prepared (bt_k b) \<and> k_mdb (bt_k b) = mdb_init \<and> pe_alloc (k_pt (bt_k b)) = alloc_init 0x80400000 0x400000"
  have al: "alloc_ok (alloc_init 0x80400000 0x400000)"
    by (simp add: alloc_ok_def alloc_inv_def alloc_init_def zero_frame_alloc_def aligned_def)
  have ram: "pool_in_ram (k_pt (bt_k b))" using p by (simp add: pool_in_ram_def alloc_init_def)
  have init: "vspace_init_safe (lay_pool lay) 1 0 True (k_pt (bt_k b))" using vspace_init_safe(1)[OF _ ram] al p by simp
  note al moreover have "fits 0 (fa_next (alloc_init 0x80400000 0x400000)) (fa_top (alloc_init 0x80400000 0x400000)) 1"
    using boot_fits[of 1] by (simp add: alloc_init_def)
  ultimately obtain vs e where
    v: "vspace_init_with_alloc (lay_pool lay) (Some (k_vspaces (bt_k b) 0)) 1 0 True (k_pt (bt_k b)) = (ERR_OK, Some vs, e)" "space_at 1 {Root} [] vs e"
    using vspace_init_fresh[of "k_pt (bt_k b)" 0 "lay_pool lay" "k_vspaces (bt_k b) 0" 1] vspace_init_safe(2)[of "k_pt (bt_k b)"] p ram by (auto simp: space_at_def alloc_init_def)
  have "paged 1 {Root} [] (bt_k (put_space (Some vs) e b))" using p v(2) by (simp add: paged_def prepared_def quiet_def put_space_def)
  moreover have "console_inv (bt_vga (put_space (Some vs) e b))" using c by (simp add: put_space_def)
  ultimately show "\<exists>b1. init_space lay b = Runs b1 \<and> console_inv (bt_vga b1) \<and> paged 1 {Root} [] (bt_k b1)"
    using triple_say[of "paged 1 {Root} []"] v(1) init by (simp add: triple_def init_space_def)
qed

subsection \<open>The kernel's mappings\<close>

lemma and_not_fff: "(w :: u64) AND NOT 0xFFF = push_bit 12 (drop_bit 12 w)"
proof -
  have "w AND NOT (mask 12) = push_bit 12 (drop_bit 12 w)" by (rule bit_word_eqI) (auto simp: bit_simps)
  then show ?thesis by (simp add: mask_eq_exp_minus_1)
qed

lemma kernel_size_eq:
  assumes "0x80000000 \<le> k_end" "k_end \<le> 0x80400000"
  shows "kernel_size k_end = 0x400000"
proof -
  let ?x = "k_end - 0x80000000 + 0x1000 - 1 :: u64"
  have "unat (k_end - 0x80000000) = unat k_end - 0x80000000" using assms by (subst unat_sub) (simp_all add: word_le_nat_alt)
  then have d: "unat (k_end - 0x80000000) \<le> 0x400000" using assms by (simp add: word_le_nat_alt)
  have "?x = k_end - 0x80000000 + 0xFFF" by simp
  then have x: "unat ?x \<le> 0x400FFF" using d by (subst \<open>?x = _\<close>, subst unat_add_lem[THEN iffD1]) simp_all
  let ?y = "?x AND NOT 0xFFF"
  have "?y = push_bit 12 (drop_bit 12 ?x)" by (rule and_not_fff)
  then have "?y = drop_bit 12 ?x * 4096" by (simp only: push_bit_eq_mult) simp
  moreover have "unat (drop_bit 12 ?x) \<le> 0x400" unfolding unat_drop_12 using div_le_mono[OF x, of 4096] by simp
  ultimately have "unat ?y \<le> 0x400000" by (simp only:) (subst unat_mult_lem[THEN iffD1], simp_all)
  then show ?thesis by (auto simp: kernel_size_def Let_def word_less_nat_alt word_unat_eq_iff)
qed

lemma kernel_tables:
  "(\<Union>j\<in>{..<(unat (0x400000 :: u64) div 4096 + 511) div 512}. needs (0x80000000 + of_nat j * 0x200000)) = {L1 2, L0 2 0, L0 2 1}"
  "(\<Union>j\<in>{..<(unat (0x1000 :: u64) div 4096 + 511) div 512}. needs (0x10000000 + of_nat j * 0x200000)) = {L1 0, L0 0 0x80}"
  "(\<Union>j\<in>{..<(unat (0x1D5000 :: u64) div 4096 + 511) div 512}. needs (0x40000000 + of_nat j * 0x200000)) = {L1 1, L0 1 0}"
  "(\<Union>j\<in>{..<(unat (0x1000 :: u64) div 4096 + 511) div 512}. needs (0x41000000 + of_nat j * 0x200000)) = {L1 1, L0 1 8}"
  "(\<Union>j\<in>{..<(unat (0x1000000 :: u64) div 4096 + 511) div 512}. needs (0x30000000 + of_nat j * 0x200000)) =
     {L1 0, L0 0 0x180, L0 0 0x181, L0 0 0x182, L0 0 0x183, L0 0 0x184, L0 0 0x185, L0 0 0x186, L0 0 0x187}"
  by (simp_all add: lessThan_nat_numeral lessThan_Suc needs_def vpn2_def vpn1_def insert_commute)

definition early_tables :: "pt_label set" where
  "early_tables = {Root, L1 2, L0 2 0, L0 2 1, L1 0, L0 0 0x80}"

definition early_map :: "(u64 \<times> nat) list" where "early_map = [(0x10000000, 1), (0x80000000, 1024)]"

lemma triple_paging:
  assumes "0x80000000 \<le> mc_kernel_end mc" "mc_kernel_end mc \<le> 0x80400000"
  shows "triple prepared (boot_paging lay mc) (paged 6 early_tables early_map)"
proof -
  note seq = triple_stages(2)
  let ?K = "paged 4 {Root, L1 2, L0 2 0, L0 2 1} [(0x80000000, 1024)]" and ?U = "paged 6 early_tables early_map"
  have i: "triple prepared (on_k (\<lambda>k. k\<lparr>k_pt := (k_pt k)\<lparr>pe_alloc := alloc_init 0x80400000 0x400000\<rparr>, k_mdb := mdb_init\<rparr>))
      (\<lambda>k. prepared k \<and> k_mdb k = mdb_init \<and> pe_alloc (k_pt k) = alloc_init 0x80400000 0x400000)"
    by (rule triple_on_k) (simp add: prepared_def quiet_def)
  have kern: "triple (paged 1 {Root} []) (kmap lay 0x80000000 0x400000 0x7
        (\<lambda>err. if err \<noteq> ERR_OK then stages [say ''[PAGING] kernel map FAIL err='', uart_hex (kerror_val err), halt]
               else stages [say ''[PAGING] kernel '', say ''Sv39'', say '' mapped\<newline>''])) ?K"
    by (rule triple_kmap[where va = "0x80000000" and sz = "0x400000" and n' = 4 and m = 1024 and T' = "{Root, L1 2, L0 2 0, L0 2 1}", unfolded kernel_tables])
      (auto intro!: boot_rules)
  have uart: "triple ?K (kmap lay 0x10000000 PAGE_SIZE 0x3
        (\<lambda>err. if err \<noteq> ERR_OK then stages [say ''[PAGING] UART map FAIL\<newline>'', halt] else say ''[PAGING] UART mapped\<newline>'')) ?U"
    by (rule triple_kmap[where va = "0x10000000" and sz = "0x1000" and n' = 6 and m = 1 and T' = early_tables, unfolded kernel_tables])
      (auto intro!: boot_rules simp: early_tables_def early_map_def)
  have rep: "triple ?U (report_resolve va good bad) ?U" for va good bad
    using triple_say[of ?U] vspace_ops_safe(3) by (simp add: triple_def report_resolve_def paged_def space_at_def)
  have satp: "triple ?U (\<lambda>b. Runs (b\<lparr>bt_satp := vspace_switch (Some (k_vspaces (bt_k b) 0))\<rparr>)) ?U"
    by (simp add: triple_def)
  show ?thesis unfolding boot_paging_def kernel_size_eq[OF assms]
    by (intro seq[OF i] seq[OF triple_init_space] boot_rules seq[OF kern] seq[OF uart] seq[OF rep] seq[OF satp])
qed

definition late_map :: "(u64 \<times> nat) list" where
  "late_map = (0x30000000, 4096) # (0x41000000, 1) # (0x40000000, 469) # early_map"

definition late_tables :: "pt_label set" where
  "late_tables = early_tables \<union> {L1 1, L0 1 0, L0 1 8, L0 0 0x180, L0 0 0x181, L0 0 0x182, L0 0 0x183, L0 0 0x184, L0 0 0x185, L0 0 0x186, L0 0 0x187}"

text \<open>The three mappings of the display succeed, whether or not a device is found.\<close>

lemma display_maps:
  assumes "space_at 6 early_tables early_map vs e"
  obtains vs1 e1 where
    "vga_init pool rd (Some vs) e v = (case first_index 32 (\<lambda>dev. is_display (rd (ecam dev))) of
       None \<Rightarrow> (ERR_NO_MEM, Some vs1, e1, v, [])
     | Some dev \<Rightarrow> (ERR_OK, Some vs1, e1,
         v\<lparr>vg_init_done := True, vg_fb := (\<lambda>i. if i < 100 then 0 else vg_fb v i), vg_cx := 0, vg_cy := 0\<rparr>, program_display rd (ecam dev)))"
    "space_at 17 late_tables late_map vs1 e1" "vga_init_safe pool (Some vs) e"
proof -
  let ?T1 = "early_tables \<union> {L1 1, L0 1 0}" and ?T2 = "early_tables \<union> {L1 1, L0 1 0} \<union> {L1 1, L0 1 8}"
  have c: "card ({L1 1, L0 1 0} - early_tables) = 2" "card ({L1 1, L0 1 8} - ?T1) = 1"
    "card ({L1 0, L0 0 0x180, L0 0 0x181, L0 0 0x182, L0 0 0x183, L0 0 0x184, L0 0 0x185, L0 0 0x186, L0 0 0x187} - ?T2) = 8"
    by (simp_all add: early_tables_def)
  have s: "((800 * 600 * (32 div 8)) + 4096 - 1) AND NOT (4096 - 1) = (0x1D5000 :: u64)" by simp
  obtain vs1 e1 where m1: "vspace_map pool (Some vs) e 0x40000000 0x40000000 0x1D5000 0x7 0 = (ERR_OK, Some vs1, e1)"
    and s1: "space_at 8 ?T1 ((0x40000000, 469) # early_map) vs1 e1"
    using map_step[OF assms, where pool = pool and perms = "0x7" and va = "0x40000000" and sz = "0x1D5000", unfolded kernel_tables c] by (auto simp: early_tables_def)
  obtain vs2 e2 where m2: "vspace_map pool (Some vs1) e1 0x41000000 0x41000000 0x1000 0x7 0 = (ERR_OK, Some vs2, e2)"
    and s2: "space_at 9 ?T2 ((0x41000000, 1) # (0x40000000, 469) # early_map) vs2 e2"
    using map_step[OF s1, where pool = pool and perms = "0x7" and va = "0x41000000" and sz = "0x1000", unfolded kernel_tables c] by (auto simp: early_tables_def)
  obtain vs3 e3 where m3: "vspace_map pool (Some vs2) e2 0x30000000 0x30000000 0x1000000 0x7 0 = (ERR_OK, Some vs3, e3)"
    and s3: "space_at 17 (?T2 \<union> {L1 0, L0 0 0x180, L0 0 0x181, L0 0 0x182, L0 0 0x183, L0 0 0x184, L0 0 0x185, L0 0 0x186, L0 0 0x187}) late_map vs3 e3"
    using map_step[OF s2, where pool = pool and perms = "0x7" and va = "0x30000000" and sz = "0x1000000", unfolded kernel_tables c] by (auto simp: early_tables_def late_map_def)
  have "?T2 \<union> {L1 0, L0 0 0x180, L0 0 0x181, L0 0 0x182, L0 0 0x183, L0 0 0x184, L0 0 0x185, L0 0 0x186, L0 0 0x187} = late_tables"
    by (auto simp: late_tables_def early_tables_def)
  moreover have "vga_init_safe pool (Some vs) e"
    using assms s1 s2 m1 m2 s vspace_ops_safe(1) by (simp add: vga_init_safe_def space_at_def Let_def)
  ultimately show ?thesis using that[of vs3 e3] m1 m2 m3 s3 s by (simp add: vga_init_def Let_def split: option.splits)
qed

lemma triple_vga: "triple (paged 6 early_tables early_map) (boot_vga lay mc) (paged 17 late_tables late_map)"
  unfolding triple_def
proof (intro allI impI)
  fix b :: boot_t assume c: "console_inv (bt_vga b)" and p: "paged 6 early_tables early_map (bt_k b)"
  have sp: "space_at 6 early_tables early_map (k_vspaces (bt_k b) 0) (k_pt (bt_k b))" using p by (simp add: paged_def)
  obtain vs e where i: "vga_init (lay_pool lay) (mc_pci mc) (Some (k_vspaces (bt_k b) 0)) (k_pt (bt_k b)) (bt_vga b) =
      (case first_index 32 (\<lambda>dev. is_display (mc_pci mc (ecam dev))) of
         None \<Rightarrow> (ERR_NO_MEM, Some vs, e, bt_vga b, [])
       | Some dev \<Rightarrow> (ERR_OK, Some vs, e, (bt_vga b)\<lparr>vg_init_done := True, vg_fb := (\<lambda>i. if i < 100 then 0 else vg_fb (bt_vga b) i), vg_cx := 0, vg_cy := 0\<rparr>,
           program_display (mc_pci mc) (ecam dev)))"
    and s: "space_at 17 late_tables late_map vs e" and safe: "vga_init_safe (lay_pool lay) (Some (k_vspaces (bt_k b) 0)) (k_pt (bt_k b))"
    by (rule display_maps[OF sp])
  have p1: "paged 17 late_tables late_map (bt_k ((put_space (Some vs) e b)\<lparr>bt_vga := v\<rparr>))" for v
    using p s by (simp add: paged_def prepared_def quiet_def put_space_def)
  note say = triple_say[of "paged 17 late_tables late_map", unfolded triple_def, rule_format]
  note two = triple_stages(2)[OF triple_say triple_one[OF triple_say], of "paged 17 late_tables late_map", unfolded triple_def, rule_format]
  show "\<exists>b1. boot_vga lay mc b = Runs b1 \<and> console_inv (bt_vga b1) \<and> paged 17 late_tables late_map (bt_k b1)"
  proof (cases "first_index 32 (\<lambda>dev. is_display (mc_pci mc (ecam dev)))")
    case None
    then show ?thesis using i p1 c say safe by (simp add: boot_vga_def)
  next
    case (Some dev)
    let ?v = "(bt_vga b)\<lparr>vg_init_done := True, vg_fb := (\<lambda>i. if i < 100 then 0 else vg_fb (bt_vga b) i), vg_cx := 0, vg_cy := 0\<rparr>"
    have "console_inv (vga_console_clear ?v)" by (simp add: vga_console_clear_def console_inv_def on_screen_def)
    from console_runs[OF this, of "[72, 101, 108, 108, 111, 32, 119, 111, 114, 108, 100, 10]"]
    obtain v1 where v1: "vga_draw_hello ?v = Some v1" "console_inv v1" by (auto simp: vga_draw_hello_def simp del: vga_console_puts.simps)
    then show ?thesis using i p1[of v1] Some two safe by (simp add: boot_vga_def Let_def del: stages.simps)
  qed
qed

lemma triple_ecall: "triple (paged n T M) (boot_ecall lay mc) (paged n T M)"
proof -
  have "syscall_handler lay t0 t1 (Some (f\<lparr>tf_a7 := 3\<rparr>)) 0 k = Some (ERR_WCET_EXCEEDED, Some (f\<lparr>tf_a7 := 3\<rparr>), k)"
    if "prepared k" for k t0 t1 f
    using that by (simp add: syscall_handler_def syscall_of_def prepared_def quiet_def schedule_contexts Let_def zero_tcb_def zero_sched_context_def)
  then have call: "triple (paged n T M) (yield_trap lay f t0 t1) (paged n T M)" for f t0 t1 by (simp add: triple_def paged_def yield_trap_def)
  show ?thesis unfolding boot_ecall_def by (intro boot_rules triple_stages(2)[OF call])
qed

subsection \<open>Capabilities and processes\<close>

definition boot_caps :: "machine \<Rightarrow> nat \<rightharpoonup> cap_t" where
  "boot_caps mc = [0 \<mapsto> root_untyped, 5 \<mapsto> cap_retype root_untyped CAP_FRAME 0x90000000 0x1000,
     11 \<mapsto> endpoint_cap (mc_endpoint mc 1), 12 \<mapsto> endpoint_cap (mc_endpoint mc 2), 13 \<mapsto> endpoint_cap (mc_endpoint mc 3)]"

lemma boot_caps_ran:
  assumes "c \<in> ran (boot_caps mc)"
  shows "c = root_untyped \<or> c = cap_retype root_untyped CAP_FRAME 0x90000000 0x1000 \<or>
    c = endpoint_cap (mc_endpoint mc 1) \<or> c = endpoint_cap (mc_endpoint mc 2) \<or> c = endpoint_cap (mc_endpoint mc 3)"
  using assms by (auto simp: ran_def boot_caps_def split: if_splits)

definition node_with :: "(nat \<rightharpoonup> cap_t) \<Rightarrow> u32 \<Rightarrow> cnode_heap" where
  "node_with cs n = root_node(0 := (root_node 0)\<lparr>cn_slots := (\<lambda>i. case cs i of None \<Rightarrow> zero_cap | Some c \<Rightarrow> c), cn_used := n\<rparr>)"

lemma root_node_with: "root_node = node_with Map.empty 0"
  by (auto simp: node_with_def root_node_def zero_cnode_def)

lemma node_with_set: "(node_with cs n)(0 := (set_slot i c (node_with cs n 0))\<lparr>cn_used := m\<rparr>) = node_with (cs(i \<mapsto> c)) m"
  by (auto simp: node_with_def set_slot_def fun_eq_iff)

lemma triple_untyped:
  "triple (paged 17 T M) boot_untyped (launched pc (node_with [0 \<mapsto> root_untyped] 1) (\<lambda>_. zero_endpoint) M 0 0)"
  unfolding boot_untyped_def
proof (rule triple_on_k)
  fix k assume p: "paged 17 T M k"
  note S = p[unfolded paged_def prepared_def quiet_def space_at_def]
  have nx: "fa_next (pe_alloc (k_pt k)) = 0x80501000"
  proof -
    have "17 = Suc 16" by simp
    then have "(after_page 0 ^^ 17) 0x80400000 = 0x80401000 + of_nat 16 * 0x10000" by (simp only: boot_mark)
    then show ?thesis using S by simp
  qed
  have m: "mdb_inv \<lparr>mdb_nodes = (mdb_nodes mdb_init)(0 := new_node mdb_init 0xFFFF 0 root_untyped), mdb_count = 1, mdb_free_head = 1\<rparr>"
    by (rule mdb_insert_forest(1)[OF mdb_inv_init mdb_first_insert]) (simp add: parent_ok_def)
  show "launched pc (node_with [0 \<mapsto> root_untyped] 1) (\<lambda>_. zero_endpoint) M 0 0
     (k\<lparr>k_cnodes := (k_cnodes k)(0 := (set_slot 0 root_untyped (k_cnodes k 0))\<lparr>cn_used := 1\<rparr>),
       k_mdb := (case mdb_insert (Some (k_mdb k)) 0xFFFF 0 root_untyped (Some 0) of Inl _ \<Rightarrow> k_mdb k | Inr (_, m) \<Rightarrow> m)\<rparr>)"
    using S nx m by (simp add: launched_def mdb_first_insert root_node_with node_with_set kernel_space_def pool_at_def new_node_def)
qed

lemma triple_retype:
  "triple (launched pc (node_with [0 \<mapsto> root_untyped] 1) ep M n n) (boot_retype lay)
     (launched pc (node_with [0 \<mapsto> root_untyped, 5 \<mapsto> cap_retype root_untyped CAP_FRAME 0x90000000 0x1000] 2) ep M n n)"
  unfolding triple_def
proof (intro allI impI)
  fix b :: boot_t
  let ?h = "node_with [0 \<mapsto> root_untyped] 1" and ?c = "cap_retype root_untyped CAP_FRAME 0x90000000 0x1000"
  assume c: "console_inv (bt_vga b)" and L: "launched pc ?h ep M n n (bt_k b)"
  let ?k = "bt_k b"
  note L' = L[unfolded launched_def]
  have can: "cap_can_retype root_untyped CAP_FRAME 0x1000" by (simp add: cap_can_retype_def root_untyped_def union_defs)
  then have v: "c_is_valid ?c = 1" by (simp add: cap_retype_def)
  have look: "cnode_lookup ?h (Some 0) 0 = Some 0"
    by (subst cnode_lookup_direct) (simp_all add: direct_node_def node_with_def root_node_def zero_cnode_def root_untyped_def cheri_tag_get_def)
  have slot: "cn_slots (?h 0) 0 = root_untyped" "cn_slots (?h 0) 5 = zero_cap" "cn_used (?h 0) = 1" by (simp_all add: node_with_def)
  let ?m = "case mdb_insert (Some (k_mdb ?k)) 0 5 ?c (Some 0) of Inl _ \<Rightarrow> k_mdb ?k | Inr (_, m1) \<Rightarrow> m1"
  let ?k1 = "?k\<lparr>k_cnodes := node_with [0 \<mapsto> root_untyped, 5 \<mapsto> ?c] 2, k_mdb := ?m\<rparr>"
  have "invoke_retype ?k root_untyped 0x500 5 0x1000 = (ERR_OK, ?k1)"
  proof -
    have "slot_arg (drop_bit 8 0x500) = 5" "cap_type_of 5 = CAP_FRAME" "u_untyped_paddr (c_u root_untyped) = 0x90000000"
      by (simp_all add: slot_arg_def cap_type_of_def root_untyped_def union_defs)
    then show ?thesis using can v L' slot by (simp add: invoke_retype_def Let_def node_with_set)
  qed
  then have inv: "handle_invoke lay ?k (Some root_untyped) INV_UNTYPED_RETYPE (push_bit 8 5 OR 0) (ucast (cap_type_val CAP_FRAME)) 4096 = Some (ERR_OK, ?k1)"
    by (simp add: handle_invoke_def cap_is_valid_def root_untyped_def cheri_tag_get_def)
  have "mdb_inv (k_mdb ?k)" "valid_at (k_mdb ?k) 0" "parent_ok (k_mdb ?k) 0" using L' by (simp_all add: parent_ok_def)
  then have "mdb_inv ?m" "valid_at ?m 0" by (rule insert_mdb)+
  then have "launched pc (node_with [0 \<mapsto> root_untyped, 5 \<mapsto> ?c] 2) ep M n n ?k1"
    using L' by (simp add: launched_def kernel_space_def)
  moreover have "c_type root_untyped = CAP_UNTYPED" by (simp add: root_untyped_def)
  ultimately show "\<exists>b1. boot_retype lay b = Runs b1 \<and> console_inv (bt_vga b1) \<and>
      launched pc (node_with [0 \<mapsto> root_untyped, 5 \<mapsto> ?c] 2) ep M n n (bt_k b1)"
    using c inv look slot L' triple_say[of "launched pc (node_with [0 \<mapsto> root_untyped, 5 \<mapsto> ?c] 2) ep M n n"]
    by (simp add: boot_retype_def Let_def triple_def)
qed

lemma triple_endpoint:
  assumes "u' = u + 1"
  shows "triple (launched pc (node_with cs u) (\<lambda>_. zero_endpoint) M n n) (boot_endpoint mc i)
    (launched pc (node_with (cs(10 + i \<mapsto> endpoint_cap (mc_endpoint mc i))) u') (\<lambda>_. zero_endpoint) M n n)"
  unfolding boot_endpoint_def
proof (rule triple_on_k)
  fix k assume "launched pc (node_with cs u) (\<lambda>_. zero_endpoint) M n n k"
  moreover have "cn_used (node_with cs u 0) = u" by (simp add: node_with_def)
  moreover have "zero_endpoint\<lparr>ep_has_receiver := False, ep_q_len := 0, ep_pending := False\<rparr> = zero_endpoint"
    by (simp add: zero_endpoint_def)
  ultimately show "launched pc (node_with (cs(10 + i \<mapsto> endpoint_cap (mc_endpoint mc i))) u') (\<lambda>_. zero_endpoint) M n n
     (let cn = set_slot (10 + i) (endpoint_cap (mc_endpoint mc i)) (k_cnodes k 0) in
      k\<lparr>k_endpoints := (k_endpoints k)(i := (k_endpoints k i)\<lparr>ep_has_receiver := False, ep_q_len := 0, ep_pending := False\<rparr>),
        k_cnodes := (k_cnodes k)(0 := cn\<lparr>cn_used := cn_used cn + 1\<rparr>)\<rparr>)"
    using assms by (simp add: launched_def Let_def node_with_set kernel_space_def fun_upd_idem)
qed

lemma triple_hello: "triple (launched (mc_user_hello mc) h ep M 0 0) (boot_hello mc) (launched (mc_user_hello mc) h ep M 1 1)"
proof -
  have "boot_args (mc_user_hello mc) 0x80500000 0 10 1000 5000 = boot_proc (mc_user_hello mc) 0" by (simp add: boot_proc_def)
  then show ?thesis unfolding boot_hello_def
    using triple_spawn[of 0 "mc_user_hello mc" h ep M] triple_stages(2)[OF triple_resume[of 0]] triple_messages by simp
qed

lemma triple_server:
  assumes "n < 4" "boot_args (mc_user_hello mc) sp_top part 5 500 2000 = boot_proc (mc_user_hello mc) n"
  shows "triple (launched (mc_user_hello mc) h ep M n n) (boot_server mc sp_top part message) (launched (mc_user_hello mc) h ep M (Suc n) (Suc n))"
  unfolding boot_server_def assms(2)
  by (intro triple_spawn[OF assms(1)] triple_stages(2)[OF triple_resume[OF assms(1)]] boot_rules)

lemma triple_boot:
  assumes "mc_mtvec mc AND NOT 0x3 \<noteq> 0" "0x80000000 \<le> mc_kernel_end mc" "mc_kernel_end mc \<le> 0x80400000"
  shows "triple (\<lambda>k. quiet k \<and> k_cnodes k = (\<lambda>_. zero_cnode)) (kernel_boot lay mc)
    (launched (mc_user_hello mc) (node_with (boot_caps mc) 5) (\<lambda>_. zero_endpoint) late_map 4 4)"
proof -
  note seq = triple_stages(2)
  have driver: "triple P boot_driver P" for P unfolding boot_driver_def by (intro boot_rules)
  have caps: "[0 \<mapsto> root_untyped, 5 \<mapsto> cap_retype root_untyped CAP_FRAME 0x90000000 0x1000,
      10 + 1 \<mapsto> endpoint_cap (mc_endpoint mc 1), 10 + 2 \<mapsto> endpoint_cap (mc_endpoint mc 2), 10 + 3 \<mapsto> endpoint_cap (mc_endpoint mc 3)] = boot_caps mc"
    by (simp add: boot_caps_def)
  have server: "triple (launched (mc_user_hello mc) h ep M 1 1) (boot_server mc 0x80600000 0 s) (launched (mc_user_hello mc) h ep M 2 2)"
    "triple (launched (mc_user_hello mc) h ep M 2 2) (boot_server mc 0x80700000 1 s) (launched (mc_user_hello mc) h ep M 3 3)"
    "triple (launched (mc_user_hello mc) h ep M 3 3) (boot_server mc 0x80800000 2 s) (launched (mc_user_hello mc) h ep M 4 4)" for h ep M s
    using triple_server[of 1 mc] triple_server[of 2 mc] triple_server[of 3 mc] by (simp_all add: boot_proc_def numeral_2_eq_2 numeral_3_eq_3 eval_nat_numeral)
  have ep: "triple (launched pc (node_with cs 2) (\<lambda>_. zero_endpoint) M n n) (boot_endpoint mc 1)
      (launched pc (node_with (cs(10 + 1 \<mapsto> endpoint_cap (mc_endpoint mc 1))) 3) (\<lambda>_. zero_endpoint) M n n)"
    "triple (launched pc (node_with cs 3) (\<lambda>_. zero_endpoint) M n n) (boot_endpoint mc 2)
      (launched pc (node_with (cs(10 + 2 \<mapsto> endpoint_cap (mc_endpoint mc 2))) 4) (\<lambda>_. zero_endpoint) M n n)"
    "triple (launched pc (node_with cs 4) (\<lambda>_. zero_endpoint) M n n) (boot_endpoint mc 3)
      (launched pc (node_with (cs(10 + 3 \<mapsto> endpoint_cap (mc_endpoint mc 3))) 5) (\<lambda>_. zero_endpoint) M n n)" for pc cs M n
    by (rule triple_endpoint, simp)+
  show ?thesis unfolding kernel_boot_def caps[symmetric]
    by (intro boot_rules seq[OF triple_trap[OF assms(1)]] seq[OF triple_cheri] seq[OF triple_sched] seq[OF triple_cnode]
        seq[OF triple_paging[OF assms(2,3)]] seq[OF triple_vga] seq[OF triple_ecall] seq[OF triple_untyped[where pc = "mc_user_hello mc"]] seq[OF triple_hello]
        seq[OF triple_retype] seq[OF driver] seq[OF ep(1)] seq[OF ep(2)] seq[OF ep(3)] seq[OF server(1)] seq[OF server(2)] seq[OF server(3)])
qed

subsection \<open>Identity mappings resolve\<close>

lemma page_base:
  assumes "aligned lo" "lo \<le> va"
  shows "lo + of_nat (unat va div 4096 - unat lo div 4096) * 4096 = push_bit 12 (drop_bit 12 va)"
proof -
  obtain q where q: "unat lo = 4096 * q" using alignedE[OF assms(1)] by blast
  let ?p = "unat va div 4096"
  have le: "q \<le> ?p" using assms(2) q div_le_mono[of "4096 * q" "unat va" 4096] by (simp add: word_le_nat_alt)
  have lt: "4096 * ?p < 2 ^ 64" using order_le_less_trans[OF times_div_less_eq_dividend unsigned_less[of va]] by simp
  have "unat (lo + of_nat (?p - q) * 4096) = 4096 * ?p"
  proof -
    have "unat lo + 4096 * (?p - q) = 4096 * ?p" using q le by (simp add: diff_mult_distrib2)
    then show ?thesis using lt by (simp only: unat_page_steps mod_less)
  qed
  moreover have "unat (push_bit 12 (drop_bit 12 va)) = 4096 * ?p"
  proof -
    have "push_bit 12 (drop_bit 12 va) = 4096 * drop_bit 12 va" by (simp add: push_bit_eq_mult)
    moreover have "unat (4096 * drop_bit 12 va) = 4096 * ?p" using lt by (subst unat_mult_lem[THEN iffD1]) (simp_all add: unat_drop_12)
    ultimately show ?thesis by simp
  qed
  ultimately show ?thesis using q by (simp add: word_unat_eq_iff)
qed

lemma drop_page_base: "12 \<le> n \<Longrightarrow> drop_bit n (push_bit 12 (drop_bit 12 (va :: u64))) = drop_bit n va"
  by (intro bit_word_eqI) (auto simp: bit_simps dest: bit_imp_le_length)

lemma vpn_page_base: "vpn (push_bit 12 (drop_bit 12 va)) = vpn va"
  by (simp add: vpn_def vpn2_def vpn1_def vpn0_def drop_page_base)

lemma page_offset_or: "push_bit 12 (drop_bit 12 (va :: u64)) OR (va AND 0xFFF) = va"
proof -
  have "push_bit 12 (drop_bit 12 va) OR (va AND mask 12) = va"
    by (rule bit_word_eqI) (auto simp: bit_simps)
  then show ?thesis by (simp add: mask_eq_exp_minus_1)
qed

lemma identity_range:
  assumes "space_ok vs e" "identity vs e (lo, n)" "aligned lo" "lo \<le> va" "unat va < unat lo + 4096 * n"
  shows "vspace_resolve (Some vs) e va (Some out) = Some va"
proof -
  let ?k = "unat va div 4096 - unat lo div 4096"
  obtain q where q: "unat lo = 4096 * q" using alignedE[OF assms(3)] by blast
  have "unat va div 4096 < q + n" using assms(5) q by (simp add: less_mult_imp_div_less)
  then have k: "?k < n" using q assms(4,5) by (cases "n = 0") (auto simp: word_le_nat_alt)
  note b = page_base[OF assms(3,4)]
  show ?thesis by (rule identity_resolves[OF assms(1,2), of ?k]) (simp_all add: b k vpn_page_base drop_page_base page_offset_or)
qed

subsection \<open>Properties\<close>

lemma zero_globals_quiet: "quiet (bt_k (zero_globals mem)) \<and> k_cnodes (bt_k (zero_globals mem)) = (\<lambda>_. zero_cnode)"
  by (simp add: quiet_def zero_globals_def)

lemma boot_launches:
  assumes "mc_mtvec mc AND NOT 0x3 \<noteq> 0" "0x80000000 \<le> mc_kernel_end mc" "mc_kernel_end mc \<le> 0x80400000"
  obtains b where "kernel_boot lay mc (zero_globals mem) = Runs b"
    "launched (mc_user_hello mc) (node_with (boot_caps mc) 5) (\<lambda>_. zero_endpoint) late_map 4 4 (bt_k b)"
proof -
  have "console_inv (bt_vga (zero_globals mem))" by (simp add: zero_globals_def zero_vga_def console_inv_def on_screen_def)
  then show ?thesis using that triple_boot[OF assms, of lay] zero_globals_quiet[of mem] unfolding triple_def by blast
qed

lemma boot_caps_of: "caps_of (node_with (boot_caps mc) 5) = (\<lambda>(n, i). if n = 0 then boot_caps mc i else None)"
proof -
  have can: "cap_can_retype root_untyped CAP_FRAME 0x1000" by (simp add: cap_can_retype_def root_untyped_def union_defs)
  have "c_is_valid c \<noteq> 0 \<and> i < 256" if "boot_caps mc i = Some c" for i c
    using that can by (auto simp: boot_caps_def root_untyped_def endpoint_cap_def cap_retype_def split: if_splits)
  then show ?thesis
    by (auto simp: caps_of_def node_with_def root_node_def zero_cnode_def fun_eq_iff split: option.splits)
qed

text \<open>
  C3 (liveness). The kernel boots: on a machine whose trap vector is set, with an image that ends below the
  frame pool, from the zeroed data segment, any contents of memory and any PCI devices, the boot
  sequence executes nothing undefined, enters no error loop and reaches its parking loop. There, the
  scheduler and the mapping database satisfy their invariants, the page tables are well formed and
  map the kernel image and the serial port to themselves, exactly the four boot processes exist and are
  runnable, each with its own scheduling context, and the root node holds exactly the untyped
  capability, the frame made from it, and the three server endpoints.
\<close>

theorem kernel_boot_parks:
  assumes "mc_mtvec mc AND NOT 0x3 \<noteq> 0" "0x80000000 \<le> mc_kernel_end mc" "mc_kernel_end mc \<le> 0x80400000"
  shows "\<exists>b. kernel_boot lay mc (zero_globals mem) = Runs b \<and>
    sched_inv (k_sched (bt_k b)) \<and> mdb_inv (k_mdb (bt_k b)) \<and> space_ok (k_vspaces (bt_k b) 0) (k_pt (bt_k b)) \<and>
    (\<forall>va. 0x80000000 \<le> va \<and> va < 0x80400000 \<or> 0x10000000 \<le> va \<and> va < 0x10001000 \<longrightarrow>
       vspace_resolve (Some (k_vspaces (bt_k b) 0)) (k_pt (bt_k b)) va (Some 0) = Some va) \<and>
    (\<forall>i<4. boot_thread (mc_user_hello mc) i (tt_threads (k_tcbs (bt_k b)) i) \<and> tcb_is_runnable (Some (tt_threads (k_tcbs (bt_k b)) i))) \<and>
    (\<forall>i\<ge>4. tt_threads (k_tcbs (bt_k b)) i = zero_tcb) \<and>
    caps_of (k_cnodes (bt_k b)) = (\<lambda>(n, i). if n = 0 then boot_caps mc i else None)"
proof -
  obtain b where b: "kernel_boot lay mc (zero_globals mem) = Runs b"
    and L: "launched (mc_user_hello mc) (node_with (boot_caps mc) 5) (\<lambda>_. zero_endpoint) late_map 4 4 (bt_k b)"
    by (rule boot_launches[OF assms])
  note L' = L[unfolded launched_def kernel_space_def space_safe_def]
  have id: "identity (k_vspaces (bt_k b) 0) (k_pt (bt_k b)) (0x80000000, 1024)" "identity (k_vspaces (bt_k b) 0) (k_pt (bt_k b)) (0x10000000, 1)"
    using L' by (simp_all add: late_map_def early_map_def)
  have "vspace_resolve (Some (k_vspaces (bt_k b) 0)) (k_pt (bt_k b)) va (Some 0) = Some va"
    if "0x80000000 \<le> va \<and> va < 0x80400000 \<or> 0x10000000 \<le> va \<and> va < 0x10001000" for va
    using that L' identity_range[OF _ id(1), of va 0] identity_range[OF _ id(2), of va 0]
    by (auto simp: aligned_def word_less_nat_alt)
  then show ?thesis using b L' boot_caps_of schedule_inv by (auto simp: tcb_is_runnable_def)
qed

definition demo_machine :: machine where
  "demo_machine = \<lparr>mc_mtvec = 0x80000100, mc_mscratch = 0, mc_kernel_end = 0x80040000, mc_user_hello = 0x80001000,
     mc_endpoint = (\<lambda>i. 0x80030000 + of_nat i * 0x2000), mc_pci = (\<lambda>_. 0xFFFFFFFF), mc_frame = demo_frame 0 0 0 0 0,
     mc_entry_us = 0, mc_exit_us = 0\<rparr>"

lemma demo_machine_ok:
  "mc_mtvec demo_machine AND NOT 0x3 \<noteq> 0" "0x80000000 \<le> mc_kernel_end demo_machine" "mc_kernel_end demo_machine \<le> 0x80400000"
  by (simp_all add: demo_machine_def)

theorem kernel_boot_parks_witness:
  "\<exists>b. kernel_boot demo_lay demo_machine (zero_globals (\<lambda>_. 7)) = Runs b \<and>
     vspace_resolve (Some (k_vspaces (bt_k b) 0)) (k_pt (bt_k b)) 0x80001234 (Some 0) = Some 0x80001234 \<and>
     tcb_is_runnable (Some (tt_threads (k_tcbs (bt_k b)) 3)) \<and> caps_of (k_cnodes (bt_k b)) (0, 0) = Some root_untyped"
proof -
  obtain b where b: "kernel_boot demo_lay demo_machine (zero_globals (\<lambda>_. 7)) = Runs b"
    and r: "\<forall>va. 0x80000000 \<le> va \<and> va < 0x80400000 \<or> 0x10000000 \<le> va \<and> va < 0x10001000 \<longrightarrow>
       vspace_resolve (Some (k_vspaces (bt_k b) 0)) (k_pt (bt_k b)) va (Some 0) = Some va"
    and t: "\<forall>i<4. boot_thread (mc_user_hello demo_machine) i (tt_threads (k_tcbs (bt_k b)) i) \<and> tcb_is_runnable (Some (tt_threads (k_tcbs (bt_k b)) i))"
    and c: "caps_of (k_cnodes (bt_k b)) = (\<lambda>(n, i). if n = 0 then boot_caps demo_machine i else None)"
    using kernel_boot_parks[OF demo_machine_ok] by metis
  show ?thesis using b r[rule_format, of "0x80001234"] t c by (auto simp: boot_caps_def)
qed

text \<open>
  C1 (safety). Spatial confinement from reset: after booting, however many system calls whichever threads
  make with whatever registers, no capability of any node reaches outside the four megabytes given
  to user space at boot. In particular none ever reaches the kernel image, its page tables or its
  stacks.
\<close>

theorem boot_confines_user_space:
  assumes "mc_mtvec mc AND NOT 0x3 \<noteq> 0" "0x80000000 \<le> mc_kernel_end mc" "mc_kernel_end mc \<le> 0x80400000"
    and "kernel_boot lay mc (zero_globals mem) = Runs b" "run_steps (sys_step lay) (bt_k b) calls = Some k"
    and "c \<in> ran (caps_of (k_cnodes k))"
  shows "region_cap 0x90000000 0x90400000 c"
proof -
  let ?S = "{c. region_cap 0x90000000 0x90400000 c}"
  have "launched (mc_user_hello mc) (node_with (boot_caps mc) 5) (\<lambda>_. zero_endpoint) late_map 4 4 (bt_k b)"
    using boot_launches[OF assms(1-3), of lay mem] assms(4) by (metis boot_out.inject(2))
  then have "caps_of (k_cnodes (bt_k b)) = (\<lambda>(n, i). if n = 0 then boot_caps mc i else None)"
    by (simp add: launched_def boot_caps_of)
  moreover have u: "region_cap 0x90000000 0x90400000 root_untyped" by (simp add: region_cap_def root_untyped_def union_defs)
  moreover have "cap_can_retype root_untyped CAP_FRAME 0x1000" by (simp add: cap_can_retype_def root_untyped_def union_defs)
  then have "region_cap 0x90000000 0x90400000 (cap_retype root_untyped CAP_FRAME 0x90000000 0x1000)"
    using retype_region[OF _ u] by (simp add: root_untyped_def union_defs)
  moreover have "region_cap 0x90000000 0x90400000 (endpoint_cap p)" for p by (simp add: region_cap_def endpoint_cap_def)
  ultimately have "\<forall>c\<in>ran (caps_of (k_cnodes (bt_k b))). region_cap 0x90000000 0x90400000 c"
    by (auto simp: ran_def boot_caps_def split: if_splits)
  then have "bounded_by ?S (k_cnodes k)"
    using sysm.run_inv[OF assms(5), of UNIV ?S] region_bounded_iff region_retype_closed[of "0x90400000" UNIV "0x90000000"] by auto
  then show ?thesis using assms(6) region_bounded_iff by blast
qed

theorem boot_confines_user_space_witness:
  "\<exists>b k. kernel_boot demo_lay demo_machine (zero_globals (\<lambda>_. 7)) = Runs b \<and>
     run_steps (sys_step demo_lay) (bt_k b) [(0, 0, demo_frame 3 0 0 0 0, 0), (0, 0, demo_frame 3 0 0 0 0, 3)] = Some k \<and>
     (\<forall>c\<in>ran (caps_of (k_cnodes k)). region_cap 0x90000000 0x90400000 c)"
proof -
  obtain b where b: "kernel_boot demo_lay demo_machine (zero_globals (\<lambda>_. 7)) = Runs b"
    and L: "launched (mc_user_hello demo_machine) (node_with (boot_caps demo_machine) 5) (\<lambda>_. zero_endpoint) late_map 4 4 (bt_k b)"
    by (rule boot_launches[OF demo_machine_ok])
  have t: "t_sched_context (tt_threads (k_tcbs (bt_k b)) 0) = 0" "t_sched_context (tt_threads (k_tcbs (bt_k b)) 3) = 3"
    "k_sched (bt_k b) = boot_schedule 4" using L by (auto simp: launched_def boot_thread_def)
  have s: "sc_remaining_us (s_contexts (boot_schedule 4) 0) = 1000" "sc_remaining_us (s_contexts (boot_schedule 4) 3) = 500" by code_simp+
  have y: "syscall_of (ucast (tf_a7 (demo_frame 3 0 0 0 0))) = Some SYS_YIELD" by (simp add: demo_frame_def syscall_of_def)
  have k: "run_steps (sys_step demo_lay) (bt_k b) [(0, 0, demo_frame 3 0 0 0 0, 0), (0, 0, demo_frame 3 0 0 0 0, 3)] = Some (bt_k b)"
    using t s by (simp add: syscall_handler_def y dispatch_def wcet_check_def Let_def)
  show ?thesis using b k boot_confines_user_space[OF demo_machine_ok b k] by blast
qed

text \<open>
  (safety). The boot processes do not get the stacks allocated for them: the stack pointer of every one
  of the four lies outside the bounds of its stack capability.
\<close>

theorem boot_stacks_outside:
  assumes "mc_mtvec mc AND NOT 0x3 \<noteq> 0" "0x80000000 \<le> mc_kernel_end mc" "mc_kernel_end mc \<le> 0x80400000"
    and "kernel_boot lay mc (zero_globals mem) = Runs b" "i < 4"
  shows "t_sp (tt_threads (k_tcbs (bt_k b)) i) < hw_base (t_csp (tt_threads (k_tcbs (bt_k b)) i)) \<or>
    hw_top (t_csp (tt_threads (k_tcbs (bt_k b)) i)) < t_sp (tt_threads (k_tcbs (bt_k b)) i)"
proof -
  have "launched (mc_user_hello mc) (node_with (boot_caps mc) 5) (\<lambda>_. zero_endpoint) late_map 4 4 (bt_k b)"
    using boot_launches[OF assms(1-3), of lay mem] assms(4) by (metis boot_out.inject(2))
  then have "boot_thread (mc_user_hello mc) i (tt_threads (k_tcbs (bt_k b)) i)" using assms(5) by (simp add: launched_def)
  then show ?thesis using less_4_cases[OF assms(5)]
    by (auto simp: boot_thread_def boot_proc_def boot_args_def word_less_nat_alt)
qed

theorem boot_stacks_outside_witness:
  "\<exists>b. kernel_boot demo_lay demo_machine (zero_globals (\<lambda>_. 7)) = Runs b \<and>
    (t_sp (tt_threads (k_tcbs (bt_k b)) 0) < hw_base (t_csp (tt_threads (k_tcbs (bt_k b)) 0)) \<or>
     hw_top (t_csp (tt_threads (k_tcbs (bt_k b)) 0)) < t_sp (tt_threads (k_tcbs (bt_k b)) 0))"
proof -
  obtain b where b: "kernel_boot demo_lay demo_machine (zero_globals (\<lambda>_. 7)) = Runs b" by (rule boot_launches[OF demo_machine_ok])
  show ?thesis using b boot_stacks_outside[OF demo_machine_ok b, of 0] by auto
qed

text \<open>
  (functional). Yielding gives nothing up: after boot, however often the greeting thread runs its loop, each
  trap returns and the whole state of the kernel stays as it was. No budget is charged and no other
  thread is chosen.
\<close>

theorem user_hello_turns:
  assumes "mc_mtvec mc AND NOT 0x3 \<noteq> 0" "0x80000000 \<le> mc_kernel_end mc" "mc_kernel_end mc \<le> 0x80400000"
    and "kernel_boot lay mc (zero_globals mem) = Runs b"
  shows "stages (map (\<lambda>(f, t0, t1). user_hello_turn lay f t0 t1) ts) b = Runs b"
proof -
  have "launched (mc_user_hello mc) (node_with (boot_caps mc) 5) (\<lambda>_. zero_endpoint) late_map 4 4 (bt_k b)"
    using boot_launches[OF assms(1-3), of lay mem] assms(4) by (metis boot_out.inject(2))
  then have "t_sched_context (tt_threads (k_tcbs (bt_k b)) 0) = 0" by (auto simp: launched_def boot_thread_def)
  then have "user_hello_turn lay f t0 t1 b = Runs b" for f t0 t1
    by (simp add: user_hello_turn_def yield_trap_def syscall_handler_def syscall_of_def dispatch_def Let_def)
  then show ?thesis by (induction ts) auto
qed

theorem user_hello_turns_witness:
  "\<exists>b. kernel_boot demo_lay demo_machine (zero_globals (\<lambda>_. 7)) = Runs b \<and>
     stages (map (\<lambda>(f, t0, t1). user_hello_turn demo_lay f t0 t1) [(demo_frame 0 0 0 0 0, 0, 5), (demo_frame 0 0 0 0 0, 9, 1000)]) b = Runs b"
proof -
  obtain b where b: "kernel_boot demo_lay demo_machine (zero_globals (\<lambda>_. 7)) = Runs b" by (rule boot_launches[OF demo_machine_ok])
  show ?thesis using b user_hello_turns[OF demo_machine_ok b] by blast
qed

end
