(* ===== verification/VspaceIsolation.thy ===== *)
theory VspaceIsolation
  imports VspaceProgress
begin

text \<open>
  Several address spaces over one allocator and one memory: creations, maps and unmaps in any order.
  Every space keeps its own tables, so an operation on one of them leaves what the others
  map, and what their addresses resolve to, as it was.
\<close>

subsection \<open>Two spaces\<close>

definition apart :: "pt_env \<Rightarrow> vspace_t \<Rightarrow> vspace_t \<Rightarrow> bool" where
  "apart e vs vs' \<longleftrightarrow> (\<forall>l l' p. page_at (pe_mem e) (vs_root vs) l = Some p \<longrightarrow> page_at (pe_mem e) (vs_root vs') l' \<noteq> Some p)"

lemma apart_sym: "apart e vs vs' \<Longrightarrow> apart e vs' vs"
  by (auto simp: apart_def)

lemma apart_same: "same_space vs vs1 \<Longrightarrow> apart e vs1 vs' = apart e vs vs'"
  by (simp add: apart_def same_space_def)

lemma touches_other:
  assumes t: "touches (vs_root vs) e e'" and ok: "space_ok vs' e" "alloc_ok (pe_alloc e')" and ap: "apart e vs vs'"
  shows "page_at (pe_mem e') (vs_root vs') = page_at (pe_mem e) (vs_root vs')" "vs_lookup vs' e' = vs_lookup vs' e"
    "space_ok vs' e'" "apart e' vs vs'"
proof -
  let ?m = "pe_mem e" and ?r = "vs_root vs'"
  have wf: "pt_wf ?m ?r (unat (fa_next (pe_alloc e)))" using ok(1) by (simp add: space_ok_def)
  have "pe_mem e' (pte_addr p i) = ?m (pte_addr p i)" if "page_at ?m ?r l = Some p" "unat i < 512" for l p i
    using t that pt_wf_pageD(1,2)[OF wf that(1)] ap by (auto simp: touches_def apart_def)
  then show pages: "page_at (pe_mem e') ?r = page_at ?m ?r" and look: "vs_lookup vs' e' = vs_lookup vs' e"
    using pages_same[of ?m ?r "pe_mem e'"] by (auto simp: vs_lookup_def)
  have "pt_wf (pe_mem e') ?r (unat (fa_next (pe_alloc e')))"
    using wf t order_trans unfolding pt_wf_def pages touches_def by blast
  then show "space_ok vs' e'" using ok by (simp add: space_ok_def)
  show "apart e' vs vs'" unfolding apart_def pages
  proof (intro allI impI)
    fix l l' p assume p: "page_at (pe_mem e') (vs_root vs) l = Some p"
    then have "page_at ?m (vs_root vs) l = Some p \<or> unat (fa_next (pe_alloc e)) \<le> unat p" using t by (simp add: touches_def)
    then show "page_at ?m ?r l' \<noteq> Some p" using ap pt_wf_pageD(2)[OF wf, of l' p] by (auto simp: apart_def)
  qed
qed

subsection \<open>A machine of address spaces\<close>

datatype vs_op = VsNew vspace_t asid_t u32 | VsMap nat u64 u64 u64 u8 u16 | VsUnmap nat u64 u64

fun vs_target :: "vs_op \<Rightarrow> nat option" where
  "vs_target (VsNew vs asid part) = None"
| "vs_target (VsMap i vaddr paddr sz perms color) = Some i"
| "vs_target (VsUnmap i vaddr sz) = Some i"

fun vs_step :: "u64 \<Rightarrow> vspace_t list \<times> pt_env \<Rightarrow> vs_op \<Rightarrow> vspace_t list \<times> pt_env" where
  "vs_step pool (vss, e) (VsNew old asid part) =
     (case vspace_init_with_alloc pool (Some old) asid part True e of
        (ERR_OK, Some vs, e1) \<Rightarrow> (vss @ [vs], e1)
      | (_, _, e1) \<Rightarrow> (vss, e1))"
| "vs_step pool (vss, e) (VsMap i vaddr paddr sz perms color) =
     (if i < length vss then
        (case vspace_map pool (Some (vss ! i)) e vaddr paddr sz perms color of
           (err, Some vs, e1) \<Rightarrow> (vss[i := vs], e1)
         | (err, None, e1) \<Rightarrow> (vss, e1))
      else (vss, e))"
| "vs_step pool (vss, e) (VsUnmap i vaddr sz) =
     (if i < length vss then (vss, snd (vspace_unmap (Some (vss ! i)) e vaddr sz)) else (vss, e))"

definition spaces_ok :: "vspace_t list \<times> pt_env \<Rightarrow> bool" where
  "spaces_ok s \<longleftrightarrow> (case s of (vss, e) \<Rightarrow> alloc_ok (pe_alloc e) \<and>
     (\<forall>i<length vss. space_ok (vss ! i) e) \<and> (\<forall>i<length vss. \<forall>j<length vss. i \<noteq> j \<longrightarrow> apart e (vss ! i) (vss ! j)))"

text \<open>An operation on the space with number \<open>i\<close> that writes its own tables only.\<close>

lemma own_step:
  assumes s: "spaces_ok (vss, e)" "i < length vss" and t: "touches (vs_root (vss ! i)) e e'" "space_ok vs e'" "same_space (vss ! i) vs"
  shows "spaces_ok (vss[i := vs], e')" "j < length vss \<Longrightarrow> j \<noteq> i \<Longrightarrow> vs_lookup (vss ! j) e' = vs_lookup (vss ! j) e"
proof -
  have al: "alloc_ok (pe_alloc e')" using t(2) by (simp add: space_ok_def)
  have other: "vs_lookup (vss ! j) e' = vs_lookup (vss ! j) e \<and> space_ok (vss ! j) e' \<and> apart e' (vss ! i) (vss ! j) \<and>
    page_at (pe_mem e') (vs_root (vss ! j)) = page_at (pe_mem e) (vs_root (vss ! j))" if "j < length vss" "j \<noteq> i" for j
    using touches_other[OF t(1) _ al, of "vss ! j"] s that by (auto simp: spaces_ok_def)
  then show "j < length vss \<Longrightarrow> j \<noteq> i \<Longrightarrow> vs_lookup (vss ! j) e' = vs_lookup (vss ! j) e" by blast
  have "apart e' (vss[i := vs] ! j) (vss[i := vs] ! k)" if "j < length vss" "k < length vss" "j \<noteq> k" for j k
  proof -
    have vs: "apart e' vs (vss ! j)" if "j < length vss" "j \<noteq> i" for j using other[OF that] apart_same[OF t(3)] by simp
    consider "j = i" | "k = i" "j \<noteq> i" | "j \<noteq> i" "k \<noteq> i" using that by blast
    then show ?thesis
    proof cases
      case 3
      have "apart e (vss ! j) (vss ! k)" using s(1) that by (simp add: spaces_ok_def)
      then show ?thesis using 3 other that by (simp add: apart_def)
    qed (use that vs s(2) apart_sym in auto)
  qed
  moreover have "space_ok (vss[i := vs] ! j) e'" if "j < length vss" for j using that other t(2) by (cases "j = i") auto
  ultimately show "spaces_ok (vss[i := vs], e')" using al by (simp add: spaces_ok_def)
qed

text \<open>A new space: its root is a zeroed page above the allocator's mark.\<close>

lemma new_space:
  assumes s: "spaces_ok (vss, e)" and n: "alloc_pt_page pool vs0 e = (r, vs1, e1)" "vs_alloc vs0" "r \<noteq> 0"
  shows "spaces_ok (vss @ [vs1\<lparr>vs_root := r\<rparr>], e1)" "j < length vss \<Longrightarrow> vs_lookup (vss ! j) e1 = vs_lookup (vss ! j) e"
proof -
  let ?b = "unat (fa_next (pe_alloc e))" and ?vs = "vs1\<lparr>vs_root := r\<rparr>"
  have a: "same_space vs0 vs1" "alloc_ok (pe_alloc e1)" "aligned r" "?b \<le> unat r" "unat (fa_next (pe_alloc e1)) = unat r + 4096"
    "pe_mem e1 = zero_page r (pe_mem e)"
    using alloc_pt_page_spec[OF n(2) _ n(1)] n(3) s by (auto simp: spaces_ok_def)
  have al: "alloc_ok (pe_alloc e)" using s by (simp add: spaces_ok_def)
  note pages = fresh_root(1)[OF n(2) al n(1,3)] and new = fresh_root(2)[OF n(2) al n(1,3)]
  have wf: "pt_wf (pe_mem e) (vs_root (vss ! j)) ?b" "space_ok (vss ! j) e" if "j < length vss" for j
    using s that by (auto simp: spaces_ok_def space_ok_def)
  have same: "page_at (pe_mem e1) (vs_root (vss ! j)) = page_at (pe_mem e) (vs_root (vss ! j))"
    "vs_lookup (vss ! j) e1 = vs_lookup (vss ! j) e" if "j < length vss" for j
    using zero_page_same[OF wf(1)[OF that] a(3,4)] by (simp_all add: a(6) vs_lookup_def)
  then show "j < length vss \<Longrightarrow> vs_lookup (vss ! j) e1 = vs_lookup (vss ! j) e" by blast
  have old: "space_ok (vss ! j) e1" if "j < length vss" for j
  proof -
    have "pt_wf (pe_mem e1) (vs_root (vss ! j)) (unat (fa_next (pe_alloc e1)))"
      using wf(1)[OF that] a(4,5) unfolding pt_wf_def same(1)[OF that] by force
    then show ?thesis using wf(2)[OF that] a(2) by (simp add: space_ok_def)
  qed
  have ap: "apart e1 ?vs (vss ! j)" if "j < length vss" for j
    using pt_wf_pageD(2)[OF wf(1)[OF that]] a(4) by (fastforce simp: apart_def pages same(1)[OF that] split: if_splits)
  have "apart e1 (vss ! i) (vss ! j)" if "i < length vss" "j < length vss" "i \<noteq> j" for i j
    using s that by (simp add: spaces_ok_def apart_def same(1))
  then have "apart e1 ((vss @ [?vs]) ! i) ((vss @ [?vs]) ! j)" if "i < Suc (length vss)" "j < Suc (length vss)" "i \<noteq> j" for i j
    using that ap apart_sym[OF ap] by (cases "i < length vss"; cases "j < length vss") (simp_all add: nth_append)
  moreover have "space_ok ((vss @ [?vs]) ! i) e1" if "i < Suc (length vss)" for i
    using that new old by (cases "i < length vss") (simp_all add: nth_append)
  ultimately show "spaces_ok (vss @ [?vs], e1)" using a(2) by (simp add: spaces_ok_def)
qed

lemma vs_new_ok:
  assumes s: "spaces_ok (vss, e)" and st: "vs_step pool (vss, e) (VsNew old asid part) = (vss', e')"
  shows "spaces_ok (vss', e') \<and> length vss \<le> length vss' \<and>
    (\<forall>j<length vss. vss' ! j = vss ! j \<and> vs_lookup (vss ! j) e' = vs_lookup (vss ! j) e)"
proof -
  let ?vs = "\<lparr>vs_root = 0, vs_asid = asid, vs_partition_id = part, vs_base = 0, vs_length = 0,
    vs_pt_pages_used = 0, vs_alloc = True, vs_pt_caps = (\<lambda>_. zero_cap), vs_pt_caps_count = 0\<rparr> :: vspace_t"
  obtain r vs1 e1 where al: "alloc_pt_page pool ?vs e = (r, vs1, e1)" by (cases "alloc_pt_page pool ?vs e") auto
  show ?thesis
  proof (cases "r = 0")
    case True
    have "e1 = e" using alloc_pt_page_spec[OF _ _ al] True s by (simp add: spaces_ok_def)
    then show ?thesis using st al True s by (simp add: vspace_init_with_alloc_def Let_def)
  next
    case False
    have "vss' = vss @ [vs1\<lparr>vs_root := r\<rparr>]" "e' = e1" using st al False by (simp_all add: vspace_init_with_alloc_def Let_def)
    then show ?thesis using new_space[OF s al _ False] by (simp add: nth_append)
  qed
qed

lemma vs_step_ok:
  assumes s: "spaces_ok (vss, e)" and st: "vs_step pool (vss, e) a = (vss', e')"
  shows "spaces_ok (vss', e') \<and> length vss \<le> length vss' \<and>
    (\<forall>j<length vss. vs_target a \<noteq> Some j \<longrightarrow> vss' ! j = vss ! j \<and> vs_lookup (vss ! j) e' = vs_lookup (vss ! j) e)"
proof (cases a)
  case (VsNew old asid part)
  then show ?thesis using vs_new_ok[OF s] st by (simp del: vs_step.simps)
next
  case (VsMap i vaddr paddr sz perms color)
  show ?thesis
  proof (cases "i < length vss")
    case True
    have ok: "space_ok (vss ! i) e" using s True by (simp add: spaces_ok_def)
    obtain err vs e1 where m: "vspace_map pool (Some (vss ! i)) e vaddr paddr sz perms color = (err, Some vs, e1)"
      using vspace_map_space by blast
    have r: "vss' = vss[i := vs]" "e' = e1" using VsMap st m True by simp_all
    have "touches (vs_root (vss ! i)) e e1" "space_ok vs e1" "same_space (vss ! i) vs"
      using vspace_map_loop[OF m] map_loop_spec[OF ok _ map_flags_valid(1)] ok by fastforce+
    then show ?thesis using own_step[OF s True] VsMap r by auto
  qed (use VsMap st s in simp)
next
  case (VsUnmap i vaddr sz)
  show ?thesis
  proof (cases "i < length vss")
    case True
    have ok: "space_ok (vss ! i) e" using s True by (simp add: spaces_ok_def)
    have "touches (vs_root (vss ! i)) e e'" "space_ok (vss ! i) e'" "vss' = vss"
      using VsUnmap st True ok unmap_loop_spec[OF ok] by (auto simp: vspace_unmap_def)
    then show ?thesis using own_step[OF s True, of e' "vss ! i"] VsUnmap by auto
  qed (use VsUnmap st s in simp)
qed

interpretation vsm: invariant_machine "vs_step pool" spaces_ok for pool
proof
  fix s a assume "spaces_ok s"
  then show "spaces_ok (vs_step pool s a)" using vs_step_ok[of "fst s" "snd s" pool a] by (cases "vs_step pool s a") simp
qed

lemma vs_run_other:
  assumes "spaces_ok (vss, e)" "foldl (vs_step pool) (vss, e) as = (vss', e')" "j < length vss" "\<forall>a\<in>set as. vs_target a \<noteq> Some j"
  shows "j < length vss' \<and> vss' ! j = vss ! j \<and> vs_lookup (vss ! j) e' = vs_lookup (vss ! j) e"
  using assms
proof (induction as arbitrary: vss e)
  case (Cons a as)
  obtain vss1 e1 where st: "vs_step pool (vss, e) a = (vss1, e1)" by (cases "vs_step pool (vss, e) a")
  note S = vs_step_ok[OF Cons.prems(1) st]
  have "foldl (vs_step pool) (vss1, e1) as = (vss', e')" "j < length vss1" using Cons.prems S st by auto
  from Cons.IH[OF _ this] show ?case using S Cons.prems(3,4) by auto
qed simp

subsection \<open>Properties\<close>

text \<open>
  C6 (safety). Address spaces are isolated. Start with no address space and let any sequence of operations
  create spaces and change their mappings, also with operations that fail halfway for lack of memory;
  every space is then a tree of tables of its own, no page being a table of two of them. Whatever is done
  next to other spaces, the pages of a given space stay mapped as they were and every
  address in it resolves as before.
\<close>

theorem address_spaces_isolated:
  assumes "alloc_ok (pe_alloc e0)" "foldl (vs_step pool) ([], e0) as = (vss, e)"
    and "foldl (vs_step pool) (vss, e) bs = (vss', e')" "j < length vss" "\<forall>b\<in>set bs. vs_target b \<noteq> Some j"
  shows "spaces_ok (vss, e) \<and> vs_lookup (vss' ! j) e' = vs_lookup (vss ! j) e \<and>
    vspace_resolve (Some (vss' ! j)) e' va out = vspace_resolve (Some (vss ! j)) e va out"
proof -
  have "spaces_ok ([], e0)" using assms(1) by (simp add: spaces_ok_def)
  from vsm.run_inv[OF this] have ok: "spaces_ok (vss, e)" using assms(2) by metis
  note R = vs_run_other[OF ok assms(3-5)]
  have "vs_root (vss ! j) \<noteq> 0" using ok assms(4) by (simp add: spaces_ok_def space_ok_def)
  then show ?thesis using R ok resolve_lookup[of "vss ! j"] by (cases out) (simp_all add: vspace_resolve_def[of _ _ _ None])
qed

text \<open>Two spaces over one pool, the first with a page mapped; a page of the second is mapped and unmapped.\<close>

definition iso_env :: pt_env where
  "iso_env = \<lparr>pe_mem = (\<lambda>_. 0), pe_alloc = alloc_init 0x80400000 0x400000, pe_fallback_next = 0\<rparr>"

definition iso_setup :: "vs_op list" where
  "iso_setup = [VsNew demo_vs 1 1, VsMap 0 0x40000000 0x80600000 0x1000 3 0, VsNew demo_vs 2 2]"

definition iso_later :: "vs_op list" where
  "iso_later = [VsMap 1 0x40000000 0x80700000 0x1000 3 0, VsUnmap 1 0x40000000 0x1000]"

lemma iso_alloc: "alloc_ok (pe_alloc iso_env)"
  by (simp add: iso_env_def alloc_ok_def alloc_inv_def alloc_init_def zero_frame_alloc_def aligned_def)

lemma iso_pages:
  "after_page 1 0x80400000 = 0x80403000" "after_page 1 0x80403000 = 0x80413000" "after_page 1 0x80413000 = 0x80423000"
  "after_page 2 0x80423000 = 0x80425000"
  by (simp_all add: after_page_eq skip_pages_def color_ix_def alloc_color_for_partition_def)

lemma iso_runs:
  "\<exists>vs vs2 e. foldl (vs_step 0) ([], iso_env) iso_setup = ([vs, vs2], e) \<and> vspace_resolve (Some vs) e 0x40000ABC (Some 0) = Some 0x80600ABC"
proof -
  have off: "page_offsets 0x1000 = [0]" by (simp add: page_offsets_def)
  have nx: "fa_next (pe_alloc iso_env) = 0x80400000" "fa_top (pe_alloc iso_env) = 0x80800000" by (simp_all add: iso_env_def alloc_init_def)
  obtain v e1 where i1: "vspace_init_with_alloc 0 (Some demo_vs) 1 1 True iso_env = (ERR_OK, Some v, e1)"
    and v: "space_ok v e1" "tables v e1 = {Root}" "vs_partition_id v = 1" "unat (vs_pt_caps_count v) = 1" "unat (vs_pt_pages_used v) = 1"
    and a1: "fa_top (pe_alloc e1) = 0x80800000" "fa_next (pe_alloc e1) = 0x80403000"
    using vspace_init_fresh[OF iso_alloc, of 1 0 demo_vs 1] nx iso_pages by auto
  have needs: "(\<Union>j\<in>{..<(unat (0x1000 :: u64) div 4096 + 511) div 512}. needs (0x40000000 + of_nat j * 0x200000)) = {L1 1, L0 1 0}"
    by (simp add: needs_def vpn2_def vpn1_def lessThan_Suc)
  have "fits 1 0x80403000 0x80800000 (Suc (Suc 0))" by (simp add: iso_pages)
  then have "pt_room v e1 2" using v a1 by (simp only: numeral_2_eq_2[symmetric]) (simp add: pt_room_def)
  then obtain vs e2 where m: "vspace_map 0 (Some v) e1 0x40000000 0x80600000 0x1000 3 0 = (ERR_OK, Some vs, e2)" and g: "grown 2 v e1 vs e2"
    using map_fresh[OF v(1), where vaddr = "0x40000000" and sz = "0x1000" and paddr = "0x80600000" and pool = 0 and perms = 3, unfolded needs v(2)]
    by (auto simp: numeral_2_eq_2[symmetric])
  have loop: "map_loop 0 v e1 0x40000000 0x80600000 (map_flags v 3) [0] = (ERR_OK, vs, e2)" using vspace_map_loop[OF m] off by simp
  have look: "space_ok vs e2" "vs_lookup vs e2 (vpn 0x40000000) = Some (pte_encode (drop_bit 12 0x80600000) (map_flags v 3))"
    using map_loop_spec[OF v(1) loop map_flags_valid(1)] by auto
  have "(after_page 1 ^^ Suc (Suc 0)) 0x80403000 = 0x80423000" by (simp add: iso_pages)
  then have a2: "alloc_ok (pe_alloc e2)" "fa_top (pe_alloc e2) = 0x80800000" "fa_next (pe_alloc e2) = 0x80423000"
    using look(1) g a1 v(3) unfolding numeral_2_eq_2[symmetric] by (auto simp: space_ok_def grown_def)
  obtain vs2 e where i2: "vspace_init_with_alloc 0 (Some demo_vs) 2 2 True e2 = (ERR_OK, Some vs2, e)"
    using vspace_init_fresh[OF a2(1), of 2 0 demo_vs 2] a2 iso_pages by auto
  have run: "foldl (vs_step 0) ([], iso_env) iso_setup = ([vs, vs2], e)" using i1 m i2 by (simp add: iso_setup_def)
  have "spaces_ok ([v], e1)" using v(1) by (simp add: spaces_ok_def space_ok_def)
  then have "spaces_ok ([vs], e2)" using vsm.step_inv[of "([v], e1)" 0 "VsMap 0 0x40000000 0x80600000 0x1000 3 0"] m by simp
  then have "vs_lookup vs e = vs_lookup vs e2" using vs_step_ok[of "[vs]" e2 0 "VsNew demo_vs 2 2"] i2 by fastforce
  then have "vspace_resolve (Some vs) e 0x40000ABC (Some 0) = Some 0x80600ABC"
    using look v(3) by (simp add: resolve_lookup space_ok_def vpn_def vpn2_def vpn1_def vpn0_def map_flags_def pte_encode_def pte_ppn_def)
  then show ?thesis using run by blast
qed

theorem address_spaces_isolated_witness:
  "case foldl (vs_step 0) ([], iso_env) (iso_setup @ iso_later) of (vss, e) \<Rightarrow> vspace_resolve (Some (vss ! 0)) e 0x40000ABC (Some 0) = Some 0x80600ABC"
proof -
  obtain vs vs2 e where s: "foldl (vs_step 0) ([], iso_env) iso_setup = ([vs, vs2], e)" "vspace_resolve (Some vs) e 0x40000ABC (Some 0) = Some 0x80600ABC"
    using iso_runs by blast
  obtain vss' e' where l: "foldl (vs_step 0) ([vs, vs2], e) iso_later = (vss', e')" by (cases "foldl (vs_step 0) ([vs, vs2], e) iso_later")
  have "vspace_resolve (Some (vss' ! 0)) e' 0x40000ABC (Some 0) = vspace_resolve (Some vs) e 0x40000ABC (Some 0)"
    using address_spaces_isolated[OF iso_alloc s(1) l, of 0 "0x40000ABC" "Some 0"] by (simp add: iso_later_def)
  then show ?thesis using s l by simp
qed

end
