(* ===== verification/KernelTypes.thy ===== *)
theory KernelTypes
  imports BootProps VspaceIsolation
begin

text \<open>
  Well-formedness of the whole kernel state, as a type discipline: every capability of a kernel object
  points at an object of its kind, every endpoint is a ring of messages that fit their buffers, every
  thread names a scheduling context that exists, every address space is a tree of tables of its own in
  memory, every node shifts by less than the width of its guard, and the scheduler and the mapping
  database satisfy their invariants. The handler keeps it, and in a well-formed state executes nothing undefined, as
  long as memory is not retyped into kernel objects, which \<^verbatim>\<open>cap_retype\<close> does not initialise. Boot
  establishes it.
\<close>

definition object_typed :: "layout \<Rightarrow> cap_t \<Rightarrow> bool" where
  "object_typed lay c \<longleftrightarrow>
     (c_type c = CAP_ENDPOINT \<longrightarrow> (\<exists>i. deref (lay_ep lay) (u_endpoint_ep_ptr (c_u c)) = Obj i)) \<and>
     (c_type c = CAP_TCB \<longrightarrow> (\<exists>i. deref (lay_tcb lay) (u_tcb_ptr (c_u c)) = Obj i)) \<and>
     (c_type c = CAP_VSPACE \<longrightarrow> (\<exists>i. deref (lay_vs lay) (u_vspace_root_pt (c_u c)) = Obj i))"

definition endpoint_wf :: "endpoint_t \<Rightarrow> bool" where
  "endpoint_wf ep \<longleftrightarrow> ring_inv ep \<and> msgs_ok ep"

definition thread_wf :: "tcb_t \<Rightarrow> bool" where
  "thread_wf t \<longleftrightarrow> t_sched_context t < 64 \<and> msg_caps (t_ipc_buffer t) \<le> IPC_CAPS_MAX"

definition objects_wf :: "kstate \<Rightarrow> bool" where
  "objects_wf k \<longleftrightarrow> (\<forall>i. endpoint_wf (k_endpoints k i)) \<and> (\<forall>i. thread_wf (tt_threads (k_tcbs k) i)) \<and>
     sched_inv (k_sched k) \<and> mdb_inv (k_mdb k) \<and> valid_at (k_mdb k) 0"

text \<open>The address spaces the kernel has objects for.\<close>

definition spaces_safe :: "layout \<Rightarrow> kstate \<Rightarrow> bool" where
  "spaces_safe lay k \<longleftrightarrow> (\<forall>v\<in>ran (lay_vs lay). space_safe (k_vspaces k v) (k_pt k)) \<and>
     (\<forall>v\<in>ran (lay_vs lay). \<forall>w\<in>ran (lay_vs lay). v \<noteq> w \<longrightarrow> apart (k_pt k) (k_vspaces k v) (k_vspaces k w))"

definition guards_ok :: "cnode_heap \<Rightarrow> bool" where
  "guards_ok h \<longleftrightarrow> (\<forall>n. cn_guard_size (h n) < 32)"

definition kernel_wf :: "layout \<Rightarrow> kstate \<Rightarrow> bool" where
  "kernel_wf lay k \<longleftrightarrow> (\<forall>c\<in>ran (caps_of (k_cnodes k)). object_typed lay c) \<and> objects_wf k \<and> spaces_safe lay k \<and> guards_ok (k_cnodes k)"

text \<open>The types of capabilities that do not point at a kernel object.\<close>

definition plain_types :: "cap_type_t set" where
  "plain_types = - {CAP_ENDPOINT, CAP_TCB, CAP_VSPACE}"

subsection \<open>Threads and endpoints\<close>

text \<open>What no operation of the interface but the configuration of a thread changes of the threads.\<close>

definition threads_keep :: "tcb_table_t \<Rightarrow> tcb_table_t \<Rightarrow> bool" where
  "threads_keep tt tt' \<longleftrightarrow> (\<forall>i. t_sched_context (tt_threads tt' i) = t_sched_context (tt_threads tt i) \<and>
     msg_caps (t_ipc_buffer (tt_threads tt' i)) = msg_caps (t_ipc_buffer (tt_threads tt i)) \<and>
     t_cspace (tt_threads tt' i) = t_cspace (tt_threads tt i))"

lemma threads_keep_refl [simp]: "threads_keep tt tt"
  by (simp add: threads_keep_def)

lemma threads_keep_trans: "threads_keep a b \<Longrightarrow> threads_keep b c \<Longrightarrow> threads_keep a c"
  by (simp add: threads_keep_def)

lemma threads_keep_upd:
  assumes "t_sched_context t = t_sched_context (tt_threads tt i)" "t_cspace t = t_cspace (tt_threads tt i)"
    and "msg_caps (t_ipc_buffer t) = msg_caps (t_ipc_buffer (tt_threads tt i))"
  shows "threads_keep tt (upd_thread i t tt)"
  using assms by (simp add: threads_keep_def)

lemma threads_keep_wf: "threads_keep tt tt' \<Longrightarrow> \<forall>i. thread_wf (tt_threads tt i) \<Longrightarrow> \<forall>i. thread_wf (tt_threads tt' i)"
  by (simp add: threads_keep_def thread_wf_def)

lemma wake_keeps: "threads_keep tt (wake_thread tt r s)" "threads_keep tt (resume_sender tt s)"
  by (auto simp: wake_thread_def resume_sender_def tcb_wake_Inr intro!: threads_keep_upd split: sum.splits)

lemma send_wf:
  assumes "endpoint_wf ep" "endpoint_send (Some ep) tt s (Some m) = Inr (ep1, tt1)"
  shows "endpoint_wf ep1" "threads_keep tt tt1"
proof -
  have ok: "msg_ok m" using assms(2) by (auto simp: endpoint_send_def msg_ok_def split: if_splits)
  have "endpoint_wf ep1 \<and> threads_keep tt tt1"
  proof (cases "ep_has_receiver ep")
    case True
    then show ?thesis using assms ok endpoint_send_rendezvous[OF True ok, of tt s] wake_keeps
      by (auto simp: endpoint_wf_def ring_inv_def msgs_ok_def msg_ok_def)
  next
    case False
    then have e: "ep1 = ep_push s m ep" "unat (ep_q_len ep) < 16" "tt1 = tt"
      using assms(2) endpoint_send_queued[OF False, of tt s m] by (auto split: if_splits)
    then have "ring_inv ep1" using assms(1) ep_push_ring(1) by (simp add: endpoint_wf_def)
    then show ?thesis using assms(1) e ok by (simp add: endpoint_wf_def msgs_ok_def ep_push_def msg_ok_def)
  qed
  then show "endpoint_wf ep1" "threads_keep tt tt1" by auto
qed

lemma recv_wf:
  assumes "endpoint_wf ep" "endpoint_recv (Some ep) tt r (Some out) = Inr (om, ep1, tt1)"
  shows "endpoint_wf ep1" "threads_keep tt tt1"
proof -
  have ring: "ring_inv ep" using assms(1) by (simp add: endpoint_wf_def)
  have "endpoint_wf ep1 \<and> threads_keep tt tt1"
  proof (cases "0 < unat (ep_q_len ep)")
    case True
    then have e: "ep1 = ep_pop ep" "threads_keep tt tt1"
      using assms(2) endpoint_recv_queued[OF ring True, of tt r out] wake_keeps(2) by auto
    have "ring_inv ep1" using e(1) ep_pop_ring(1)[OF ring True] by simp
    moreover from this have "msgs_ok ep1"
      using assms(1) e(1) by (auto simp: endpoint_wf_def msgs_ok_def ring_inv_def ep_pop_def Let_def split: if_splits)
    ultimately show ?thesis using e(2) by (simp add: endpoint_wf_def)
  next
    case False
    then show ?thesis using assms
      by (auto simp: endpoint_recv_def endpoint_wf_def ring_inv_def msgs_ok_def word_gt_0 unat_gt_0 split: if_splits)
  qed
  then show "endpoint_wf ep1" "threads_keep tt tt1" by auto
qed

subsection \<open>The handler\<close>

lemma objects_wf_threads:
  assumes "objects_wf k" "\<forall>i. thread_wf (tt_threads tt i)" "\<forall>i. endpoint_wf (eps i)"
  shows "objects_wf (k\<lparr>k_endpoints := eps, k_tcbs := tt\<rparr>)" "objects_wf (k\<lparr>k_tcbs := tt\<rparr>)"
  using assms by (simp_all add: objects_wf_def)

lemma put_thread_keeps:
  assumes "threads_keep (k_tcbs k) (upd_thread i t (k_tcbs k))"
  shows "threads_keep (k_tcbs k) (k_tcbs (put_thread k i t))" "objects_wf k \<Longrightarrow> objects_wf (put_thread k i t)"
  using assms threads_keep_wf[OF assms] by (simp_all add: put_thread_def objects_wf_def)

lemma set_state_wf:
  "threads_keep (k_tcbs k) (k_tcbs (set_state k cur st))" "objects_wf k \<Longrightarrow> objects_wf (set_state k cur st)"
  unfolding set_state_def by (rule put_thread_keeps, rule threads_keep_upd, simp_all)+

lemma send_to_wf:
  assumes "objects_wf k" "send_to lay k p cur m = Some (err, k1)"
  shows "objects_wf k1 \<and> threads_keep (k_tcbs k) (k_tcbs k1)"
proof (cases "deref (lay_ep lay) p")
  case (Obj i)
  have ep: "endpoint_wf (k_endpoints k i)" using assms(1) by (simp add: objects_wf_def)
  show ?thesis
  proof (cases "endpoint_send (Some (k_endpoints k i)) (k_tcbs k) cur (Some m)")
    case (Inr r)
    obtain ep1 tt1 where r: "r = (ep1, tt1)" by (cases r)
    note S = send_wf[OF ep Inr[unfolded r]]
    have k1: "k1 = k\<lparr>k_endpoints := (k_endpoints k)(i := ep1), k_tcbs := tt1\<rparr>"
      using assms(2) Obj Inr r by (simp add: send_to_def ret_def)
    have "\<forall>j. endpoint_wf (((k_endpoints k)(i := ep1)) j)" using S(1) assms(1) by (simp add: objects_wf_def)
    moreover have "\<forall>i. thread_wf (tt_threads tt1 i)" using S(2) assms(1) threads_keep_wf by (auto simp: objects_wf_def)
    ultimately show ?thesis using k1 S(2) objects_wf_threads(1)[OF assms(1)] by simp
  qed (use assms Obj in \<open>simp add: send_to_def ret_def\<close>)
qed (use assms in \<open>auto simp: send_to_def\<close>)

lemma recv_call_wf:
  assumes "objects_wf k" "sys_reply_recv lay k cur cap = Some (Inr (err, k1))"
  shows "objects_wf k1 \<and> threads_keep (k_tcbs k) (k_tcbs k1)"
proof -
  obtain i where i: "deref (lay_ep lay) (u_endpoint_ep_ptr (c_u cap)) = Obj i"
    using assms(2) by (auto simp: sys_reply_recv_def split: if_splits ptr.splits)
  have ep: "endpoint_wf (k_endpoints k i)" using assms(1) by (simp add: objects_wf_def)
  show ?thesis
  proof (cases "endpoint_recv (Some (k_endpoints k i)) (k_tcbs k) cur (Some zero_msg)")
    case (Inl e)
    then show ?thesis using assms i by (auto simp: sys_reply_recv_def Let_def split: if_splits)
  next
    case (Inr r)
    obtain om ep1 tt1 where r: "r = (om, ep1, tt1)" by (cases r)
    note R = recv_wf[OF ep Inr[unfolded r]]
    let ?k1 = "k\<lparr>k_endpoints := (k_endpoints k)(i := ep1), k_tcbs := tt1\<rparr>"
    have w: "objects_wf ?k1" using R threads_keep_wf[OF R(2)] assms(1) by (simp add: objects_wf_def)
    let ?t = "tt_threads tt1 (unat cur)"
    let ?t1 = "\<lambda>w l. ?t\<lparr>t_ipc_buffer := (t_ipc_buffer ?t)\<lparr>msg_words := w, msg_length := l\<rparr>\<rparr>"
    have "threads_keep (k_tcbs ?k1) (upd_thread (unat cur) (?t1 w l) (k_tcbs ?k1))" for w l by (intro threads_keep_upd) simp_all
    then have put: "objects_wf (put_thread ?k1 (unat cur) (?t1 w l))" "threads_keep tt1 (k_tcbs (put_thread ?k1 (unat cur) (?t1 w l)))" for w l
      using put_thread_keeps[of ?k1 "unat cur" "?t1 w l"] w by simp_all
    have "k1 = set_state ?k1 cur TCB_BLOCKED_RECV \<or> (\<exists>w l. k1 = put_thread ?k1 (unat cur) (?t1 w l))"
      using assms(2) i Inr r by (auto simp: sys_reply_recv_def Let_def split: if_splits option.splits)
    then show ?thesis
      using set_state_wf(2)[OF w] set_state_wf(1)[of ?k1] put threads_keep_trans[OF R(2)] by auto
  qed
qed

lemma ipc_wf:
  assumes "objects_wf k"
  shows "sys_call lay k cur cap a1 = Some (Inr (err, k1)) \<Longrightarrow> objects_wf k1 \<and> threads_keep (k_tcbs k) (k_tcbs k1)"
    and "sys_send lay k cur cap a1 = Some (Inr (err, k1)) \<Longrightarrow> objects_wf k1 \<and> threads_keep (k_tcbs k) (k_tcbs k1)"
  using send_to_wf[OF assms] set_state_wf threads_keep_trans
  by (auto simp: sys_call_def sys_send_def Let_def bind_eq_Some_conv split: if_splits; blast)+

lemma retype_wf: "objects_wf k \<Longrightarrow> objects_wf (snd (invoke_retype k cap a1 a2 a3))"
  using insert_mdb[of "k_mdb k" 0] by (auto simp: invoke_retype_def Let_def objects_wf_def parent_ok_def)

lemma sched_bind_wf:
  assumes "objects_wf k"
  shows "objects_wf (snd (invoke_sched_bind k cap a1 a2 a3))"
proof -
  have "sched_inv s" if "sched_context_bind (Some (k_sched k)) c t p bud per prio = Inr s" for c t p bud per prio s
    using schedm.step_inv[of "k_sched k" "Sched_bind c t p bud per prio"] assms that by (simp add: objects_wf_def)
  then show ?thesis using assms by (auto simp: invoke_sched_bind_def ret_def objects_wf_def split: sum.splits)
qed

lemma objects_wf_frame: "objects_wf (k\<lparr>k_pt := e\<rparr>) = objects_wf k" "objects_wf (k\<lparr>k_pt := e, k_vspaces := v\<rparr>) = objects_wf k"
  "objects_wf (put_cnodes k h) = objects_wf k"
  by (simp_all add: objects_wf_def put_cnodes_def)

lemma ret_cnodes_wf: "objects_wf k \<Longrightarrow> objects_wf (snd (ret k (put_cnodes k) r))"
  by (auto simp: ret_def objects_wf_frame split: sum.splits)

lemma spaces_wf:
  assumes "objects_wf k"
  shows "invoke_map lay k cap a2 a3 = Some (err, k') \<Longrightarrow> objects_wf k'"
    and "invoke_unmap lay k cap a2 a3 = Some (err, k') \<Longrightarrow> objects_wf k'"
  subgoal using assms by (auto simp: invoke_map_def Let_def objects_wf_frame split: if_splits option.splits ptr.splits prod.splits)
  subgoal using assms by (auto simp: invoke_unmap_def objects_wf_frame split: if_splits ptr.splits prod.splits)
  done

lemma tcb_control_wf:
  assumes "objects_wf k"
  shows "invoke_tcb_resume lay k cap = Some (err, k') \<Longrightarrow> objects_wf k'"
    and "invoke_tcb_suspend lay k cap = Some (err, k') \<Longrightarrow> objects_wf k'"
    and "invoke_tcb_configure lay k cap a1 a2 a3 = Some (err, k') \<Longrightarrow> objects_wf k'"
proof -
  have put: "objects_wf (put_thread k i t)" if "thread_wf t" for i t
    using assms that by (simp add: objects_wf_def put_thread_def)
  have old: "thread_wf (tt_threads (k_tcbs k) i)" for i using assms by (simp add: objects_wf_def)
  show "invoke_tcb_resume lay k cap = Some (err, k') \<Longrightarrow> objects_wf k'"
    using assms old by (auto simp: invoke_tcb_resume_def Let_def tcb_wake_Inr intro!: put split: if_splits ptr.splits sum.splits)
      (simp_all add: thread_wf_def)
  show "invoke_tcb_suspend lay k cap = Some (err, k') \<Longrightarrow> objects_wf k'"
    using assms old by (auto simp: invoke_tcb_suspend_def tcb_suspend_def intro!: put split: if_splits ptr.splits)
      (simp_all add: thread_wf_def)
  show "invoke_tcb_configure lay k cap a1 a2 a3 = Some (err, k') \<Longrightarrow> objects_wf k'"
    using assms old by (auto simp: invoke_tcb_configure_def Let_def ret_def tcb_configure_def intro!: put split: if_splits ptr.splits option.splits)
      (simp_all add: thread_wf_def)
qed

lemma handle_invoke_wf:
  assumes "objects_wf k" "handle_invoke lay k capp op a1 a2 a3 = Some (err, k')"
  shows "objects_wf k'"
proof -
  have ret: "objects_wf k'" if "ret k (put_cnodes k) r = (err, k')" for r using ret_cnodes_wf[OF assms(1), of r] that by simp
  have pair: "objects_wf k'" if "x = (err, k')" "objects_wf (snd x)" for x using that by simp
  show ?thesis
    using assms(2) assms(1) ret pair[OF _ retype_wf[OF assms(1)]] pair[OF _ sched_bind_wf[OF assms(1)]] spaces_wf[OF assms(1)] tcb_control_wf[OF assms(1)]
    by (cases op) (auto simp: handle_invoke_def split: option.splits if_splits)
qed

lemma dispatch_wf:
  assumes "objects_wf k" "dispatch lay k f cur sys capp = Some (Inr (err, k1))"
  shows "objects_wf k1"
  using assms(2) assms(1) ipc_wf[OF assms(1)] recv_call_wf[OF assms(1)] handle_invoke_wf[OF assms(1)]
  by (cases sys) (auto simp: dispatch_def bind_eq_Some_conv)

subsection \<open>Address spaces and guards\<close>

text \<open>An operation on one address space that touches only its own tables and fresh pages.\<close>

lemma own_space_step:
  assumes s: "spaces_safe lay k" "v \<in> ran (lay_vs lay)" and t: "touches (vs_root (k_vspaces k v)) (k_pt k) e" "same_space (k_vspaces k v) vs"
    and new: "space_safe vs e" "fa_top (pe_alloc e) = fa_top (pe_alloc (k_pt k))"
  shows "spaces_safe lay (k\<lparr>k_pt := e, k_vspaces := (k_vspaces k)(v := vs)\<rparr>)"
proof -
  let ?sp = "(k_vspaces k)(v := vs)"
  have al: "alloc_ok (pe_alloc e)" and ram: "pool_in_ram e" using new(1) by (simp_all add: space_safe_def space_ok_def)
  have other: "page_at (pe_mem e) (vs_root (k_vspaces k w)) = page_at (pe_mem (k_pt k)) (vs_root (k_vspaces k w))"
    "space_safe (k_vspaces k w) e" "apart e vs (k_vspaces k w)" if "w \<in> ran (lay_vs lay)" "w \<noteq> v" for w
  proof -
    have w: "space_safe (k_vspaces k w) (k_pt k)" "apart (k_pt k) (k_vspaces k v) (k_vspaces k w)"
      using s that by (auto simp: spaces_safe_def)
    note O = touches_other[OF t(1) _ al w(2)]
    show "page_at (pe_mem e) (vs_root (k_vspaces k w)) = page_at (pe_mem (k_pt k)) (vs_root (k_vspaces k w))"
      "space_safe (k_vspaces k w) e" "apart e vs (k_vspaces k w)"
      using O w(1) ram apart_same[OF t(2)] by (auto simp: space_safe_def)
  qed
  have "apart e (?sp u) (?sp w)" if "u \<in> ran (lay_vs lay)" "w \<in> ran (lay_vs lay)" "u \<noteq> w" for u w
  proof -
    have "apart (k_pt k) (k_vspaces k u) (k_vspaces k w)" using s(1) that by (auto simp: spaces_safe_def)
    then have "apart e (k_vspaces k u) (k_vspaces k w)" if "u \<noteq> v" "w \<noteq> v" using that \<open>u \<in> _\<close> \<open>w \<in> _\<close> other(1) by (simp add: apart_def)
    then show ?thesis using that other(3)[of u] other(3)[of w] apart_sym by (cases "u = v"; cases "w = v") auto
  qed
  then show ?thesis using new(1) other(2) by (auto simp: spaces_safe_def)
qed

lemma deref_ran: "deref l p = Obj v \<Longrightarrow> v \<in> ran l"
  by (auto simp: deref_def ran_def split: if_splits option.splits)

lemma invoke_map_spaces:
  assumes "spaces_safe lay k" "invoke_map lay k cap a2 a3 = Some (err, k')"
  shows "spaces_safe lay k'"
proof (cases "k' = k")
  case False
  obtain v paddr perms color vs e where v: "deref (lay_vs lay) (u_vspace_root_pt (c_u cap)) = Obj v"
    and m: "vspace_map (lay_pool lay) (Some (k_vspaces k v)) (k_pt k) a2 paddr PAGE_SIZE perms color = (err, Some vs, e)"
    and k': "k' = k\<lparr>k_pt := e, k_vspaces := (k_vspaces k)(v := vs)\<rparr>"
    by (rule invoke_map_cases[OF assms(2) False])
  have "space_safe (k_vspaces k v) (k_pt k)" using assms(1) deref_ran[OF v] by (auto simp: spaces_safe_def)
  note K = vspace_map_keeps_safe[OF this m]
  show ?thesis using own_space_step[OF assms(1) deref_ran[OF v] K(2,3,1,4)] k' by simp
qed (use assms in simp)

lemma invoke_unmap_spaces:
  assumes "spaces_safe lay k" "invoke_unmap lay k cap a2 a3 = Some (err, k')"
  shows "spaces_safe lay k'"
proof (cases "k' = k")
  case False
  then obtain v e where v: "deref (lay_vs lay) (u_vspace_root_pt (c_u cap)) = Obj v"
    and m: "vspace_unmap (Some (k_vspaces k v)) (k_pt k) a2 a3 = (err, e)" and k': "k' = k\<lparr>k_pt := e\<rparr>"
    using assms(2) by (auto simp: invoke_unmap_def vspace_unmap_def[of None] split: if_splits ptr.splits prod.splits)
  have "space_safe (k_vspaces k v) (k_pt k)" using assms(1) deref_ran[OF v] by (auto simp: spaces_safe_def)
  note K = vspace_unmap_keeps_safe[OF this m]
  show ?thesis using own_space_step[OF assms(1) deref_ran[OF v] K(2) same_space_refl K(1,3)] k' by (simp add: spaces_safe_def)
qed (use assms in simp)

text \<open>Everything else leaves the page tables alone.\<close>

definition same_tables :: "kstate \<Rightarrow> kstate \<Rightarrow> bool" where
  "same_tables k k' \<longleftrightarrow> k_pt k' = k_pt k \<and> k_vspaces k' = k_vspaces k"

lemma same_tables_refl [simp]: "same_tables k k"
  by (simp add: same_tables_def)

lemma same_tables_safe: "same_tables k k' \<Longrightarrow> spaces_safe lay k' = spaces_safe lay k"
  by (simp add: same_tables_def spaces_safe_def)

lemma put_same_tables [simp]: "same_tables k (put_thread k1 i t) = same_tables k k1" "same_tables k (set_state k1 cur st) = same_tables k k1"
  "same_tables k (put_cnodes k1 h) = same_tables k k1" "same_tables k (k1\<lparr>k_endpoints := eps, k_tcbs := tt\<rparr>) = same_tables k k1"
  by (simp_all add: same_tables_def put_thread_def set_state_def put_cnodes_def)

lemma ipc_same_tables:
  "sys_call lay k cur cap a1 = Some (Inr (err, k1)) \<Longrightarrow> same_tables k k1"
  "sys_send lay k cur cap a1 = Some (Inr (err, k1)) \<Longrightarrow> same_tables k k1"
  "sys_reply_recv lay k cur cap = Some (Inr (err, k1)) \<Longrightarrow> same_tables k k1"
proof -
  have send: "same_tables k k1" if "send_to lay k p cur m = Some (err, k1)" for p m k1 err
    using that by (auto simp: send_to_def ret_def split: ptr.splits sum.splits if_splits)
  show "sys_call lay k cur cap a1 = Some (Inr (err, k1)) \<Longrightarrow> same_tables k k1" "sys_send lay k cur cap a1 = Some (Inr (err, k1)) \<Longrightarrow> same_tables k k1"
    using send by (auto simp: sys_call_def sys_send_def Let_def bind_eq_Some_conv split: if_splits)
  show "sys_reply_recv lay k cur cap = Some (Inr (err, k1)) \<Longrightarrow> same_tables k k1"
    by (auto simp: sys_reply_recv_def Let_def split: if_splits ptr.splits sum.splits prod.splits option.splits)
qed

lemma invoke_same_tables:
  "same_tables k (snd (invoke_retype k cap a1 a2 a3))" "same_tables k (snd (invoke_sched_bind k cap a1 a2 a3))"
  "invoke_tcb_resume lay k cap = Some (err, k') \<Longrightarrow> same_tables k k'" "invoke_tcb_suspend lay k cap = Some (err, k') \<Longrightarrow> same_tables k k'"
  "invoke_tcb_configure lay k cap a1 a2 a3 = Some (err, k') \<Longrightarrow> same_tables k k'" "ret k (put_cnodes k) r = (err, k') \<Longrightarrow> same_tables k k'"
  subgoal by (simp add: invoke_retype_def Let_def same_tables_def)
  subgoal by (simp add: invoke_sched_bind_def ret_def same_tables_def split: sum.splits)
  subgoal by (auto simp: invoke_tcb_resume_def Let_def split: if_splits ptr.splits option.splits sum.splits)
  subgoal by (auto simp: invoke_tcb_suspend_def split: if_splits ptr.splits option.splits)
  subgoal by (auto simp: invoke_tcb_configure_def Let_def ret_def split: if_splits ptr.splits option.splits sum.splits)
  subgoal by (auto simp: ret_def split: sum.splits)
  done

lemma dispatch_spaces:
  assumes "spaces_safe lay k" "dispatch lay k f cur sys capp = Some (Inr (err, k1))"
  shows "spaces_safe lay k1"
proof -
  have keep: "spaces_safe lay k1" if "same_tables k k1" using that assms(1) same_tables_safe by blast
  have inv: "spaces_safe lay k1" if "handle_invoke lay k (Some cap) op a1 a2 a3 = Some (err, k1)" for cap op a1 a2 a3
  proof -
    have pair: "spaces_safe lay k1" if "x = (err, k1)" "same_tables k (snd x)" for x using that assms(1) same_tables_safe by simp
    show ?thesis using that assms(1) invoke_map_spaces[OF assms(1)] invoke_unmap_spaces[OF assms(1)] keep[OF invoke_same_tables(3)] keep[OF invoke_same_tables(4)]
        keep[OF invoke_same_tables(5)] keep[OF invoke_same_tables(6)] pair[OF _ invoke_same_tables(1)] pair[OF _ invoke_same_tables(2)]
      by (cases op) (auto simp: handle_invoke_def split: if_splits)
  qed
  have none: "spaces_safe lay k1" if "handle_invoke lay k None op a1 a2 a3 = Some (err, k1)" for op a1 a2 a3
    using that assms(1) by (simp add: handle_invoke_def)
  show ?thesis using assms keep[OF ipc_same_tables(1)] keep[OF ipc_same_tables(2)] keep[OF ipc_same_tables(3)] inv none
    by (cases sys; cases capp) (auto simp: dispatch_def bind_eq_Some_conv)
qed

lemma node_op_guards:
  "cnode_copy h d i s j r = Inr h' \<Longrightarrow> guards_ok h \<Longrightarrow> guards_ok h'" "cnode_mint h d i s j r b = Inr h' \<Longrightarrow> guards_ok h \<Longrightarrow> guards_ok h'"
  "cnode_move h d i s j = Some (Inr h') \<Longrightarrow> guards_ok h \<Longrightarrow> guards_ok h'" "cnode_delete h d i = Inr h' \<Longrightarrow> guards_ok h \<Longrightarrow> guards_ok h'"
  subgoal by (auto simp: guards_ok_def dest!: cnode_copy_Inr)
  subgoal by (auto simp: guards_ok_def dest!: cnode_mint_Inr)
  subgoal by (auto simp: guards_ok_def Let_def dest!: cnode_move_Inr split: if_splits)
  subgoal by (auto simp: guards_ok_def dest!: cnode_delete_Inr)
  done

lemma dispatch_guards:
  assumes "guards_ok (k_cnodes k)" "dispatch lay k f cur sys capp = Some (Inr (err, k1))"
  shows "guards_ok (k_cnodes k1)"
proof -
  have ret: "guards_ok (k_cnodes k1)" if "ret k (put_cnodes k) r = (err, k1)" "\<And>h. r = Inr h \<Longrightarrow> guards_ok h" for r
    using that assms(1) by (auto simp: ret_def put_cnodes_def split: sum.splits)
  have pair: "guards_ok (k_cnodes k1)" if "x = (err, k1)" "guards_ok (k_cnodes (snd x))" for x using that by simp
  have retype: "guards_ok (k_cnodes (snd (invoke_retype k cap a1 a2 a3)))" for cap a1 a2 a3
    using assms(1) by (simp add: invoke_retype_def Let_def guards_ok_def)
  have bind: "guards_ok (k_cnodes (snd (invoke_sched_bind k cap a1 a2 a3)))" for cap a1 a2 a3 using assms(1) invoke_cnodes_same(6) by simp
  note N = node_op_guards[OF _ assms(1)]
  have move: "guards_ok (k_cnodes k1)" if "cnode_move (k_cnodes k) d i s j = Some r" "ret k (put_cnodes k) r = (err, k1)" for d i s j r
    by (rule ret[OF that(2)]) (use that(1) N(3) in simp)
  have inv: "guards_ok (k_cnodes k1)" if h: "handle_invoke lay k capp op a1 a2 a3 = Some (err, k1)" for op a1 a2 a3
  proof (cases op)
    case INV_CNODE_MOVE
    then show ?thesis using h assms(1) move by (auto simp: handle_invoke_def split: option.splits if_splits)
  next
    case INV_CNODE_COPY
    then show ?thesis using h assms(1) ret[OF _ N(1)] by (auto simp: handle_invoke_def split: option.splits if_splits)
  next
    case INV_CNODE_MINT
    then show ?thesis using h assms(1) ret[OF _ N(2)] by (auto simp: handle_invoke_def split: option.splits if_splits)
  next
    case INV_CNODE_DELETE
    then show ?thesis using h assms(1) ret[OF _ N(4)] by (auto simp: handle_invoke_def split: option.splits if_splits)
  next
    case INV_UNTYPED_RETYPE
    then show ?thesis using h assms(1) pair[OF _ retype] by (auto simp: handle_invoke_def split: option.splits if_splits)
  next
    case INV_SCHED_BIND
    then show ?thesis using h assms(1) pair[OF _ bind] by (auto simp: handle_invoke_def split: option.splits if_splits)
  qed (use h assms(1) invoke_cnodes_same(1-5)[of lay k] in \<open>auto simp: handle_invoke_def split: option.splits if_splits\<close>)
  show ?thesis using assms ipc_cnodes[of lay k] inv by (cases sys) (auto simp: dispatch_def bind_eq_Some_conv)
qed

subsection \<open>Capabilities\<close>

lemma object_typed_le: "cap_le c c0 \<Longrightarrow> object_typed lay c0 \<Longrightarrow> object_typed lay c"
  by (simp add: cap_le_def object_typed_def)

lemma typed_retype_closed: "retype_closed plain_types {c. object_typed lay c}"
proof -
  have "object_typed lay (cap_retype c nt p sz)" if "nt \<in> plain_types" for c nt p sz
    using that by (simp add: cap_retype_def object_typed_def plain_types_def)
  then show ?thesis unfolding retype_closed_def using cap_le_refl by blast
qed

lemma typed_bounded_iff: "bounded_by {c. object_typed lay c} h \<longleftrightarrow> (\<forall>c\<in>ran (caps_of h). object_typed lay c)"
  unfolding bounded_by_def using object_typed_le cap_le_refl by blast

fun caller :: "sysop \<Rightarrow> u32" where "caller (t0, t1, f, cur) = cur"

text \<open>A call of an existing thread that does not retype memory into a kernel object.\<close>

definition plain_call :: "sysop \<Rightarrow> bool" where
  "plain_call a \<longleftrightarrow> caller a < MAX_TCBS \<and> retypes_into plain_types (call_frame a)"

lemma sys_step_typed:
  assumes "kernel_wf lay k" "plain_call a"
  shows "\<exists>k1. sys_step lay k a = Some k1 \<and> kernel_wf lay k1"
proof -
  obtain t0 t1 f cur where a: "a = (t0, t1, f, cur)" by (cases a)
  have cur: "cur < MAX_TCBS" and r: "retypes_into plain_types f" using assms(2) a by (simp_all add: plain_call_def)
  have O: "objects_wf k" using assms(1) by (simp add: kernel_wf_def)
  have "ptr_ok lay k cap" if "find_cap k cur sys f = Some cap" for sys cap
  proof -
    have "cap \<in> ran (caps_of (k_cnodes k))" using find_cap_Some(1)[OF that] by (auto simp: ran_def)
    then have "object_typed lay cap" using assms(1) by (simp add: kernel_wf_def)
    then show ?thesis using assms(1) deref_ran[of "lay_vs lay"]
      by (auto simp: kernel_wf_def objects_wf_def spaces_safe_def endpoint_wf_def object_typed_def ptr_ok_def)
  qed
  moreover have "thread_wf (tt_threads (k_tcbs k) (unat cur))" using O by (simp add: objects_wf_def)
  ultimately obtain err f1 k1 where h: "syscall_handler lay t0 t1 (Some f) cur k = Some (err, f1, k1)"
    using syscall_defined[OF cur, of k f lay t0 t1] by (auto simp: thread_wf_def)
  have "bounded_by {c. object_typed lay c} (k_cnodes k1)"
    using syscall_bounded[OF _ typed_retype_closed h r] assms(1) typed_bounded_iff by (simp add: kernel_wf_def)
  moreover have "objects_wf k1 \<and> spaces_safe lay k1 \<and> guards_ok (k_cnodes k1)"
  proof (cases "k1 = k")
    case False
    then obtain sys e where d: "dispatch lay k f cur sys (find_cap k cur sys f) = Some (Inr (e, k1))" using syscall_handler_cases[OF h] by blast
    show ?thesis using dispatch_wf[OF O d] dispatch_spaces[OF _ d] dispatch_guards[OF _ d] assms(1) by (simp add: kernel_wf_def)
  qed (use assms(1) in \<open>simp add: kernel_wf_def\<close>)
  ultimately show ?thesis using a h typed_bounded_iff by (simp add: kernel_wf_def)
qed

interpretation typedm: checked_machine "sys_step lay" "kernel_wf lay" "\<lambda>_. plain_call" for lay
  by unfold_locales (rule sys_step_typed)

subsection \<open>The threads after boot\<close>

text \<open>
  Memory retyped into a thread is no thread: the capability points into user memory, where the linker
  puts none. So a run that stays defined never controls a thread, and no thread ever gets a
  capability space.
\<close>

definition user_cap :: "nat \<Rightarrow> nat \<Rightarrow> cap_t \<Rightarrow> bool" where
  "user_cap lo hi c \<longleftrightarrow> region_cap lo hi c \<and> (c_type c = CAP_TCB \<longrightarrow> lo \<le> unat (u_tcb_ptr (c_u c)) \<and> unat (u_tcb_ptr (c_u c)) < hi)"

lemma user_cap_le: "cap_le c c0 \<Longrightarrow> user_cap lo hi c0 \<Longrightarrow> user_cap lo hi c"
  using region_cap_le[of c c0] by (simp add: cap_le_def user_cap_def)

lemma user_bounded_iff: "bounded_by {c. user_cap lo hi c} h \<longleftrightarrow> (\<forall>c\<in>ran (caps_of h). user_cap lo hi c)"
  unfolding bounded_by_def using user_cap_le cap_le_refl by blast

lemma retype_user:
  assumes "hi < 2 ^ 64" "user_cap lo hi c" "cap_can_retype c nt sz"
  shows "user_cap lo hi (cap_retype c nt (u_untyped_paddr (c_u c)) sz)"
proof -
  have "c_type c = CAP_UNTYPED" "0 < unat (u_untyped_size (c_u c))"
    using assms(3) by (auto simp: cap_can_retype_def word_less_nat_alt split: if_splits)
  then show ?thesis using assms(2,3) retype_region[OF assms(1) _ assms(3), of lo]
    by (simp add: user_cap_def cap_retype_def) (simp add: region_cap_def union_defs)
qed

lemma user_retype_closed: "hi < 2 ^ 64 \<Longrightarrow> retype_closed T {c. user_cap lo hi c}"
  unfolding retype_closed_def using retype_user user_cap_le cap_le_refl by blast

definition no_threads_in :: "layout \<Rightarrow> nat \<Rightarrow> nat \<Rightarrow> bool" where
  "no_threads_in lay lo hi \<longleftrightarrow> 0 < lo \<and> (\<forall>p. lo \<le> unat p \<longrightarrow> unat p < hi \<longrightarrow> lay_tcb lay p = None)"

lemma user_tcb_wild:
  assumes "user_cap lo hi c" "no_threads_in lay lo hi" "c_type c = CAP_TCB"
  shows "deref (lay_tcb lay) (u_tcb_ptr (c_u c)) = Wild"
  using assms by (auto simp: user_cap_def no_threads_in_def deref_def)

lemma invoke_keeps_threads:
  assumes "handle_invoke lay k (Some cap) op a1 a2 a3 = Some (err, k')"
    and "c_type cap = CAP_TCB \<Longrightarrow> deref (lay_tcb lay) (u_tcb_ptr (c_u cap)) = Wild"
  shows "k_tcbs k' = k_tcbs k \<and> k_endpoints k' = k_endpoints k"
proof -
  let ?same = "\<lambda>k'. k_tcbs k' = k_tcbs k \<and> k_endpoints k' = k_endpoints k"
  have tcb: "invoke_tcb_resume lay k cap = Some (err, k') \<Longrightarrow> ?same k'" "invoke_tcb_suspend lay k cap = Some (err, k') \<Longrightarrow> ?same k'"
    "invoke_tcb_configure lay k cap a1 a2 a3 = Some (err, k') \<Longrightarrow> ?same k'"
    using assms(2) by (auto simp: invoke_tcb_resume_def invoke_tcb_suspend_def invoke_tcb_configure_def Let_def split: if_splits option.splits)
  have map: "invoke_map lay k cap a2 a3 = Some (err, k') \<Longrightarrow> ?same k'"
    by (auto simp: invoke_map_def Let_def split: if_splits option.splits ptr.splits prod.splits)
  have unmap: "invoke_unmap lay k cap a2 a3 = Some (err, k') \<Longrightarrow> ?same k'"
    by (auto simp: invoke_unmap_def split: if_splits ptr.splits prod.splits)
  have ret: "ret k (put_cnodes k) r = (err, k') \<Longrightarrow> ?same k'" for r
    by (auto simp: ret_def put_cnodes_def split: sum.splits)
  have "?same (snd (invoke_retype k cap a1 a2 a3))" by (simp add: invoke_retype_def Let_def)
  moreover have "?same (snd (invoke_sched_bind k cap a1 a2 a3))" by (simp add: invoke_sched_bind_def ret_def split: sum.splits)
  ultimately show ?thesis using assms(1) tcb map unmap ret
    by (cases op) (auto simp: handle_invoke_def split: if_splits)
qed

lemma find_cap_no_space:
  "t_cspace (tt_threads (k_tcbs k) (unat cur)) = None \<Longrightarrow> sys \<noteq> SYS_INVOKE \<Longrightarrow> find_cap k cur sys f = None"
  by (simp add: find_cap_def cnode_lookup_def)

text \<open>The threads and endpoints stay as they are while no thread has a capability space.\<close>

definition frozen :: "nat \<Rightarrow> nat \<Rightarrow> tcb_table_t \<Rightarrow> (nat \<Rightarrow> endpoint_t) \<Rightarrow> kstate \<Rightarrow> bool" where
  "frozen lo hi tt eps k \<longleftrightarrow> (\<forall>c\<in>ran (caps_of (k_cnodes k)). user_cap lo hi c) \<and> k_tcbs k = tt \<and> k_endpoints k = eps \<and>
     (\<forall>i. t_cspace (tt_threads tt i) = None)"

lemma sys_step_frozen:
  assumes "frozen lo hi tt eps k" "hi < 2 ^ 64" "no_threads_in lay lo hi" "sys_step lay k a = Some k1"
  shows "frozen lo hi tt eps k1"
proof -
  obtain t0 t1 f cur where a: "a = (t0, t1, f, cur)" by (cases a)
  obtain err f1 where h: "syscall_handler lay t0 t1 (Some f) cur k = Some (err, f1, k1)" using assms(4) a by auto
  have "bounded_by {c. user_cap lo hi c} (k_cnodes k1)"
    using syscall_bounded[OF _ user_retype_closed[OF assms(2), of UNIV lo] h] assms(1) user_bounded_iff by (simp add: frozen_def)
  moreover have "k_tcbs k1 = k_tcbs k \<and> k_endpoints k1 = k_endpoints k"
  proof (cases "k1 = k")
    case False
    then obtain sys e where d: "sys = SYS_YIELD \<or> find_cap k cur sys f \<noteq> None" "dispatch lay k f cur sys (find_cap k cur sys f) = Some (Inr (e, k1))"
      using syscall_handler_cases[OF h] by blast
    have s: "sys = SYS_INVOKE"
    proof (rule ccontr)
      assume n: "sys \<noteq> SYS_INVOKE"
      then have "find_cap k cur sys f = None" using assms(1) by (intro find_cap_no_space) (simp_all add: frozen_def)
      then show False using d False by (auto simp: dispatch_def)
    qed
    then obtain cap where c: "find_cap k cur sys f = Some cap" using d(1) by auto
    have "cap \<in> ran (caps_of (k_cnodes k))" using find_cap_Some(1)[OF c] by (auto simp: ran_def)
    then have "user_cap lo hi cap" using assms(1) by (simp add: frozen_def)
    note w = user_tcb_wild[OF this assms(3)]
    obtain op where "handle_invoke lay k (Some cap) op (tf_a1 f) (tf_a2 f) (tf_a3 f) = Some (e, k1)" using d(2) c s by (auto simp: dispatch_def)
    then show ?thesis using w by (rule invoke_keeps_threads)
  qed simp
  ultimately show ?thesis using assms(1) user_bounded_iff by (simp add: frozen_def)
qed

interpretation frozenm: partial_machine "sys_step lay" "\<lambda>k. frozen lo hi tt eps k \<and> hi < 2 ^ 64 \<and> no_threads_in lay lo hi" for lay lo hi tt eps
  by unfold_locales (use sys_step_frozen in blast)

subsection \<open>Properties\<close>

text \<open>
  C2 (type). Type safety of the system-call interface: in a well-formed kernel state, any sequence of
  system calls by existing threads with any registers, as long as none retypes memory into
  a kernel object, executes nothing undefined (no pointer of a capability is dereferenced that is not an
  object of its kind, no page-table walk of a map or an unmap leaves memory, no ring is indexed outside its
  sixteen entries, no guard is shifted by its width or more), returns, and leaves the state well formed:
  capabilities still point at objects of their kinds, endpoints are still rings of messages that fit,
  threads still name contexts that exist, the address spaces are still disjoint trees of tables in memory,
  and the scheduler and the mapping database keep their invariants.
\<close>

theorem syscalls_type_safe:
  assumes "kernel_wf lay k" "\<forall>a\<in>set calls. plain_call a"
  shows "\<exists>k'. run_steps (sys_step lay) k calls = Some k' \<and> kernel_wf lay k'"
  using typedm.run_safe[OF assms(1) run_allowed_static[OF assms(2)]] .

definition typed_lay :: layout where
  "typed_lay = \<lparr>lay_ep = (\<lambda>p. if p = 0x80032000 then Some 1 else if p = 0x80034000 then Some 2 else if p = 0x80036000 then Some 3 else None),
     lay_tcb = (\<lambda>p. if p = 0x80038000 then Some 0 else None), lay_vs = (\<lambda>p. if p = 0x80039000 then Some 0 else None), lay_pool = 0\<rparr>"

lemma launched_wf:
  assumes "launched pc (node_with (boot_caps mc) 5) (\<lambda>_. zero_endpoint) M 4 4 k"
    and "\<forall>i\<in>{1, 2, 3}. mc_endpoint mc i \<noteq> 0 \<and> lay_ep lay (mc_endpoint mc i) = Some i" "ran (lay_vs lay) \<subseteq> {0}"
  shows "kernel_wf lay k"
proof -
  note L = assms(1)[unfolded launched_def]
  have "v = 0" if "v \<in> ran (lay_vs lay)" for v using assms(3) that by blast
  then have spaces: "spaces_safe lay k" using L unfolding spaces_safe_def kernel_space_def by metis
  have guards: "guards_ok (k_cnodes k)" using L by (simp add: guards_ok_def node_with_def root_node_def zero_cnode_def)
  have "object_typed lay c" if "c \<in> ran (boot_caps mc)" for c
    using boot_caps_ran[OF that] assms(2)
    by (elim disjE) (simp_all add: object_typed_def root_untyped_def endpoint_cap_def cap_retype_def deref_def union_defs)
  then have "\<forall>c\<in>ran (caps_of (k_cnodes k)). object_typed lay c" using L by (auto simp: boot_caps_of ran_def split: if_splits)
  moreover have "thread_wf (tt_threads (k_tcbs k) i)" for i
  proof (cases "i < 4")
    case True
    then have "boot_thread pc i (tt_threads (k_tcbs k) i)" using L by simp
    then show ?thesis using less_4_cases[OF True] by (auto simp: thread_wf_def boot_thread_def zero_msg_def)
  next
    case False
    then show ?thesis using L by (simp add: thread_wf_def zero_tcb_def zero_msg_def)
  qed
  moreover have "endpoint_wf zero_endpoint" by (simp add: endpoint_wf_def) (simp add: msgs_ok_def zero_endpoint_def zero_msg_def)
  ultimately show ?thesis using L schedule_inv spaces guards by (simp add: kernel_wf_def objects_wf_def)
qed

lemma typed_lay_objects: "\<forall>i\<in>{1, 2, 3}. mc_endpoint demo_machine i \<noteq> 0 \<and> lay_ep typed_lay (mc_endpoint demo_machine i) = Some i"
  "ran (lay_vs typed_lay) \<subseteq> {0}"
  by (auto simp: demo_machine_def typed_lay_def ran_def split: if_splits)

text \<open>A capability for the kernel's address space, put into a root slot.\<close>

definition demo_space_cap :: cap_t where
  "demo_space_cap = root_untyped\<lparr>c_type := CAP_VSPACE, c_u := (c_u root_untyped)\<lparr>uw0 := 0x80039000\<rparr>\<rparr>"

definition with_space_cap :: "kstate \<Rightarrow> kstate" where
  "with_space_cap k = k\<lparr>k_cnodes := (k_cnodes k)(0 := set_slot 8 demo_space_cap (k_cnodes k 0))\<rparr>"

lemma with_space_cap_wf:
  assumes "kernel_wf typed_lay k"
  shows "kernel_wf typed_lay (with_space_cap k)"
proof -
  have "object_typed typed_lay demo_space_cap"
    by (simp add: object_typed_def demo_space_cap_def typed_lay_def deref_def union_defs)
  then show ?thesis using assms
    by (auto simp: kernel_wf_def with_space_cap_def caps_of_set_slot objects_wf_def spaces_safe_def guards_ok_def ran_def)
qed

lemma demo_plain: "plain_call (0, 0, demo_frame 5 0 0x600 5 0x1000, 0)" "plain_call (0, 0, demo_frame 0 11 4 0 0, 3)"
  "plain_call (0, 0, demo_frame 5 0 8 0x50000000 5, 0)"
  by (simp_all add: plain_call_def retypes_into_def demo_frame_def syscall_of_def cap_type_of_def plain_types_def)

theorem syscalls_type_safe_witness:
  "\<exists>b k'. kernel_boot typed_lay demo_machine (zero_globals (\<lambda>_. 7)) = Runs b \<and>
     run_steps (sys_step typed_lay) (with_space_cap (bt_k b))
       [(0, 0, demo_frame 5 0 0x600 5 0x1000, 0), (0, 0, demo_frame 5 0 8 0x50000000 5, 0), (0, 0, demo_frame 0 11 4 0 0, 3)] = Some k' \<and>
     kernel_wf typed_lay k'"
proof -
  obtain b where b: "kernel_boot typed_lay demo_machine (zero_globals (\<lambda>_. 7)) = Runs b"
    and L: "launched (mc_user_hello demo_machine) (node_with (boot_caps demo_machine) 5) (\<lambda>_. zero_endpoint) late_map 4 4 (bt_k b)"
    by (rule boot_launches[OF demo_machine_ok])
  show ?thesis using b demo_plain syscalls_type_safe[OF with_space_cap_wf[OF launched_wf[OF L typed_lay_objects]],
      of "[(0, 0, demo_frame 5 0 0x600 5 0x1000, 0), (0, 0, demo_frame 5 0 8 0x50000000 5, 0), (0, 0, demo_frame 0 11 4 0 0, 3)]"]
    by (simp del: run_steps.simps)
qed

text \<open>
  C38 (error). No boot process can communicate: whatever system calls are made after boot, as long as no
  behaviour is undefined, the threads and the endpoints stay exactly as boot left them, and every call,
  send and receive of every thread is refused with an error and changes nothing. The four processes have no
  capability space, and none of the interface's operations can give them one.
\<close>

theorem boot_ipc_refused:
  assumes "mc_mtvec mc AND NOT 0x3 \<noteq> 0" "0x80000000 \<le> mc_kernel_end mc" "mc_kernel_end mc \<le> 0x80400000"
    and "no_threads_in lay 0x90000000 0x90400000"
    and "kernel_boot lay mc (zero_globals mem) = Runs b" "run_steps (sys_step lay) (bt_k b) calls = Some k"
  shows "k_tcbs k = k_tcbs (bt_k b) \<and> k_endpoints k = k_endpoints (bt_k b) \<and>
    (\<forall>f cur sys t0 t1. cur < MAX_TCBS \<and> syscall_of (ucast (tf_a7 f)) = Some sys \<and> sys \<in> {SYS_CALL, SYS_SEND, SYS_REPLY_RECV} \<longrightarrow>
       (\<exists>err. err \<noteq> ERR_OK \<and> syscall_handler lay t0 t1 (Some f) cur k = Some (err, Some f, k)))"
proof -
  have L: "launched (mc_user_hello mc) (node_with (boot_caps mc) 5) (\<lambda>_. zero_endpoint) late_map 4 4 (bt_k b)"
    using boot_launches[OF assms(1-3), of lay mem] assms(5) by (metis boot_out.inject(2))
  have can: "cap_can_retype root_untyped CAP_FRAME 0x1000" by (simp add: cap_can_retype_def root_untyped_def union_defs)
  have u: "user_cap 0x90000000 0x90400000 root_untyped" by (simp add: user_cap_def region_cap_def root_untyped_def union_defs)
  have "user_cap 0x90000000 0x90400000 c" if "c \<in> ran (boot_caps mc)" for c
  proof -
    have "u_untyped_paddr (c_u root_untyped) = 0x90000000" by (simp add: root_untyped_def union_defs)
    then have "user_cap 0x90000000 0x90400000 (cap_retype root_untyped CAP_FRAME 0x90000000 0x1000)" using retype_user[OF _ u can] by simp
    moreover have "user_cap 0x90000000 0x90400000 (endpoint_cap p)" for p by (simp add: user_cap_def region_cap_def endpoint_cap_def)
    ultimately show ?thesis using boot_caps_ran[OF that] u by (elim disjE) simp_all
  qed
  then have "\<forall>c\<in>ran (caps_of (k_cnodes (bt_k b))). user_cap 0x90000000 0x90400000 c"
    using L by (auto simp: launched_def boot_caps_of ran_def split: if_splits)
  moreover have "t_cspace (tt_threads (k_tcbs (bt_k b)) i) = None" for i
    using L by (cases "i < 4") (simp_all add: launched_def boot_thread_def zero_tcb_def)
  ultimately have "frozen 0x90000000 0x90400000 (k_tcbs (bt_k b)) (k_endpoints (bt_k b)) (bt_k b)" by (simp add: frozen_def)
  then have "frozen 0x90000000 0x90400000 (k_tcbs (bt_k b)) (k_endpoints (bt_k b)) k"
    using frozenm.run_inv[OF assms(6), of "0x90000000" "0x90400000"] assms(4) by simp
  then show ?thesis using find_cap_no_space[of k]
    by (auto simp: frozen_def syscall_handler_def Let_def not_le)
qed

theorem boot_ipc_refused_witness:
  "\<exists>b k err. kernel_boot typed_lay demo_machine (zero_globals (\<lambda>_. 7)) = Runs b \<and>
     run_steps (sys_step typed_lay) (bt_k b) [(0, 0, demo_frame 5 0 0x600 5 0x1000, 0)] = Some k \<and> k_tcbs k = k_tcbs (bt_k b) \<and>
     err \<noteq> ERR_OK \<and> syscall_handler typed_lay 0 0 (Some (demo_frame 0 11 4 0 0)) 3 k = Some (err, Some (demo_frame 0 11 4 0 0), k)"
proof -
  obtain b where b: "kernel_boot typed_lay demo_machine (zero_globals (\<lambda>_. 7)) = Runs b"
    and L: "launched (mc_user_hello demo_machine) (node_with (boot_caps demo_machine) 5) (\<lambda>_. zero_endpoint) late_map 4 4 (bt_k b)"
    by (rule boot_launches[OF demo_machine_ok])
  have n: "no_threads_in typed_lay 0x90000000 0x90400000" by (auto simp: no_threads_in_def typed_lay_def)
  obtain k where k: "run_steps (sys_step typed_lay) (bt_k b) [(0, 0, demo_frame 5 0 0x600 5 0x1000, 0)] = Some k"
    using typedm.run_safe[OF launched_wf[OF L typed_lay_objects] run_allowed_static, of "[(0, 0, demo_frame 5 0 0x600 5 0x1000, 0)]"] demo_plain
    by (auto simp del: run_steps.simps)
  have "syscall_of (ucast (tf_a7 (demo_frame 0 11 4 0 0))) = Some SYS_CALL" by (simp add: demo_frame_def syscall_of_def)
  then have "\<exists>err. err \<noteq> ERR_OK \<and> syscall_handler typed_lay 0 0 (Some (demo_frame 0 11 4 0 0)) 3 k = Some (err, Some (demo_frame 0 11 4 0 0), k)"
    using boot_ipc_refused[OF demo_machine_ok n b k] by simp
  then show ?thesis using b k boot_ipc_refused[OF demo_machine_ok n b k] by blast
qed

end
