(* ===== verification/KernelSpec.thy ===== *)
theory KernelSpec
  imports SyscallProps
begin

text \<open>
  Abstract machines for the system-call interface, and the proof that the handler refines them. One
  machine is the capability space: a partial map from slots to capabilities, changed by six kinds of
  steps, each with the authority it takes. The other is the state of every thread, changed along the
  edges of a graph. Properties of the interface that speak of these views alone are proved on the
  abstract machines.
\<close>

subsection \<open>The capability space\<close>

type_synonym capspace = "(nat \<times> nat) \<rightharpoonup> cap_t"

text \<open>
  A copy, mint, move or deletion takes a capability to a node, and the rights of that capability are the
  rights a copy gets; a retype takes the untyped capability itself.
\<close>

inductive cap_step :: "capspace \<Rightarrow> capspace \<Rightarrow> bool" where
  Idle: "cap_step cs cs"
| Copy: "cs a = Some n \<Longrightarrow> c_type n = CAP_CNODE \<Longrightarrow> cs p = Some c \<Longrightarrow> cs q = None \<Longrightarrow>
    subrights (c_rights n) (c_rights c) \<Longrightarrow> cap_step cs (cs(q \<mapsto> c\<lparr>c_rights := c_rights n\<rparr>))"
| Mint: "cs a = Some n \<Longrightarrow> c_type n = CAP_CNODE \<Longrightarrow> cs p = Some c \<Longrightarrow> cs q = None \<Longrightarrow>
    subrights (c_rights n) (c_rights c) \<Longrightarrow> subrights CAP_RIGHTS_GRANT (c_rights c) \<Longrightarrow>
    cap_step cs (cs(q \<mapsto> c\<lparr>c_rights := c_rights n, c_badge := b\<rparr>))"
| Move: "cs a = Some n \<Longrightarrow> c_type n = CAP_CNODE \<Longrightarrow> cs p = Some c \<Longrightarrow> cs q = None \<Longrightarrow> cap_step cs (cs(q \<mapsto> c, p := None))"
| Delete: "cs a = Some n \<Longrightarrow> c_type n = CAP_CNODE \<Longrightarrow> cs p = Some c \<Longrightarrow> cap_step cs (cs(p := None))"
| Retype: "cs p = Some c \<Longrightarrow> cs q = None \<Longrightarrow> cap_can_retype c nt sz \<Longrightarrow>
    cap_step cs (cs(q \<mapsto> cap_retype c nt (u_untyped_paddr (c_u c)) sz))"

definition capspace_of :: "kstate \<Rightarrow> capspace" where "capspace_of k = caps_of (k_cnodes k)"

lemma capspace_ret:
  assumes "ret k (put_cnodes k) r = (err, k')"
  shows "capspace_of k' = (case r of Inl _ \<Rightarrow> capspace_of k | Inr h \<Rightarrow> caps_of h)"
  using assms by (auto simp: ret_def put_cnodes_def capspace_of_def split: sum.splits)

lemma node_op_refines:
  assumes "capspace_of k a = Some n" "c_type n = CAP_CNODE"
  shows "ret k (put_cnodes k) (cnode_copy (k_cnodes k) d i s j (c_rights n)) = (err, k') \<Longrightarrow> cap_step (capspace_of k) (capspace_of k')"
    and "ret k (put_cnodes k) (cnode_mint (k_cnodes k) d i s j (c_rights n) b) = (err, k') \<Longrightarrow> cap_step (capspace_of k) (capspace_of k')"
    and "cnode_move (k_cnodes k) d i s j = Some r \<Longrightarrow> ret k (put_cnodes k) r = (err, k') \<Longrightarrow> cap_step (capspace_of k) (capspace_of k')"
    and "ret k (put_cnodes k) (cnode_delete (k_cnodes k) d i) = (err, k') \<Longrightarrow> cap_step (capspace_of k) (capspace_of k')"
proof -
  note auth = assms[unfolded capspace_of_def]
  show "cap_step (capspace_of k) (capspace_of k')" if r: "ret k (put_cnodes k) (cnode_copy (k_cnodes k) d i s j (c_rights n)) = (err, k')"
  proof (cases "cnode_copy (k_cnodes k) d i s j (c_rights n)")
    case (Inr h)
    show ?thesis using cnode_copy_caps[OF Inr] capspace_ret[OF r] Inr cap_step.Copy[where cs = "caps_of (k_cnodes k)", OF auth] by (auto simp: capspace_of_def)
  qed (use capspace_ret[OF r] in \<open>simp add: cap_step.Idle\<close>)
  show "cap_step (capspace_of k) (capspace_of k')" if r: "ret k (put_cnodes k) (cnode_mint (k_cnodes k) d i s j (c_rights n) b) = (err, k')"
  proof (cases "cnode_mint (k_cnodes k) d i s j (c_rights n) b")
    case (Inr h)
    show ?thesis using cnode_mint_caps[OF Inr] capspace_ret[OF r] Inr cap_step.Mint[where cs = "caps_of (k_cnodes k)", OF auth] by (auto simp: capspace_of_def)
  qed (use capspace_ret[OF r] in \<open>simp add: cap_step.Idle\<close>)
  show "cap_step (capspace_of k) (capspace_of k')" if m: "cnode_move (k_cnodes k) d i s j = Some r" and r: "ret k (put_cnodes k) r = (err, k')"
  proof (cases r)
    case (Inr h)
    show ?thesis using cnode_move_caps[OF m[unfolded Inr]] capspace_ret[OF r] Inr cap_step.Move[where cs = "caps_of (k_cnodes k)", OF auth] by (auto simp: capspace_of_def)
  qed (use capspace_ret[OF r] in \<open>simp add: cap_step.Idle\<close>)
  show "cap_step (capspace_of k) (capspace_of k')" if r: "ret k (put_cnodes k) (cnode_delete (k_cnodes k) d i) = (err, k')"
  proof (cases "cnode_delete (k_cnodes k) d i")
    case (Inr h)
    show ?thesis using cnode_delete_caps[OF Inr] capspace_ret[OF r] Inr cap_step.Delete[where cs = "caps_of (k_cnodes k)", OF auth] by (auto simp: capspace_of_def)
  qed (use capspace_ret[OF r] in \<open>simp add: cap_step.Idle\<close>)
qed

lemma retype_refines:
  assumes "capspace_of k p = Some cap"
  shows "cap_step (capspace_of k) (capspace_of (snd (invoke_retype k cap a1 a2 a3)))"
  using retype_effect[of k cap a1 a2 a3] cap_step.Retype[where cs = "capspace_of k", OF assms] cap_step.Idle by (auto simp: capspace_of_def)

lemma handle_invoke_refines:
  assumes "capspace_of k p = Some cap" "handle_invoke lay k (Some cap) op a1 a2 a3 = Some (err, k')"
  shows "cap_step (capspace_of k) (capspace_of k')"
proof -
  have same: "cap_step (capspace_of k) (capspace_of k')" if "k_cnodes k' = k_cnodes k" using that by (simp add: capspace_of_def cap_step.Idle)
  have ret: "cap_step (capspace_of k) (capspace_of k')" if "invoke_retype k cap a1 a2 a3 = (err, k')"
    using retype_refines[OF assms(1), of a1 a2 a3] that by simp
  have bind: "k_cnodes k' = k_cnodes k" if "invoke_sched_bind k cap a1 a2 a3 = (err, k')" using invoke_cnodes_same(6)[of k cap a1 a2 a3] that by simp
  show ?thesis using assms(2) same ret bind invoke_cnodes_same(1-5)[of lay k cap] node_op_refines[OF assms(1)]
    by (cases op) (auto simp: handle_invoke_def split: if_splits)
qed

lemma sys_step_refines_caps:
  assumes "sys_step lay k a = Some k1"
  shows "cap_step (capspace_of k) (capspace_of k1)"
proof -
  obtain t0 t1 f cur where a: "a = (t0, t1, f, cur)" by (cases a)
  obtain err f1 where h: "syscall_handler lay t0 t1 (Some f) cur k = Some (err, f1, k1)" using assms a by auto
  show ?thesis
  proof (cases "k_cnodes k1 = k_cnodes k")
    case False
    then obtain sys e where d: "sys = SYS_YIELD \<or> find_cap k cur sys f \<noteq> None" "dispatch lay k f cur sys (find_cap k cur sys f) = Some (Inr (e, k1))"
      using syscall_handler_cases[OF h] by blast
    have "sys = SYS_INVOKE" using d(2) False ipc_cnodes by (cases sys) (auto simp: dispatch_def bind_eq_Some_conv)
    then obtain cap op where c: "find_cap k cur sys f = Some cap" "handle_invoke lay k (Some cap) op (tf_a1 f) (tf_a2 f) (tf_a3 f) = Some (e, k1)"
      using d by (auto simp: dispatch_def)
    obtain p where "capspace_of k p = Some cap" using find_cap_Some(1)[OF c(1)] by (auto simp: capspace_of_def)
    then show ?thesis using c(2) by (rule handle_invoke_refines)
  qed (simp add: capspace_of_def cap_step.Idle)
qed

interpretation capsim: simulation "sys_step lay" capspace_of cap_step for lay
  by unfold_locales (rule sys_step_refines_caps)

subsection \<open>The states of the threads\<close>

text \<open>
  How a system call may change the state of one thread; only the calling thread blocks, and it is
  runnable then.
\<close>

inductive edge :: "bool \<Rightarrow> tcb_state_t \<Rightarrow> tcb_state_t \<Rightarrow> bool" where
  Stay: "edge b s s"
| Call: "edge True TCB_RUNNABLE TCB_BLOCKED_REPLY"
| Recv: "edge True TCB_RUNNABLE TCB_BLOCKED_RECV"
| Wake: "s = TCB_BLOCKED_RECV \<or> s = TCB_BLOCKED_REPLY \<or> s = TCB_BLOCKED_SEND \<Longrightarrow> edge b s TCB_RUNNABLE"
| Resume: "edge b TCB_INACTIVE TCB_RUNNABLE"
| Stop: "edge b s TCB_INACTIVE"

inductive_simps edge_to_send: "edge b s TCB_BLOCKED_SEND"
inductive_simps edge_blocks: "edge b s TCB_BLOCKED_RECV" "edge b s TCB_BLOCKED_REPLY"

definition thread_step :: "(nat \<Rightarrow> tcb_state_t) \<Rightarrow> (nat \<Rightarrow> tcb_state_t) \<Rightarrow> bool" where
  "thread_step st st' \<longleftrightarrow> (\<exists>cur. \<forall>i. edge (i = cur) (st i) (st' i))"

definition states_of :: "kstate \<Rightarrow> nat \<Rightarrow> tcb_state_t" where
  "states_of k i = t_state (tt_threads (k_tcbs k) i)"

definition table_states :: "tcb_table_t \<Rightarrow> nat \<Rightarrow> tcb_state_t" where
  "table_states tt i = t_state (tt_threads tt i)"

lemma wake_edge: "edge b (table_states tt i) (table_states (wake_thread tt r s) i)"
  by (auto simp: table_states_def wake_thread_def tcb_wake_Inr intro: edge.intros split: sum.splits)

lemma resume_edge: "edge b (table_states tt i) (table_states (resume_sender tt s) i)"
  by (auto simp: table_states_def resume_sender_def intro: edge.intros)

text \<open>A runnable thread is not touched by either.\<close>

lemma wake_runnable:
  "table_states tt i = TCB_RUNNABLE \<Longrightarrow> table_states (wake_thread tt r s) i = TCB_RUNNABLE"
  "table_states tt i = TCB_RUNNABLE \<Longrightarrow> table_states (resume_sender tt s) i = TCB_RUNNABLE"
  by (auto simp: table_states_def wake_thread_def resume_sender_def tcb_wake_Inr split: sum.splits)

lemma send_states:
  assumes "endpoint_send epp tt s mp = Inr (ep1, tt1)"
  shows "tt1 = tt \<or> (\<exists>r. tt1 = wake_thread tt r s)"
  using assms by (auto simp: endpoint_send_def split: option.splits if_splits)

lemma recv_states:
  assumes "endpoint_recv epp tt r outp = Inr (om, ep1, tt1)"
  shows "tt1 = tt \<or> (\<exists>s. tt1 = resume_sender tt s)"
  using assms by (auto simp: endpoint_recv_def Let_def split: option.splits if_splits)

lemma states_of_table: "states_of k = table_states (k_tcbs k)"
  by (simp add: states_of_def table_states_def fun_eq_iff)

lemma send_to_states:
  assumes "send_to lay k p cur m = Some (err, k1)"
  shows "edge b (states_of k i) (states_of k1 i)" "states_of k i = TCB_RUNNABLE \<Longrightarrow> states_of k1 i = TCB_RUNNABLE"
proof -
  have "k_tcbs k1 = k_tcbs k \<or> (\<exists>r. k_tcbs k1 = wake_thread (k_tcbs k) r cur)"
    using assms by (auto simp: send_to_def ret_def dest!: send_states split: ptr.splits sum.splits if_splits)
  then show "edge b (states_of k i) (states_of k1 i)" "states_of k i = TCB_RUNNABLE \<Longrightarrow> states_of k1 i = TCB_RUNNABLE"
    using wake_edge wake_runnable(1) by (auto simp: states_of_table intro: edge.Stay)
qed

lemma states_set_state [simp]: "states_of (set_state k cur st) = (states_of k)(unat cur := st)"
  by (auto simp: states_of_def set_state_def put_thread_def)

lemma states_set_threads: "states_of (k\<lparr>k_endpoints := eps, k_tcbs := tt\<rparr>) = table_states tt"
  by (simp add: states_of_table)

lemma states_put_thread: "states_of (put_thread k i t) = (states_of k)(i := t_state t)"
  by (auto simp: states_of_def put_thread_def)

lemma reply_recv_states:
  assumes "sys_reply_recv lay k cur cap = Some (Inr (err, k1))"
  shows "\<exists>tt1. (tt1 = k_tcbs k \<or> (\<exists>s. tt1 = resume_sender (k_tcbs k) s)) \<and>
    (states_of k1 = table_states tt1 \<or> states_of k1 = (table_states tt1)(unat cur := TCB_BLOCKED_RECV))"
proof -
  obtain i where i: "deref (lay_ep lay) (u_endpoint_ep_ptr (c_u cap)) = Obj i"
    using assms by (auto simp: sys_reply_recv_def split: if_splits ptr.splits)
  show ?thesis
  proof (cases "endpoint_recv (Some (k_endpoints k i)) (k_tcbs k) cur (Some zero_msg)")
    case (Inl e)
    then show ?thesis using assms i by (auto simp: sys_reply_recv_def Let_def states_of_table split: if_splits)
  next
    case (Inr x)
    obtain om ep1 tt1 where x: "x = (om, ep1, tt1)" by (cases x)
    let ?k1 = "k\<lparr>k_endpoints := (k_endpoints k)(i := ep1), k_tcbs := tt1\<rparr>"
    have "k1 = set_state ?k1 cur TCB_BLOCKED_RECV \<or> (\<exists>b. k1 = put_thread ?k1 (unat cur) ((tt_threads tt1 (unat cur))\<lparr>t_ipc_buffer := b\<rparr>))"
      using assms i Inr x by (auto simp: sys_reply_recv_def Let_def split: if_splits option.splits)
    then have "states_of k1 = table_states tt1 \<or> states_of k1 = (table_states tt1)(unat cur := TCB_BLOCKED_RECV)"
      by (elim disjE exE) (simp_all add: states_put_thread states_set_threads, simp add: table_states_def fun_eq_iff)
    then show ?thesis using recv_states[OF Inr[unfolded x]] by blast
  qed
qed

lemma ipc_states:
  assumes "states_of k (unat cur) = TCB_RUNNABLE"
  shows "sys_call lay k cur cap a1 = Some (Inr (err, k1)) \<Longrightarrow> edge (i = unat cur) (states_of k i) (states_of k1 i)"
    and "sys_send lay k cur cap a1 = Some (Inr (err, k1)) \<Longrightarrow> edge (i = unat cur) (states_of k i) (states_of k1 i)"
    and "sys_reply_recv lay k cur cap = Some (Inr (err, k1)) \<Longrightarrow> edge (i = unat cur) (states_of k i) (states_of k1 i)"
proof -
  show "edge (i = unat cur) (states_of k i) (states_of k1 i)" if c: "sys_call lay k cur cap a1 = Some (Inr (err, k1))"
  proof -
    obtain p m k2 where "send_to lay k p cur m = Some (err, k2)" "k1 = (if err = ERR_OK then set_state k2 cur TCB_BLOCKED_REPLY else k2)"
      using c by (auto simp: sys_call_def Let_def bind_eq_Some_conv split: if_splits)
    then show ?thesis using send_to_states[of lay k p cur m err k2] assms by (auto intro: edge.Call)
  qed
  show "edge (i = unat cur) (states_of k i) (states_of k1 i)" if c: "sys_send lay k cur cap a1 = Some (Inr (err, k1))"
    using c send_to_states(1) by (fastforce simp: sys_send_def Let_def bind_eq_Some_conv split: if_splits)
  show "edge (i = unat cur) (states_of k i) (states_of k1 i)" if c: "sys_reply_recv lay k cur cap = Some (Inr (err, k1))"
  proof -
    obtain tt1 where tt: "tt1 = k_tcbs k \<or> (\<exists>s. tt1 = resume_sender (k_tcbs k) s)"
      "states_of k1 = table_states tt1 \<or> states_of k1 = (table_states tt1)(unat cur := TCB_BLOCKED_RECV)"
      using reply_recv_states[OF c] by blast
    have "edge (i = unat cur) (states_of k i) (table_states tt1 i)" using tt(1) resume_edge by (auto simp: states_of_table intro: edge.Stay)
    then show ?thesis using tt(2) assms by (auto intro: edge.Recv)
  qed
qed

lemma invoke_states:
  assumes "handle_invoke lay k capp op a1 a2 a3 = Some (err, k')"
  shows "edge b (states_of k i) (states_of k' i)"
proof -
  let ?e = "\<lambda>k'. edge b (states_of k i) (states_of k' i)"
  have same: "?e k'" if "k_tcbs k' = k_tcbs k" for k' using that by (simp add: states_of_table edge.Stay)
  have resume: "?e k'" if "invoke_tcb_resume lay k cap = Some (err, k')" for cap
    using that by (auto simp: invoke_tcb_resume_def Let_def states_of_def put_thread_def tcb_wake_Inr intro: edge.intros split: if_splits ptr.splits sum.splits)
  have suspend: "?e k'" if "invoke_tcb_suspend lay k cap = Some (err, k')" for cap
    using that by (auto simp: invoke_tcb_suspend_def tcb_suspend_def states_of_def put_thread_def intro: edge.intros split: if_splits ptr.splits)
  have conf: "?e k'" if "invoke_tcb_configure lay k cap a1 a2 a3 = Some (err, k')" for cap
    using that by (auto simp: invoke_tcb_configure_def Let_def ret_def tcb_configure_def states_of_def put_thread_def
        intro: edge.intros split: if_splits ptr.splits option.splits)
  have map: "invoke_map lay k cap a2 a3 = Some (err, k') \<Longrightarrow> k_tcbs k' = k_tcbs k" for cap
    by (auto simp: invoke_map_def Let_def split: if_splits option.splits ptr.splits prod.splits)
  have unmap: "invoke_unmap lay k cap a2 a3 = Some (err, k') \<Longrightarrow> k_tcbs k' = k_tcbs k" for cap
    by (auto simp: invoke_unmap_def split: if_splits ptr.splits prod.splits)
  have ret: "ret k (put_cnodes k) r = (err, k') \<Longrightarrow> k_tcbs k' = k_tcbs k" for r
    by (auto simp: ret_def put_cnodes_def split: sum.splits)
  have retype: "invoke_retype k cap a1 a2 a3 = (err, k') \<Longrightarrow> k_tcbs k' = k_tcbs k" for cap
    by (auto simp: invoke_retype_def Let_def split: if_splits)
  have bind: "invoke_sched_bind k cap a1 a2 a3 = (err, k') \<Longrightarrow> k_tcbs k' = k_tcbs k" for cap
    by (auto simp: invoke_sched_bind_def ret_def split: if_splits sum.splits)
  show ?thesis using assms same resume suspend conf map unmap ret retype bind
    by (cases op) (auto simp: handle_invoke_def split: option.splits if_splits)
qed

lemma sys_step_refines_threads:
  assumes "sys_step lay k a = Some k1"
  shows "thread_step (states_of k) (states_of k1)"
proof -
  obtain t0 t1 f cur where a: "a = (t0, t1, f, cur)" by (cases a)
  obtain err f1 where h: "syscall_handler lay t0 t1 (Some f) cur k = Some (err, f1, k1)" using assms a by auto
  show ?thesis
  proof (cases "k1 = k")
    case False
    then obtain sys e where d: "sys = SYS_YIELD \<or> t_state (tt_threads (k_tcbs k) (unat cur)) = TCB_RUNNABLE"
      "dispatch lay k f cur sys (find_cap k cur sys f) = Some (Inr (e, k1))"
      using syscall_handler_cases[OF h] by blast
    then have "sys \<noteq> SYS_YIELD" "states_of k (unat cur) = TCB_RUNNABLE" using False by (auto simp: dispatch_def states_of_def)
    then have "edge (i = unat cur) (states_of k i) (states_of k1 i)" for i
      using d(2) ipc_states[of k cur] invoke_states False by (cases sys) (auto simp: dispatch_def bind_eq_Some_conv)
    then show ?thesis by (auto simp: thread_step_def)
  qed (auto simp: thread_step_def intro: edge.Stay)
qed

interpretation threadsim: simulation "sys_step lay" states_of thread_step for lay
  by unfold_locales (rule sys_step_refines_threads)

subsection \<open>Failed calls\<close>

text \<open>The second state is the first with what a map of one page that failed left in one address space.\<close>

definition failed_map :: "layout \<Rightarrow> u64 \<Rightarrow> kerror_t \<Rightarrow> kstate \<Rightarrow> kstate \<Rightarrow> bool" where
  "failed_map lay vaddr err k k' \<longleftrightarrow> (\<exists>v paddr perms color vs e.
     vspace_map (lay_pool lay) (Some (k_vspaces k v)) (k_pt k) vaddr paddr PAGE_SIZE perms color = (err, Some vs, e) \<and>
     k' = k\<lparr>k_pt := e, k_vspaces := (k_vspaces k)(v := vs)\<rparr>)"

lemma ret_error: "ret k put r = (err, k') \<Longrightarrow> err \<noteq> ERR_OK \<Longrightarrow> k' = k"
  by (auto simp: ret_def split: sum.splits)

lemma invoke_error:
  assumes "handle_invoke lay k capp op a1 a2 a3 = Some (err, k')" "err \<noteq> ERR_OK"
  shows "k' = k \<or> op \<in> {INV_VSPACE_MAP, INV_FRAME_MAP} \<and> failed_map lay a2 err k k'"
proof -
  have map: "k' = k \<or> failed_map lay a2 err k k'" if m: "invoke_map lay k cap a2 a3 = Some (err, k')" for cap
  proof (cases "k' = k")
    case False
    then show ?thesis using invoke_map_cases[OF m] unfolding failed_map_def by metis
  qed simp
  have unmap: "invoke_unmap lay k cap a2 a3 = Some (err, k') \<Longrightarrow> k' = k" for cap
    using assms(2) by (auto simp: invoke_unmap_def vspace_unmap_def split: if_splits ptr.splits option.splits)
  have tcb: "invoke_tcb_resume lay k cap = Some (err, k') \<Longrightarrow> k' = k" "invoke_tcb_suspend lay k cap = Some (err, k') \<Longrightarrow> k' = k"
    "invoke_tcb_configure lay k cap a1 a2 a3 = Some (err, k') \<Longrightarrow> k' = k" for cap
    using assms(2) by (auto simp: invoke_tcb_resume_def invoke_tcb_suspend_def invoke_tcb_configure_def Let_def
        dest: ret_error split: if_splits option.splits ptr.splits sum.splits)
  have "invoke_retype k cap a1 a2 a3 = (err, k') \<Longrightarrow> k' = k" "invoke_sched_bind k cap a1 a2 a3 = (err, k') \<Longrightarrow> k' = k" for cap
    using assms(2) by (auto simp: invoke_retype_def invoke_sched_bind_def Let_def dest: ret_error split: if_splits)
  then show ?thesis using assms map unmap tcb ret_error
    by (cases op) (fastforce simp: handle_invoke_def split: option.splits if_splits)+
qed

lemma ipc_error:
  assumes "err \<noteq> ERR_OK"
  shows "sys_call lay k cur cap a1 = Some (Inr (err, k')) \<Longrightarrow> k' = k" "sys_send lay k cur cap a1 = Some (Inr (err, k')) \<Longrightarrow> k' = k"
    and "sys_reply_recv lay k cur cap = Some (Inr (err, k')) \<Longrightarrow> k' = k"
proof -
  have send: "k1 = k" if "send_to lay k p cur m = Some (err, k1)" for p m k1
    using that assms by (auto simp: send_to_def dest: ret_error split: ptr.splits if_splits)
  show "sys_call lay k cur cap a1 = Some (Inr (err, k')) \<Longrightarrow> k' = k" "sys_send lay k cur cap a1 = Some (Inr (err, k')) \<Longrightarrow> k' = k"
    using assms send by (auto simp: sys_call_def sys_send_def Let_def bind_eq_Some_conv split: if_splits)
  show "sys_reply_recv lay k cur cap = Some (Inr (err, k')) \<Longrightarrow> k' = k"
    using assms by (auto simp: sys_reply_recv_def Let_def split: if_splits ptr.splits sum.splits option.splits prod.splits)
qed

subsection \<open>Properties\<close>

text \<open>
  C5 (refinement). The system-call interface refines the abstract machines: every sequence of system calls,
  seen through the capability space, is a sequence of copies, mints, moves, deletions and retypes, each
  backed by the capability that authorises it, and seen through the states of the threads a sequence
  of moves along the edges of the thread graph in which only callers block.
\<close>

theorem syscalls_refine_spec:
  assumes "run_steps (sys_step lay) k calls = Some k'"
  shows "cap_step\<^sup>*\<^sup>* (capspace_of k) (capspace_of k') \<and> thread_step\<^sup>*\<^sup>* (states_of k) (states_of k')"
  using capsim.run_sim[OF assms] threadsim.run_sim[OF assms] by blast

theorem syscalls_refine_spec_witness:
  "\<exists>k'. run_steps (sys_step demo_lay) (demo_k demo_cap) [(0, 0, demo_frame 5 1 0x0600 5 0x1000, 0)] = Some k' \<and>
     capspace_of k' (0, 6) \<noteq> None \<and> cap_step\<^sup>*\<^sup>* (capspace_of (demo_k demo_cap)) (capspace_of k')"
proof -
  obtain k1 where k1: "sys_step demo_lay (demo_k demo_cap) (0, 0, demo_frame 5 1 0x0600 5 0x1000, 0) = Some k1"
    "caps_of (k_cnodes k1) (0, 6) = Some (cap_retype demo_cap CAP_FRAME 0x90000000 0x1000)"
    by (rule demo_sys_step)
  have r: "run_steps (sys_step demo_lay) (demo_k demo_cap) [(0, 0, demo_frame 5 1 0x0600 5 0x1000, 0)] = Some k1" using k1(1) by simp
  show ?thesis using r syscalls_refine_spec[OF r] k1(2) by (auto simp: capspace_of_def)
qed

text \<open>
  C19 (safety). No authority, no change: in a state without capabilities to untyped memory or to a node, no
  sequence of system calls changes which capabilities exist, whatever the threads do.
\<close>

theorem no_authority_no_change:
  assumes "\<forall>c\<in>ran (capspace_of k). c_type c \<noteq> CAP_UNTYPED \<and> c_type c \<noteq> CAP_CNODE"
    and "run_steps (sys_step lay) k calls = Some k'"
  shows "capspace_of k' = capspace_of k"
proof -
  have "cs' = cs" if "cap_step cs cs'" "\<forall>c\<in>ran cs. c_type c \<noteq> CAP_UNTYPED \<and> c_type c \<noteq> CAP_CNODE" for cs cs'
    using that by cases (auto simp: cap_can_retype_def ranI split: if_splits dest: ranI)
  then show ?thesis using capsim.run_abs_inv[OF assms(2), of "\<lambda>cs. cs = capspace_of k"] assms(1) by blast
qed

theorem no_authority_no_change_witness:
  "\<exists>k'. run_steps (sys_step demo_lay) (demo_k demo_ep_cap) [(0, 0, demo_frame 3 1 0 0 0, 0)] = Some k' \<and>
     capspace_of k' = capspace_of (demo_k demo_ep_cap)"
proof -
  have "ran (capspace_of (demo_k demo_ep_cap)) \<subseteq> {demo_ep_cap}" using demo_k_caps by (simp add: capspace_of_def)
  then have a: "\<forall>c\<in>ran (capspace_of (demo_k demo_ep_cap)). c_type c \<noteq> CAP_UNTYPED \<and> c_type c \<noteq> CAP_CNODE"
    using demo_ep_cap_fields(1) by auto
  have "syscall_of (ucast (tf_a7 (demo_frame 3 1 0 0 0))) = Some SYS_YIELD" by (simp add: demo_frame_def syscall_of_def)
  then have r: "run_steps (sys_step demo_lay) (demo_k demo_ep_cap) [(0, 0, demo_frame 3 1 0 0 0, 0)] = Some (demo_k demo_ep_cap)"
    by (simp add: syscall_handler_def dispatch_def wcet_check_def Let_def) (simp add: demo_k_def zero_tcb_def)
  show ?thesis using r no_authority_no_change[OF a r] by blast
qed

text \<open>
  C20 (invariant). No thread ever blocks in a send: if none is in that state, none is after any sequence of
  system calls. A full queue is an error and not a wait, so the code that wakes blocked senders never runs.
\<close>

theorem threads_never_block_sending:
  assumes "\<forall>i. states_of k i \<noteq> TCB_BLOCKED_SEND" "run_steps (sys_step lay) k calls = Some k'"
  shows "states_of k' i \<noteq> TCB_BLOCKED_SEND"
proof -
  have "\<forall>i. st' i \<noteq> TCB_BLOCKED_SEND" if "\<forall>i. st i \<noteq> TCB_BLOCKED_SEND" "thread_step st st'" for st st'
    using that unfolding thread_step_def by (metis edge_to_send)
  then show ?thesis using threadsim.run_abs_inv[OF assms(2), of "\<lambda>st. \<forall>i. st i \<noteq> TCB_BLOCKED_SEND"] assms(1) by blast
qed

theorem threads_never_block_sending_witness:
  "\<exists>k'. run_steps (sys_step demo_lay) (demo_k demo_cap) [(0, 0, demo_frame 5 1 0x0600 5 0x1000, 0)] = Some k' \<and>
     states_of k' 0 \<noteq> TCB_BLOCKED_SEND"
proof -
  obtain k1 where "sys_step demo_lay (demo_k demo_cap) (0, 0, demo_frame 5 1 0x0600 5 0x1000, 0) = Some k1" by (rule demo_sys_step)
  then have r: "run_steps (sys_step demo_lay) (demo_k demo_cap) [(0, 0, demo_frame 5 1 0x0600 5 0x1000, 0)] = Some k1" by simp
  have "\<forall>i. states_of (demo_k demo_cap) i \<noteq> TCB_BLOCKED_SEND" by (simp add: states_of_def demo_k_def)
  then show ?thesis using r threads_never_block_sending[OF _ r] by blast
qed

text \<open>
  C9 (error). Failed calls are atomic, but for maps: a system call that returns an error, the refusal of a
  thread without budget included, changes nothing at all, unless it is a map of a page, where the one
  change is what \<^verbatim>\<open>vspace_map\<close> itself did to the page tables and to the address space before it
  failed. The error for a late finish is excluded: it replaces the result of a call that was carried out.
\<close>

theorem syscall_error_atomic:
  assumes "syscall_handler lay t0 t1 (Some f) cur k = Some (err, f', k')" "err \<noteq> ERR_OK"
    and "err \<noteq> ERR_WCET_EXCEEDED \<or> wcet_check t1 t0 \<or>
      sc_remaining_us (s_contexts (k_sched k) (unat (t_sched_context (tt_threads (k_tcbs k) (unat cur))))) = 0"
  shows "k' = k \<or> syscall_of (ucast (tf_a7 f)) = Some SYS_INVOKE \<and>
    invoke_op_of (ucast (tf_a1 f AND 0xFF)) \<in> {INV_VSPACE_MAP, INV_FRAME_MAP} \<and> failed_map lay (tf_a2 f) err k k'"
proof (cases "k' = k")
  case False
  then obtain sys where s: "syscall_of (ucast (tf_a7 f)) = Some sys" using assms(1) by (auto simp: syscall_handler_def split: option.splits)
  then have "dispatch lay k f cur sys (find_cap k cur sys f) = Some (Inr (err, k'))"
    using assms False by (auto simp: syscall_handler_def Let_def split: if_splits option.splits sum.splits prod.splits)
  then show ?thesis using ipc_error[OF assms(2), where k' = k'] invoke_error[OF _ assms(2), where k' = k' and k = k] False s
    by (cases sys) (auto simp: dispatch_def bind_eq_Some_conv)
qed simp

theorem syscall_error_atomic_witness:
  "\<exists>f' k'. syscall_handler demo_lay 0 0 (Some (demo_frame 5 1 0 5 0x1000)) 0 (demo_k demo_ep_cap) = Some (ERR_INVALID_ARG, f', k') \<and>
     k' = demo_k demo_ep_cap"
proof -
  have v: "cap_is_valid (Some demo_ep_cap)" "\<not> cap_can_retype demo_ep_cap nt sz" for nt sz
    using demo_ep_cap_fields(1-3) by (simp_all add: cap_is_valid_def cap_can_retype_def)
  have "dispatch demo_lay (demo_k demo_ep_cap) (demo_frame 5 1 0 5 0x1000) 0 SYS_INVOKE (Some demo_ep_cap) = Some (Inr (ERR_INVALID_ARG, demo_k demo_ep_cap))"
    using v by (simp add: dispatch_def handle_invoke_def invoke_retype_def invoke_op_of_def demo_frame_def Let_def)
  from demo_passes[OF demo_ep_cap_fields(2,3) _ this, of 0 0] obtain f' where
    h: "syscall_handler demo_lay 0 0 (Some (demo_frame 5 1 0 5 0x1000)) 0 (demo_k demo_ep_cap) = Some (ERR_INVALID_ARG, f', demo_k demo_ep_cap)"
    by (auto simp: syscall_of_def wcet_check_def)
  show ?thesis using h syscall_error_atomic[OF h] by (auto simp: demo_frame_def invoke_op_of_def)
qed

end
