(* ===== verification/CheriPure.thy ===== *)
theory CheriPure
  imports Capability
begin

text \<open>
  The pure-capability branch of \<^verbatim>\<open>kernel/src/cheri.c\<close>: the validity test and the restriction of the
  default data capability. The capability type and the compiler intrinsics that \<^verbatim>\<open>cheri.h\<close> names are
  not part of the sources and are arguments. The copy routine of this branch builds a pointer from an
  integer, whose meaning is the compiler's, and is not modelled.
\<close>

record 'c cheri_ops =
  ch_tag :: "'c \<Rightarrow> bool"
  ch_base :: "'c \<Rightarrow> u64"
  ch_length :: "'c \<Rightarrow> u64"
  ch_perms :: "'c \<Rightarrow> u32"
  ch_bounds_set :: "'c \<Rightarrow> u64 \<Rightarrow> 'c"

definition purecap_cap_is_valid :: "'c cheri_ops \<Rightarrow> 'c \<Rightarrow> u64 \<Rightarrow> u64 \<Rightarrow> u32 \<Rightarrow> bool" where
  "purecap_cap_is_valid ops cap base len perms \<longleftrightarrow>
     (if \<not> ch_tag ops cap then False
      else if ch_base ops cap \<noteq> base then False
      else if ch_length ops cap \<noteq> len then False
      else if ch_perms ops cap AND perms \<noteq> perms then False
      else True)"

text \<open>The two registers read by the assembly are arguments, the new data capability is the result.\<close>

definition purecap_init_ddc :: "'c cheri_ops \<Rightarrow> 'c \<Rightarrow> 'c \<Rightarrow> 'c option" where
  "purecap_init_ddc ops pcc ddc =
     (if \<not> ch_tag ops pcc \<or> \<not> ch_tag ops ddc then wfi_loop ()
      else Some (ch_bounds_set ops ddc 0x10000000))"

definition purecap_is_purecap :: bool where "purecap_is_purecap = True"

definition cheri_is_purecap :: bool where "cheri_is_purecap = False"

text \<open>
  What the intrinsics document, for capabilities whose fields a view reads off: they read the tag, the
  base, the length and the permissions, and setting bounds keeps tag and base and sets the length.
\<close>

locale cheri_view =
  fixes ops :: "'c cheri_ops"
    and view :: "'c \<Rightarrow> sim_cap_t"
  assumes tag: "ch_tag ops c = cheri_tag_get (view c)"
    and base: "ch_base ops c = cheri_base_get (view c)"
    and len: "ch_length ops c = cheri_length_get (view c)"
    and perms: "ch_perms ops c = hw_perms (view c)"
    and bounds: "view (ch_bounds_set ops c n) = (view c)\<lparr>hw_top := hw_base (view c) + n\<rparr>"
begin

lemma valid_agrees:
  "cheri_cap_is_valid (view c) b n p \<longleftrightarrow> hw_sealed (view c) = 0 \<and> purecap_cap_is_valid ops c b n p"
proof -
  have "hw_top (view c) - hw_base (view c) = n \<longleftrightarrow> hw_top (view c) = hw_base (view c) + n" by (auto simp: algebra_simps)
  then show ?thesis
    by (auto simp: cheri_cap_is_valid_def purecap_cap_is_valid_def tag base len perms cheri_tag_get_def cheri_base_get_def cheri_length_get_def)
qed

lemma ddc_valid:
  assumes "purecap_init_ddc ops pcc ddc = Some d"
  shows "ch_tag ops ddc" "purecap_cap_is_valid ops d (ch_base ops ddc) 0x10000000 (ch_perms ops ddc)"
  using assms by (auto simp: purecap_init_ddc_def purecap_cap_is_valid_def tag base len perms bounds cheri_tag_get_def cheri_base_get_def
      cheri_length_get_def split: if_splits)

end

definition sim_ops :: "sim_cap_t cheri_ops" where
  "sim_ops = \<lparr>ch_tag = cheri_tag_get, ch_base = cheri_base_get, ch_length = cheri_length_get, ch_perms = hw_perms,
     ch_bounds_set = (\<lambda>c n. c\<lparr>hw_top := hw_base c + n\<rparr>)\<rparr>"

interpretation sim: cheri_view sim_ops "\<lambda>c. c"
  by unfold_locales (simp_all add: sim_ops_def)

text \<open>
  (equivalence). The two branches of the validity test agree on the simulated capabilities, seal apart: the
  hybrid branch accepts exactly the unsealed capabilities the pure-capability branch accepts. The latter
  never looks at the seal.
\<close>

theorem cap_is_valid_branches_agree:
  "cheri_cap_is_valid c base len perms \<longleftrightarrow> hw_sealed c = 0 \<and> purecap_cap_is_valid sim_ops c base len perms"
  by (rule sim.valid_agrees)

text \<open>
  (safety). The restriction of the data capability either stops the machine or leaves a valid
  capability of 256 megabytes from the old base.
\<close>

theorem init_ddc_restricts:
  "case purecap_init_ddc sim_ops pcc ddc of
     None \<Rightarrow> \<not> cheri_tag_get pcc \<or> \<not> cheri_tag_get ddc
   | Some d \<Rightarrow> purecap_cap_is_valid sim_ops d (hw_base ddc) 0x10000000 (hw_perms ddc)"
proof (cases "purecap_init_ddc sim_ops pcc ddc")
  case (Some d)
  then show ?thesis using sim.ddc_valid(2)[OF Some] by (simp add: sim_ops_def cheri_base_get_def)
qed (auto simp: purecap_init_ddc_def sim_ops_def split: if_splits)

end
