(* ===== verification/Notification.thy ===== *)
theory Notification
  imports Prelude
begin

text \<open>
  Asynchronous notifications, \<^verbatim>\<open>kernel/include/notification.h\<close> and
  \<^verbatim>\<open>kernel/src/notification.c\<close>: a word of pending badge bits that signals are merged into and
  that a wait or poll takes as a whole.
\<close>

record notification_t =
  n_badge :: u64
  n_has_waiter :: bool
  n_waiter_tcb :: u32
  n_bound_tcb :: u32

definition notification_init :: "notification_t option \<Rightarrow> kerror_t + notification_t" where
  "notification_init np =
     (case np of
        None \<Rightarrow> Inl ERR_INVALID_ARG
      | Some _ \<Rightarrow> Inr \<lparr>n_badge = 0, n_has_waiter = False, n_waiter_tcb = 0, n_bound_tcb = 0\<rparr>)"

definition notification_signal :: "notification_t option \<Rightarrow> u64 \<Rightarrow> kerror_t + notification_t" where
  "notification_signal np badge =
     (case np of
        None \<Rightarrow> Inl ERR_INVALID_ARG
      | Some n \<Rightarrow>
          if badge = 0 then Inl ERR_INVALID_ARG
          else Inr (n\<lparr>n_badge := n_badge n OR badge\<rparr>))"

text \<open>
  The output pointer is represented by the value it points at before the call. The first component
  of the result is what is stored through it, \<open>None\<close> when nothing is.
\<close>

definition notification_wait ::
  "notification_t option \<Rightarrow> u32 \<Rightarrow> u64 option \<Rightarrow> kerror_t + (u64 option \<times> notification_t)" where
  "notification_wait np waiter outp =
     (case (np, outp) of
        (Some n, Some _) \<Rightarrow>
          if n_badge n \<noteq> 0 then Inr (Some (n_badge n), n\<lparr>n_badge := 0\<rparr>)
          else Inr (None, n\<lparr>n_has_waiter := True, n_waiter_tcb := waiter\<rparr>)
      | _ \<Rightarrow> Inl ERR_INVALID_ARG)"

definition notification_poll ::
  "notification_t option \<Rightarrow> u64 option \<Rightarrow> kerror_t + (u64 option \<times> notification_t)" where
  "notification_poll np outp =
     (case (np, outp) of
        (Some n, Some _) \<Rightarrow> Inr (Some (n_badge n), n\<lparr>n_badge := 0\<rparr>)
      | _ \<Rightarrow> Inl ERR_INVALID_ARG)"

definition notification_bind :: "notification_t option \<Rightarrow> u32 \<Rightarrow> kerror_t + notification_t" where
  "notification_bind np tcb_id =
     (case np of
        None \<Rightarrow> Inl ERR_INVALID_ARG
      | Some n \<Rightarrow> Inr (n\<lparr>n_bound_tcb := tcb_id\<rparr>))"

subsection \<open>Runs with a history\<close>

text \<open>
  The history of a notification: the badges signalled since the last one was handed out, and for
  each that was handed out before, the badges signalled since the one before it.
\<close>

datatype ntfn_op = Signal u64 | Wait u32 | Poll | Bind u32

record ntfn_log =
  nl_ntfn :: notification_t
  nl_open :: "u64 list"
  nl_batches :: "(u64 list \<times> u64) list"

definition take_badge :: "ntfn_log \<Rightarrow> kerror_t + (u64 option \<times> notification_t) \<Rightarrow> ntfn_log" where
  "take_badge s r = (case r of
      Inl _ \<Rightarrow> s
    | Inr (None, n) \<Rightarrow> s\<lparr>nl_ntfn := n\<rparr>
    | Inr (Some b, n) \<Rightarrow> s\<lparr>nl_ntfn := n, nl_open := [], nl_batches := nl_batches s @ [(nl_open s, b)]\<rparr>)"

fun ntfn_step :: "ntfn_log \<Rightarrow> ntfn_op \<Rightarrow> ntfn_log" where
  "ntfn_step s (Signal b) = (case notification_signal (Some (nl_ntfn s)) b of
      Inl _ \<Rightarrow> s | Inr n \<Rightarrow> s\<lparr>nl_ntfn := n, nl_open := nl_open s @ [b]\<rparr>)"
| "ntfn_step s (Wait w) = take_badge s (notification_wait (Some (nl_ntfn s)) w (Some 0))"
| "ntfn_step s Poll = take_badge s (notification_poll (Some (nl_ntfn s)) (Some 0))"
| "ntfn_step s (Bind t) = (case notification_bind (Some (nl_ntfn s)) t of
      Inl _ \<Rightarrow> s | Inr n \<Rightarrow> s\<lparr>nl_ntfn := n\<rparr>)"

definition or_all :: "u64 list \<Rightarrow> u64" where
  "or_all bs = foldl (\<lambda>x y. x OR y) 0 bs"

text \<open>The badges the calls of a run signal, in order; a signal of no badge is refused.\<close>

definition signals :: "ntfn_op list \<Rightarrow> u64 list" where
  "signals ops = concat (map (\<lambda>a. case a of Signal b \<Rightarrow> if b = 0 then [] else [b] | _ \<Rightarrow> []) ops)"

definition batches_ok :: "ntfn_log \<Rightarrow> bool" where
  "batches_ok s \<longleftrightarrow> (\<forall>(bs, b)\<in>set (nl_batches s). b = or_all bs) \<and> n_badge (nl_ntfn s) = or_all (nl_open s) \<and> 0 \<notin> set (nl_open s)"

definition logged :: "ntfn_log \<Rightarrow> u64 list" where
  "logged s = concat (map fst (nl_batches s)) @ nl_open s"

lemma or_all_simps [simp]: "or_all [] = 0" "or_all (bs @ [b]) = or_all bs OR b"
  by (simp_all add: or_all_def)

lemma or_all_eq_0: "or_all bs = 0 \<longleftrightarrow> set bs \<subseteq> {0}"
  by (induction bs rule: rev_induct) (auto simp: or_eq_0_iff)

lemma ntfn_step_ok: "batches_ok s \<Longrightarrow> batches_ok (ntfn_step s a)"
  by (cases a) (auto simp: batches_ok_def notification_signal_def notification_wait_def
      notification_poll_def notification_bind_def take_badge_def)

interpretation ntfnm: invariant_machine ntfn_step batches_ok
  by unfold_locales (rule ntfn_step_ok)

lemma ntfn_run_logged: "logged (foldl ntfn_step s ops) = logged s @ signals ops"
proof (induction ops arbitrary: s)
  case (Cons a ops)
  have "logged (ntfn_step s a) = logged s @ signals [a]"
    by (cases a) (auto simp: logged_def signals_def notification_signal_def notification_wait_def
      notification_poll_def notification_bind_def take_badge_def)
  then show ?case using Cons.IH[of "ntfn_step s a"] by (simp add: signals_def)
qed (simp add: signals_def)

subsection \<open>Properties\<close>

text \<open>
  C36 (functional). Signals are coalesced, and each is delivered once: after any sequence of signals, waits, polls
  and binds on a freshly initialised notification, the badges signalled fall, in their order, into
  consecutive groups, one for each badge handed out and one that is still open. What was handed out is
  the union of its own group, so a bit is never handed out twice for one signal, and what is pending is the
  union of the open one: the next poll hands out exactly that and leaves nothing pending, and
  so does the next wait, which registers the waiter instead if the group is empty.
\<close>

theorem notification_coalesces:
  assumes "notification_init (Some n0) = Inr n"
    and "s = foldl ntfn_step \<lparr>nl_ntfn = n, nl_open = [], nl_batches = []\<rparr> ops"
  shows "concat (map fst (nl_batches s)) @ nl_open s = signals ops \<and> (\<forall>(bs, b)\<in>set (nl_batches s). b = or_all bs) \<and>
    notification_poll (Some (nl_ntfn s)) (Some out) = Inr (Some (or_all (nl_open s)), (nl_ntfn s)\<lparr>n_badge := 0\<rparr>) \<and>
    notification_wait (Some (nl_ntfn s)) w (Some out) =
      Inr (if nl_open s = [] then (None, (nl_ntfn s)\<lparr>n_has_waiter := True, n_waiter_tcb := w\<rparr>)
           else (Some (or_all (nl_open s)), (nl_ntfn s)\<lparr>n_badge := 0\<rparr>))"
proof -
  let ?s0 = "\<lparr>nl_ntfn = n, nl_open = [], nl_batches = []\<rparr>"
  have "batches_ok ?s0" using assms(1) by (auto simp: batches_ok_def notification_init_def)
  then have ok: "batches_ok s" using ntfnm.run_inv[of ?s0 ops] assms(2) by simp
  moreover from ok have "n_badge (nl_ntfn s) = 0 \<longleftrightarrow> nl_open s = []"
    by (cases "nl_open s") (auto simp: batches_ok_def or_all_eq_0)
  moreover have "logged s = signals ops" using ntfn_run_logged[of ?s0 ops] assms(2) by (simp add: logged_def)
  ultimately show ?thesis by (auto simp: batches_ok_def logged_def notification_poll_def notification_wait_def)
qed

theorem notification_coalesces_witness:
  "\<exists>n s. notification_init (Some \<lparr>n_badge = 9, n_has_waiter = True, n_waiter_tcb = 1, n_bound_tcb = 0\<rparr>) = Inr n \<and>
     s = foldl ntfn_step \<lparr>nl_ntfn = n, nl_open = [], nl_batches = []\<rparr> [Signal 1, Signal 4, Wait 3, Signal 2] \<and>
     concat (map fst (nl_batches s)) @ nl_open s = [1, 4, 2] \<and>
     notification_poll (Some (nl_ntfn s)) (Some 0) = Inr (Some 2, (nl_ntfn s)\<lparr>n_badge := 0\<rparr>)"
proof -
  let ?n = "\<lparr>n_badge = 0, n_has_waiter = False, n_waiter_tcb = 0, n_bound_tcb = 0\<rparr>" and ?ops = "[Signal 1, Signal 4, Wait 3, Signal 2]"
  let ?s = "foldl ntfn_step \<lparr>nl_ntfn = ?n, nl_open = [], nl_batches = []\<rparr> ?ops"
  have i: "notification_init (Some \<lparr>n_badge = 9, n_has_waiter = True, n_waiter_tcb = 1, n_bound_tcb = 0\<rparr>) = Inr ?n"
    by (simp add: notification_init_def)
  have o: "nl_open ?s = [2]" "signals ?ops = [1, 4, 2]"
    by (simp_all add: notification_signal_def notification_wait_def take_badge_def signals_def)
  have "or_all [2] = 2" using or_all_simps(2)[of "[]" 2] by simp
  then show ?thesis using i notification_coalesces[OF i refl, of ?ops 0 0] o by (metis (no_types, lifting))
qed

text \<open>
  (liveness). A waiter is never released by a signal: no operation other than initialisation
  clears \<^verbatim>\<open>has_waiter\<close>, and none of them touches a thread.
\<close>

lemma notification_waiter_sticks:
  assumes "n_has_waiter (nl_ntfn s)"
  shows "n_has_waiter (nl_ntfn (foldl ntfn_step s ops))"
  using assms
proof (induction ops arbitrary: s)
  case (Cons a ops)
  have "n_has_waiter (nl_ntfn (ntfn_step s a))"
    using Cons.prems by (cases a) (auto simp: notification_signal_def notification_wait_def
      notification_poll_def notification_bind_def take_badge_def)
  then show ?case using Cons.IH by simp
qed simp

end
