(* ===== verification/Irq.thy ===== *)
theory Irq
  imports Capability
begin

text \<open>
  Interrupt lines, \<^verbatim>\<open>kernel/include/irq.h\<close> and \<^verbatim>\<open>kernel/src/irq.c\<close>: a table of 64 lines, each
  bound to at most one thread, and a word of pending lines.
\<close>

record irq_entry_t =
  ie_valid :: bool
  ie_bound :: bool
  ie_irq_num :: u32
  ie_owner_tcb :: u32
  ie_notification_cap :: u32
  ie_badge :: u32
  ie_partition_id :: u32

definition zero_irq_entry :: irq_entry_t where
  "zero_irq_entry = \<lparr>ie_valid = False, ie_bound = False, ie_irq_num = 0, ie_owner_tcb = 0,
     ie_notification_cap = 0, ie_badge = 0, ie_partition_id = 0\<rparr>"

record irq_state_t =
  is_irqs :: "irq_entry_t arr"
  is_pending_mask :: u64

definition zero_irq_state :: irq_state_t where
  "zero_irq_state = \<lparr>is_irqs = (\<lambda>_. zero_irq_entry), is_pending_mask = 0\<rparr>"

abbreviation (input) MAX_IRQS :: u32 where "MAX_IRQS \<equiv> 64"

definition irq_bind ::
  "irq_state_t option \<Rightarrow> cap_t option \<Rightarrow> u32 \<Rightarrow> u32 \<Rightarrow> u32 \<Rightarrow> kerror_t + irq_state_t" where
  "irq_bind isp capp tcb_id ntfn_cptr badge =
     (case (isp, capp) of
        (Some s, Some irq_cap) \<Rightarrow>
          if c_type irq_cap \<noteq> CAP_IRQ then Inl ERR_INVALID_CAP
          else if c_is_valid irq_cap = 0 then Inl ERR_INVALID_CAP
          else let irq = u_irq_irq (c_u irq_cap) in
            if irq \<ge> MAX_IRQS then Inl ERR_INVALID_ARG
            else if ie_bound (is_irqs s (unat irq)) then Inl ERR_REVOKE_NEEDED
            else Inr (s\<lparr>is_irqs := (is_irqs s)(unat irq := (is_irqs s (unat irq))
                   \<lparr>ie_valid := True, ie_bound := True, ie_irq_num := irq, ie_owner_tcb := tcb_id,
                    ie_notification_cap := ntfn_cptr, ie_badge := badge\<rparr>)\<rparr>)
      | _ \<Rightarrow> Inl ERR_INVALID_ARG)"

definition irq_unbind :: "irq_state_t option \<Rightarrow> u32 \<Rightarrow> kerror_t + irq_state_t" where
  "irq_unbind isp irq_num =
     (case isp of
        None \<Rightarrow> Inl ERR_INVALID_ARG
      | Some s \<Rightarrow>
          if irq_num \<ge> MAX_IRQS then Inl ERR_INVALID_ARG
          else if \<not> ie_bound (is_irqs s (unat irq_num)) then Inl ERR_INVALID_ARG
          else Inr (s\<lparr>is_irqs := (is_irqs s)(unat irq_num := zero_irq_entry)\<rparr>))"

definition irq_handle :: "irq_state_t option \<Rightarrow> u32 \<Rightarrow> irq_state_t option" where
  "irq_handle isp irq_num =
     (case isp of
        None \<Rightarrow> None
      | Some s \<Rightarrow>
          if irq_num \<ge> MAX_IRQS then Some s
          else if \<not> ie_bound (is_irqs s (unat irq_num)) then Some s
          else Some (s\<lparr>is_pending_mask := is_pending_mask s OR push_bit (unat (irq_num mod 64)) 1\<rparr>))"

definition irq_is_pending :: "irq_state_t option \<Rightarrow> u32 \<Rightarrow> bool" where
  "irq_is_pending isp irq_num \<longleftrightarrow>
     (case isp of
        None \<Rightarrow> False
      | Some s \<Rightarrow>
          if irq_num \<ge> MAX_IRQS then False
          else drop_bit (unat (irq_num mod 64)) (is_pending_mask s) AND 1 \<noteq> 0)"

subsection \<open>Runs\<close>

datatype irq_op = Irq_bind cap_t u32 u32 u32 | Irq_unbind u32 | Irq_handle u32

fun irq_step :: "irq_state_t \<Rightarrow> irq_op \<Rightarrow> irq_state_t" where
  "irq_step s (Irq_bind c t n b) = (case irq_bind (Some s) (Some c) t n b of Inl _ \<Rightarrow> s | Inr s' \<Rightarrow> s')"
| "irq_step s (Irq_unbind i) = (case irq_unbind (Some s) i of Inl _ \<Rightarrow> s | Inr s' \<Rightarrow> s')"
| "irq_step s (Irq_handle i) = (case irq_handle (Some s) i of None \<Rightarrow> s | Some s' \<Rightarrow> s')"

lemma irq_mod_64: "unat (i :: u32) < 64 \<Longrightarrow> unat (i mod 64) = unat i"
  by (simp add: unat_mod)

lemma irq_is_pending_bit:
  "irq_is_pending (Some s) i \<longleftrightarrow> unat i < 64 \<and> bit (is_pending_mask s) (unat i)"
proof -
  have "x AND 1 \<noteq> 0 \<longleftrightarrow> bit x 0" for x :: u64 by (simp add: and_one_eq bit_0 odd_iff_mod_2_eq_one)
  then show ?thesis
    by (auto simp: irq_is_pending_def word_le_nat_alt irq_mod_64 bit_drop_bit_eq)
qed

lemma irq_handle_pending:
  assumes "unat i < 64" "ie_bound (is_irqs s (unat i))"
  shows "\<exists>s'. irq_handle (Some s) i = Some s' \<and> is_irqs s' = is_irqs s \<and>
    (\<forall>k. bit (is_pending_mask s') k \<longleftrightarrow> bit (is_pending_mask s) k \<or> k = unat i)"
  using assms by (auto simp: irq_handle_def word_le_nat_alt irq_mod_64 bit_simps)

text \<open>A line's entry is that of its binding: only an unbind of that line changes it.\<close>

definition irq_owned :: "nat \<Rightarrow> irq_entry_t \<Rightarrow> irq_state_t \<Rightarrow> bool" where
  "irq_owned i e s \<longleftrightarrow> ie_bound e \<and> is_irqs s i = e"

lemma irq_owned_step:
  assumes "irq_owned i e s" "a \<noteq> Irq_unbind (of_nat i)" "i < 64"
  shows "irq_owned i e (irq_step s a)"
proof (cases a)
  case (Irq_bind c t n b)
  then show ?thesis using assms(1)
    by (auto simp: irq_owned_def irq_bind_def Let_def)
next
  case (Irq_unbind j)
  then have "unat j \<noteq> i" using assms(2) by auto
  then show ?thesis using assms(1) Irq_unbind by (auto simp: irq_owned_def irq_unbind_def)
next
  case (Irq_handle j)
  then show ?thesis using assms(1) by (auto simp: irq_owned_def irq_handle_def)
qed

interpretation irqown: guarded_machine irq_step "\<lambda>s. i < 64 \<and> irq_owned i e s" "\<lambda>a. a \<noteq> Irq_unbind (of_nat i)" for i e
  by unfold_locales (auto intro: irq_owned_step)

text \<open>Every entry of the table is unused or describes its own line.\<close>

definition irq_table_ok :: "irq_state_t \<Rightarrow> bool" where
  "irq_table_ok s \<longleftrightarrow> (\<forall>i<64. (ie_bound (is_irqs s i) \<longleftrightarrow> ie_valid (is_irqs s i)) \<and>
     (ie_bound (is_irqs s i) \<longrightarrow> unat (ie_irq_num (is_irqs s i)) = i))"

lemma irq_table_ok_step: "irq_table_ok s \<Longrightarrow> irq_table_ok (irq_step s a)"
  by (cases a) (auto simp: irq_table_ok_def irq_bind_def irq_unbind_def irq_handle_def Let_def zero_irq_entry_def)

interpretation irqtab: invariant_machine irq_step irq_table_ok
  by unfold_locales (rule irq_table_ok_step)

lemma irq_run_table_ok: "irq_table_ok (foldl irq_step zero_irq_state ops)"
  by (rule irqtab.run_inv) (simp add: irq_table_ok_def zero_irq_state_def zero_irq_entry_def)

subsection \<open>Properties\<close>

text \<open>
  (safety). A line that is bound stays with its owner: in every run that does not unbind that
  line, whatever capabilities other threads present, its entry keeps the owner, notification and
  badge of the binding, and a further bind of it is refused with \<^verbatim>\<open>ERR_REVOKE_NEEDED\<close>.
\<close>

theorem irq_bind_exclusive:
  assumes "i < 64" "ie_bound (is_irqs s i)" "\<forall>a\<in>set ops. a \<noteq> Irq_unbind (of_nat i)"
  shows "is_irqs (foldl irq_step s ops) i = is_irqs s i \<and>
    (c_type c = CAP_IRQ \<and> c_is_valid c \<noteq> 0 \<and> u_irq_irq (c_u c) = of_nat i \<longrightarrow>
      irq_bind (Some (foldl irq_step s ops)) (Some c) t n b = Inl ERR_REVOKE_NEEDED)"
proof -
  have keep: "is_irqs (foldl irq_step s ops) i = is_irqs s i"
    using irqown.run_inv[of i "is_irqs s i" s ops] assms by (auto simp: irq_owned_def)
  have "unat (of_nat i :: u32) = i" using assms(1) by (simp add: unat_of_nat take_bit_nat_eq_self)
  then show ?thesis using keep assms(1,2)
    by (auto simp: irq_bind_def Let_def word_le_nat_alt)
qed

theorem irq_bind_exclusive_witness:
  "is_irqs (foldl irq_step (zero_irq_state\<lparr>is_irqs := (\<lambda>_. zero_irq_entry)(3 := zero_irq_entry\<lparr>ie_bound := True, ie_owner_tcb := 7\<rparr>)\<rparr>)
      [Irq_handle 3, Irq_unbind 4, Irq_bind (zero_cap\<lparr>c_type := CAP_IRQ, c_is_valid := 1, c_u := zero_u\<lparr>uw0 := 3\<rparr>\<rparr>) 9 0 0]) 3 =
   zero_irq_entry\<lparr>ie_bound := True, ie_owner_tcb := 7\<rparr>"
  by (subst irq_bind_exclusive[THEN conjunct1]) simp_all

text \<open>
  (functional). Handling an interrupt on a bound line makes that line pending and changes
  nothing else; an interrupt on an unbound line, or on a number that is not a line, is ignored.
\<close>

theorem irq_handle_sets_pending:
  assumes "irq_handle (Some s) i = Some s'"
  shows "is_irqs s' = is_irqs s \<and>
    (irq_is_pending (Some s') j \<longleftrightarrow>
       irq_is_pending (Some s) j \<or> (unat i < 64 \<and> j = i \<and> ie_bound (is_irqs s (unat i))))"
proof (cases "unat i < 64 \<and> ie_bound (is_irqs s (unat i))")
  case True
  then obtain s1 where "irq_handle (Some s) i = Some s1" "is_irqs s1 = is_irqs s"
    "\<forall>k. bit (is_pending_mask s1) k \<longleftrightarrow> bit (is_pending_mask s) k \<or> k = unat i"
    using irq_handle_pending by blast
  then show ?thesis using assms True
    by (auto simp: irq_is_pending_bit word_unat_eq_iff)
next
  case False
  then have "s' = s" using assms by (auto simp: irq_handle_def word_le_nat_alt split: if_splits)
  then show ?thesis using False by auto
qed

theorem irq_handle_sets_pending_witness:
  "irq_is_pending (irq_handle (Some (zero_irq_state\<lparr>is_irqs := (\<lambda>_. zero_irq_entry\<lparr>ie_bound := True\<rparr>)\<rparr>)) 5) 5"
proof -
  let ?s = "zero_irq_state\<lparr>is_irqs := (\<lambda>_. zero_irq_entry\<lparr>ie_bound := True\<rparr>)\<rparr>"
  obtain s' where s': "irq_handle (Some ?s) 5 = Some s'" by (simp add: irq_handle_def)
  show ?thesis using irq_handle_sets_pending[OF s', of 5] s' by simp
qed

text \<open>
  (liveness). The pending word only grows: no operation of the component acknowledges an interrupt,
  not even the unbind of its line.
\<close>

lemma irq_pending_monotone:
  "bit (is_pending_mask s) k \<Longrightarrow> bit (is_pending_mask (foldl irq_step s ops)) k"
proof (induction ops arbitrary: s)
  case (Cons a ops)
  have "bit (is_pending_mask (irq_step s a)) k"
    using Cons.prems by (cases a) (auto simp: irq_bind_def irq_unbind_def irq_handle_def Let_def bit_or_iff)
  then show ?case using Cons.IH by simp
qed simp

end
