(* ===== verification/Iommu.thy ===== *)
theory Iommu
  imports Capability
begin

text \<open>
  DMA windows, \<^verbatim>\<open>kernel/include/iommu.h\<close> and \<^verbatim>\<open>kernel/src/iommu.c\<close>: sixteen windows of physical
  memory, each given to a device under an IOMMU capability, and the check of a DMA access.
  \<^verbatim>\<open>iommu_flush\<close> only executes fences and leaves the modelled state alone.
\<close>

record iommu_window_t =
  iw_valid :: bool
  iw_dev_id :: u64
  iw_paddr_base :: u64
  iw_size :: u64
  iw_perms :: u32
  iw_partition_id :: u32
  iw_color :: u16
  iw_cap :: cap_t

definition zero_iommu_window :: iommu_window_t where
  "zero_iommu_window = \<lparr>iw_valid = False, iw_dev_id = 0, iw_paddr_base = 0, iw_size = 0, iw_perms = 0,
     iw_partition_id = 0, iw_color = 0, iw_cap = zero_cap\<rparr>"

record iommu_state_t =
  io_windows :: "iommu_window_t arr"
  io_count :: u32

definition zero_iommu_state :: iommu_state_t where
  "zero_iommu_state = \<lparr>io_windows = (\<lambda>_. zero_iommu_window), io_count = 0\<rparr>"

abbreviation (input) MAX_IOMMU_WINDOWS :: u32 where "MAX_IOMMU_WINDOWS \<equiv> 16"

definition iommu_flush :: "iommu_state_t \<Rightarrow> iommu_state_t" where
  "iommu_flush s = s"

definition iommu_map ::
  "iommu_state_t option \<Rightarrow> cap_t option \<Rightarrow> u64 \<Rightarrow> u64 \<Rightarrow> u64 \<Rightarrow> u32 \<Rightarrow> kerror_t + iommu_state_t" where
  "iommu_map iop capp dev_id paddr sz perms =
     (case (iop, capp) of
        (Some s, Some cap) \<Rightarrow>
          if c_type cap \<noteq> CAP_IOMMU then Inl ERR_INVALID_CAP
          else if c_is_valid cap = 0 \<or> \<not> cheri_tag_get (c_hw_cap cap) then Inl ERR_INVALID_CAP
          else if sz mod PAGE_SIZE \<noteq> 0 \<or> paddr mod PAGE_SIZE \<noteq> 0 then Inl ERR_INVALID_ARG
          else if io_count s \<ge> MAX_IOMMU_WINDOWS then Inl ERR_NO_MEM
          else let cap_base = cheri_base_get (c_hw_cap cap); cap_len = cheri_length_get (c_hw_cap cap) in
            if paddr < cap_base \<or> paddr + sz > cap_base + cap_len then Inl ERR_INVALID_ARG
            else if perms AND NOT (c_rights cap) \<noteq> 0 then Inl ERR_NO_RIGHTS
            else (case first_index 16 (\<lambda>i. \<not> iw_valid (io_windows s i)) of
                None \<Rightarrow> Inl ERR_NO_MEM
              | Some i \<Rightarrow>
                  Inr (iommu_flush (s\<lparr>io_windows := (io_windows s)(i := (io_windows s i)
                         \<lparr>iw_valid := True, iw_dev_id := dev_id, iw_paddr_base := paddr, iw_size := sz,
                          iw_perms := perms, iw_partition_id := u_iommu_dev_id (c_u cap), iw_cap := cap\<rparr>),
                       io_count := io_count s + 1\<rparr>)))
      | _ \<Rightarrow> Inl ERR_INVALID_ARG)"

definition iommu_unmap :: "iommu_state_t option \<Rightarrow> u64 \<Rightarrow> u64 \<Rightarrow> kerror_t + iommu_state_t" where
  "iommu_unmap iop dev_id paddr =
     (case iop of
        None \<Rightarrow> Inl ERR_INVALID_ARG
      | Some s \<Rightarrow>
          (case first_index 16 (\<lambda>i. iw_valid (io_windows s i) \<and> iw_dev_id (io_windows s i) = dev_id \<and>
                                    iw_paddr_base (io_windows s i) = paddr) of
             None \<Rightarrow> Inl ERR_INVALID_ARG
           | Some i \<Rightarrow>
               Inr (iommu_flush (s\<lparr>io_windows := (io_windows s)(i := zero_iommu_window), io_count := io_count s - 1\<rparr>))))"

definition iommu_check :: "iommu_state_t option \<Rightarrow> u64 \<Rightarrow> u64 \<Rightarrow> u64 \<Rightarrow> bool \<Rightarrow> bool" where
  "iommu_check iop dev_id paddr len is_write \<longleftrightarrow>
     (case iop of
        None \<Rightarrow> False
      | Some s \<Rightarrow>
          (case first_index 16 (\<lambda>i. iw_valid (io_windows s i) \<and> iw_dev_id (io_windows s i) = dev_id \<and>
                  paddr \<ge> iw_paddr_base (io_windows s i) \<and>
                  paddr + len \<le> iw_paddr_base (io_windows s i) + iw_size (io_windows s i)) of
             None \<Rightarrow> False
           | Some i \<Rightarrow>
               let need = (if is_write then CHERI_PERM_STORE else CHERI_PERM_LOAD) in
               if iw_perms (io_windows s i) AND need = 0 then False else True))"

subsection \<open>Windows stay within their capability\<close>

text \<open>A window that lies in the region of a capability of \<open>S\<close>, with no more than its rights.\<close>

definition window_in :: "cap_t set \<Rightarrow> iommu_window_t \<Rightarrow> bool" where
  "window_in S w \<longleftrightarrow> iw_cap w \<in> S \<and> c_type (iw_cap w) = CAP_IOMMU \<and>
     unat (hw_base (c_hw_cap (iw_cap w))) \<le> unat (iw_paddr_base w) \<and>
     unat (iw_paddr_base w) + unat (iw_size w) \<le> unat (hw_top (c_hw_cap (iw_cap w))) \<and>
     subrights (iw_perms w) (c_rights (iw_cap w))"

definition iommu_inv :: "cap_t set \<Rightarrow> iommu_state_t \<Rightarrow> bool" where
  "iommu_inv S s \<longleftrightarrow> unat (io_count s) = count_upto 16 (\<lambda>i. iw_valid (io_windows s i)) \<and>
     (\<forall>i<16. iw_valid (io_windows s i) \<longrightarrow> window_in S (io_windows s i))"

datatype iommu_op = Iommu_map cap_t u64 u64 u64 u32 | Iommu_unmap u64 u64

fun iommu_step :: "iommu_state_t \<Rightarrow> iommu_op \<Rightarrow> iommu_state_t" where
  "iommu_step s (Iommu_map c d p n r) = (case iommu_map (Some s) (Some c) d p n r of Inl _ \<Rightarrow> s | Inr s' \<Rightarrow> s')"
| "iommu_step s (Iommu_unmap d p) = (case iommu_unmap (Some s) d p of Inl _ \<Rightarrow> s | Inr s' \<Rightarrow> s')"

text \<open>The capability comes from \<open>S\<close> and the end of the requested window does not wrap.\<close>

fun iommu_allowed :: "cap_t set \<Rightarrow> iommu_op \<Rightarrow> bool" where
  "iommu_allowed S (Iommu_map c d p n r) \<longleftrightarrow> c \<in> S \<and> unat p + unat n < 2 ^ 64"
| "iommu_allowed S (Iommu_unmap d p) \<longleftrightarrow> True"

lemma iommu_map_Inr:
  assumes "iommu_map (Some s) (Some c) d p n r = Inr s'"
  shows "\<exists>i<16. \<not> iw_valid (io_windows s i) \<and>
    s' = s\<lparr>io_windows := (io_windows s)(i := (io_windows s i)
                         \<lparr>iw_valid := True, iw_dev_id := d, iw_paddr_base := p, iw_size := n,
                          iw_perms := r, iw_partition_id := u_iommu_dev_id (c_u c), iw_cap := c\<rparr>),
                       io_count := io_count s + 1\<rparr>"
    and "c_type c = CAP_IOMMU" "hw_base (c_hw_cap c) \<le> p" "p + n \<le> hw_top (c_hw_cap c)"
    and "subrights r (c_rights c)" "unat (io_count s) < 16"
proof -
  have guards: "c_type c = CAP_IOMMU" "\<not> p < hw_base (c_hw_cap c)" "\<not> p + n > hw_top (c_hw_cap c)"
      "r AND NOT (c_rights c) = 0" "\<not> io_count s \<ge> 16"
    using assms by (auto simp: iommu_map_def Let_def cheri_base_get_def cheri_length_get_def simp flip: linorder_not_le split: if_splits)
  then show "c_type c = CAP_IOMMU" "hw_base (c_hw_cap c) \<le> p" "p + n \<le> hw_top (c_hw_cap c)"
      "subrights r (c_rights c)" "unat (io_count s) < 16"
    by (simp_all add: rights_simps word_le_nat_alt word_less_nat_alt)
  obtain i where i: "first_index 16 (\<lambda>i. \<not> iw_valid (io_windows s i)) = Some i"
    using assms by (auto simp: iommu_map_def Let_def split: if_splits option.splits)
  then have "i < 16" "\<not> iw_valid (io_windows s i)" by (auto simp: first_index_Some_iff)
  then show "\<exists>i<16. \<not> iw_valid (io_windows s i) \<and>
    s' = s\<lparr>io_windows := (io_windows s)(i := (io_windows s i)
                         \<lparr>iw_valid := True, iw_dev_id := d, iw_paddr_base := p, iw_size := n,
                          iw_perms := r, iw_partition_id := u_iommu_dev_id (c_u c), iw_cap := c\<rparr>),
                       io_count := io_count s + 1\<rparr>"
    using assms i by (intro exI[of _ i]) (auto simp: iommu_map_def Let_def iommu_flush_def split: if_splits)
qed

lemma iommu_unmap_Inr:
  assumes "iommu_unmap (Some s) d p = Inr s'"
  shows "\<exists>i<16. iw_valid (io_windows s i) \<and>
    s' = s\<lparr>io_windows := (io_windows s)(i := zero_iommu_window), io_count := io_count s - 1\<rparr>"
  using assms by (auto simp: iommu_unmap_def iommu_flush_def first_index_Some_iff split: option.splits)

lemma iommu_map_inv:
  assumes "iommu_inv S s" "iommu_map (Some s) (Some c) d p n r = Inr s'" "c \<in> S" "unat p + unat n < 2 ^ 64"
  shows "iommu_inv S s'"
proof -
  note m = iommu_map_Inr[OF assms(2)]
  obtain i where i: "i < 16" "\<not> iw_valid (io_windows s i)"
    "s' = s\<lparr>io_windows := (io_windows s)(i := (io_windows s i)
                         \<lparr>iw_valid := True, iw_dev_id := d, iw_paddr_base := p, iw_size := n,
                          iw_perms := r, iw_partition_id := u_iommu_dev_id (c_u c), iw_cap := c\<rparr>),
                       io_count := io_count s + 1\<rparr>"
    using m(1) by blast
  have "unat (p + n) = unat p + unat n"
    using assms(4) by (subst unat_add_lem[THEN iffD1]) simp_all
  then have "window_in S (io_windows s' i)"
    using m assms(3) i(3) by (simp add: window_in_def word_le_nat_alt)
  moreover have "io_windows s' j = io_windows s j" if "j \<noteq> i" for j using i(3) that by simp
  moreover have "count_upto 16 (\<lambda>j. iw_valid (io_windows s' j)) = Suc (count_upto 16 (\<lambda>j. iw_valid (io_windows s j)))"
    by (rule count_upto_set[where i = i]) (use i in auto)
  moreover have "unat (io_count s') = Suc (unat (io_count s))"
    using i(3) m(6) by simp (subst unat_add_lem[THEN iffD1], simp_all)
  ultimately show ?thesis using assms(1) unfolding iommu_inv_def by metis
qed

lemma iommu_unmap_inv:
  assumes "iommu_inv S s" "iommu_unmap (Some s) d p = Inr s'"
  shows "iommu_inv S s'"
proof -
  obtain i where i: "i < 16" "iw_valid (io_windows s i)"
    "s' = s\<lparr>io_windows := (io_windows s)(i := zero_iommu_window), io_count := io_count s - 1\<rparr>"
    using iommu_unmap_Inr[OF assms(2)] by blast
  have "count_upto 16 (\<lambda>j. iw_valid (io_windows s j)) = Suc (count_upto 16 (\<lambda>j. iw_valid (io_windows s' j)))"
    by (rule count_upto_clear[where i = i]) (use i in \<open>auto simp: zero_iommu_window_def\<close>)
  moreover have "io_count s \<noteq> 0"
    using assms(1) i count_upto_pos[of i 16 "\<lambda>j. iw_valid (io_windows s j)"] by (auto simp: iommu_inv_def)
  then have "unat (io_count s') = unat (io_count s) - 1"
    using i(3) by (simp add: unat_minus_one)
  ultimately show ?thesis using assms(1) i(3) by (auto simp: iommu_inv_def zero_iommu_window_def)
qed

interpretation iommum: guarded_machine iommu_step "iommu_inv S" "iommu_allowed S" for S
proof
  fix s a
  assume "iommu_inv S s" "iommu_allowed S a"
  then show "iommu_inv S (iommu_step s a)"
    by (cases a) (auto intro: iommu_map_inv iommu_unmap_inv split: sum.splits)
qed

lemma iommu_inv_zero [simp]: "iommu_inv S zero_iommu_state"
  by (simp add: iommu_inv_def zero_iommu_state_def zero_iommu_window_def)

lemma single_bit_and:
  fixes x :: u32
  shows "x AND 1 \<noteq> 0 \<longleftrightarrow> bit x 0" "x AND 2 \<noteq> 0 \<longleftrightarrow> bit x 1"
  using and_exp_eq_0_iff_not_bit[of x 0] and_exp_eq_0_iff_not_bit[of x 1] by simp_all

lemma iommu_check_window:
  assumes "iommu_check (Some s) d p n w"
  shows "\<exists>i<16. iw_valid (io_windows s i) \<and> iw_dev_id (io_windows s i) = d \<and> iw_paddr_base (io_windows s i) \<le> p \<and>
     p + n \<le> iw_paddr_base (io_windows s i) + iw_size (io_windows s i) \<and>
     iw_perms (io_windows s i) AND (if w then 2 else 1) \<noteq> 0"
  using assms by (auto simp: iommu_check_def first_index_Some_iff Let_def split: option.splits if_splits)

subsection \<open>Properties\<close>

lemma iommu_demo:
  "\<exists>s. iommu_map (Some zero_iommu_state)
      (Some (zero_cap\<lparr>c_type := CAP_IOMMU, c_is_valid := 1, c_rights := 3,
         c_hw_cap := zero_sim_cap\<lparr>hw_base := 0x1000, hw_top := 0x9000, hw_tag := 1\<rparr>\<rparr>)) 7 0x2000 0x1000 1 = Inr s \<and>
     iommu_check (Some s) 7 0x2800 0x100 False \<and> iommu_check (Some s) 7 0xFFFFFFFFFFFFF000 0x3000 False"
  by (simp add: iommu_map_def zero_iommu_state_def zero_iommu_window_def Let_def cheri_tag_get_def
      cheri_base_get_def cheri_length_get_def first_index_def upt_rec iommu_flush_def iommu_check_def)

lemma iommu_inv_confined:
  assumes "iommu_inv S s" "iommu_check (Some s) dev paddr len w" "unat paddr + unat len < 2 ^ 64"
  shows "\<exists>c\<in>S. c_type c = CAP_IOMMU \<and> unat (hw_base (c_hw_cap c)) \<le> unat paddr \<and>
     unat paddr + unat len \<le> unat (hw_top (c_hw_cap c)) \<and>
     bit (c_rights c) (if w then 1 else 0)"
proof -
  obtain i where i: "i < 16" "iw_valid (io_windows s i)" "iw_paddr_base (io_windows s i) \<le> paddr"
    "paddr + len \<le> iw_paddr_base (io_windows s i) + iw_size (io_windows s i)"
    "iw_perms (io_windows s i) AND (if w then 2 else 1) \<noteq> 0"
    using iommu_check_window[OF assms(2)] by blast
  let ?w = "io_windows s i"
  have win: "window_in S ?w" using assms(1) i by (simp add: iommu_inv_def)
  have "unat (iw_paddr_base ?w) + unat (iw_size ?w) < 2 ^ 64"
    using win unat_less_2p64[of "hw_top (c_hw_cap (iw_cap ?w))"] by (simp add: window_in_def)
  then have "unat (iw_paddr_base ?w + iw_size ?w) = unat (iw_paddr_base ?w) + unat (iw_size ?w)"
    by (subst unat_add_lem[THEN iffD1]) simp_all
  moreover have "unat (paddr + len) = unat paddr + unat len"
    using assms(3) by (subst unat_add_lem[THEN iffD1]) simp_all
  moreover have "bit (iw_perms ?w) (if w then 1 else 0)"
    using i(5) single_bit_and(1)[of "iw_perms ?w"] single_bit_and(2)[of "iw_perms ?w"] by (simp split: if_splits)
  ultimately show ?thesis
    using win i(3,4) by (intro bexI[of _ "iw_cap ?w"]) (auto simp: window_in_def word_le_nat_alt subrights_def)
qed

text \<open>
  C23 (safety). DMA is confined: after any run of map and unmap operations whose windows do not
  wrap around the address space, an access the check grants, if its own end does not wrap, lies
  within the bounds of an IOMMU capability presented in the run, and that capability carries the
  right to it.
\<close>

theorem iommu_dma_confined:
  assumes "\<forall>a\<in>set ops. iommu_allowed S a"
    and "iommu_check (Some (foldl iommu_step zero_iommu_state ops)) dev paddr len w"
    and "unat paddr + unat len < 2 ^ 64"
  shows "\<exists>c\<in>S. c_type c = CAP_IOMMU \<and> unat (hw_base (c_hw_cap c)) \<le> unat paddr \<and>
     unat paddr + unat len \<le> unat (hw_top (c_hw_cap c)) \<and>
     bit (c_rights c) (if w then 1 else 0)"
  using iommu_inv_confined[OF iommum.run_inv[OF iommu_inv_zero assms(1)] assms(2,3)] .

definition iommu_demo_cap :: cap_t where
  "iommu_demo_cap = zero_cap\<lparr>c_type := CAP_IOMMU, c_is_valid := 1, c_rights := 3,
     c_hw_cap := zero_sim_cap\<lparr>hw_base := 0x1000, hw_top := 0x9000, hw_tag := 1\<rparr>\<rparr>"

theorem iommu_dma_confined_witness:
  "\<exists>c\<in>{iommu_demo_cap}. c_type c = CAP_IOMMU \<and> unat (hw_base (c_hw_cap c)) \<le> unat (0x2800 :: u64) \<and>
     unat (0x2800 :: u64) + unat (0x100 :: u64) \<le> unat (hw_top (c_hw_cap c)) \<and> bit (c_rights c) (if False then 1 else 0)"
proof (rule iommu_dma_confined)
  show "iommu_check (Some (foldl iommu_step zero_iommu_state [Iommu_map iommu_demo_cap 7 0x2000 0x1000 1])) 7 0x2800 0x100 False"
    using iommu_demo by (auto simp: iommu_demo_cap_def)
qed simp_all

text \<open>
  (functional). A map whose arguments pass the checks never fails for want of a window: as
  the count is the number of windows in use, a count below sixteen means the search finds a free
  one, and the device can then read or write the mapped region with the permissions given.
\<close>

theorem iommu_map_finds_window:
  assumes "iommu_inv S s" "unat (io_count s) < 16"
    and "c_type c = CAP_IOMMU" "c_is_valid c \<noteq> 0" "cheri_tag_get (c_hw_cap c)"
    and "sz mod 4096 = 0" "paddr mod 4096 = 0"
    and "hw_base (c_hw_cap c) \<le> paddr" "paddr + sz \<le> hw_top (c_hw_cap c)" "subrights perms (c_rights c)"
  shows "\<exists>s'. iommu_map (Some s) (Some c) dev paddr sz perms = Inr s' \<and>
     (\<exists>i<16. \<not> iw_valid (io_windows s i) \<and> iw_valid (io_windows s' i) \<and> iw_dev_id (io_windows s' i) = dev \<and>
        iw_paddr_base (io_windows s' i) = paddr \<and> iw_size (io_windows s' i) = sz \<and> iw_perms (io_windows s' i) = perms)"
proof -
  have "\<exists>i<16. \<not> iw_valid (io_windows s i)"
  proof (rule ccontr)
    assume "\<not> ?thesis"
    then have "count_upto 16 (\<lambda>i. iw_valid (io_windows s i)) = count_upto 16 (\<lambda>i. True)"
      by (intro count_upto_cong) auto
    then show False using assms(1,2) by (simp add: iommu_inv_def count_upto_def)
  qed
  then obtain i where i: "first_index 16 (\<lambda>i. \<not> iw_valid (io_windows s i)) = Some i"
    by (metis first_index_None_iff option.exhaust)
  then have "i < 16" "\<not> iw_valid (io_windows s i)" by (simp_all add: first_index_Some_iff)
  moreover have "\<not> io_count s \<ge> 16" using assms(2) by (simp add: word_le_nat_alt)
  ultimately show ?thesis using assms(3-10) i
    by (auto simp: iommu_map_def Let_def cheri_base_get_def cheri_length_get_def rights_simps
        iommu_flush_def simp flip: linorder_not_le)
qed

theorem iommu_map_finds_window_witness:
  "\<exists>s'. iommu_map (Some zero_iommu_state)
      (Some (zero_cap\<lparr>c_type := CAP_IOMMU, c_is_valid := 1, c_rights := 3,
         c_hw_cap := zero_sim_cap\<lparr>hw_base := 0x1000, hw_top := 0x9000, hw_tag := 1\<rparr>\<rparr>)) 7 0x2000 0x1000 1 = Inr s' \<and>
     (\<exists>i<16. \<not> iw_valid (io_windows zero_iommu_state i) \<and> iw_valid (io_windows s' i) \<and> iw_dev_id (io_windows s' i) = 7 \<and>
        iw_paddr_base (io_windows s' i) = 0x2000 \<and> iw_size (io_windows s' i) = 0x1000 \<and> iw_perms (io_windows s' i) = 1)"
  by (rule iommu_map_finds_window[OF iommu_inv_zero])
    (simp_all add: zero_iommu_state_def cheri_tag_get_def and_eq_right_iff[symmetric])

text \<open>
  (safety). The hypothesis that the access does not wrap is needed: a device whose only window
  is readable is granted the read of everything from any address above the base of its window up
  to the end of the address space, because the end of the access wraps to zero.
\<close>

theorem iommu_check_wraps:
  assumes "iw_valid w" "iw_dev_id w = dev" "unat (iw_paddr_base w) + unat (iw_size w) < 2 ^ 64"
    and "iw_perms w AND 1 \<noteq> 0" "s = \<lparr>io_windows = (\<lambda>_. zero_iommu_window)(0 := w), io_count = 1\<rparr>"
    and "iw_paddr_base w \<le> paddr"
    and "paddr \<noteq> 0"
  shows "iommu_check (Some s) dev paddr (- paddr) False \<and> unat paddr + unat (- paddr) = 2 ^ 64"
proof -
  have "unat paddr + unat (- paddr) = 2 ^ 64"
    using assms(7) unat_sub_if'[of 0 paddr] by (simp add: unat_gt_0)
  moreover
  have "first_index 16 (\<lambda>i. iw_valid (io_windows s i) \<and> iw_dev_id (io_windows s i) = dev \<and>
      paddr \<ge> iw_paddr_base (io_windows s i) \<and>
      paddr + - paddr \<le> iw_paddr_base (io_windows s i) + iw_size (io_windows s i)) = Some 0"
    using assms by (simp add: first_index_Some_iff)
  ultimately show ?thesis using assms(4,5) by (simp add: iommu_check_def Let_def)
qed

theorem iommu_check_wraps_witness:
  "iommu_check (Some \<lparr>io_windows = (\<lambda>_. zero_iommu_window)(0 := zero_iommu_window
       \<lparr>iw_valid := True, iw_dev_id := 7, iw_paddr_base := 0x2000, iw_size := 0x1000, iw_perms := 1\<rparr>), io_count = 1\<rparr>)
     7 0x80000000 (- 0x80000000) False \<and> unat (0x80000000 :: u64) + unat (- 0x80000000 :: u64) = 2 ^ 64"
  by (rule iommu_check_wraps[OF _ _ _ _ refl]) simp_all

end
