(* ===== verification/NetDriver.thy ===== *)
theory NetDriver
  imports Iommu
begin

text \<open>
  The user-level network driver, \<^verbatim>\<open>userspace/drivers/virtio_net.c\<close>, on the hybrid branch: its device
  registers, and the IOMMU windows it holds for its DMA pool. The IOMMU object the driver is bound to
  is threaded through; the driver's own pointer to it is a flag.
\<close>

record drv_caps_t =
  dc_mmio_base :: u64
  dc_mmio_len :: u64
  dc_irq :: u32

record net_t =
  n_caps :: drv_caps_t
  n_regs :: bool
  n_iommu :: bool
  n_cap :: cap_t
  n_dev_id :: u64
  n_dma_base :: u64
  n_dma_len :: u64
  n_bound :: bool

definition zero_net :: net_t where
  "zero_net = \<lparr>n_caps = \<lparr>dc_mmio_base = 0, dc_mmio_len = 0, dc_irq = 0\<rparr>, n_regs = False, n_iommu = False,
     n_cap = zero_cap, n_dev_id = 0, n_dma_base = 0, n_dma_len = 0, n_bound = False\<rparr>"

definition net_driver_init :: "net_t \<Rightarrow> drv_caps_t \<Rightarrow> bool \<times> net_t" where
  "net_driver_init n0 c =
     (let n = n0\<lparr>n_caps := c\<rparr> in
      if dc_mmio_len c < 0x1000 \<or> dc_mmio_base c = 0 then (False, n)
      else if dc_mmio_base c < 0x10000000 \<or> dc_mmio_base c + dc_mmio_len c > 0x20000000 then (False, n)
      else
        let mmio_cap = zero_sim_cap\<lparr>hw_base := dc_mmio_base c, hw_top := dc_mmio_base c + dc_mmio_len c, hw_addr := dc_mmio_base c,
              hw_tag := 1, hw_sealed := 0, hw_perms := CHERI_PERM_LOAD OR CHERI_PERM_STORE\<rparr> in
        if \<not> cheri_tag_get mmio_cap then (False, n)
        else if cheri_length_get mmio_cap < dc_mmio_len c then (False, n)
        else (True, n\<lparr>n_regs := True\<rparr>))"

definition net_driver_set_iommu ::
  "net_t \<Rightarrow> cap_t \<Rightarrow> iommu_state_t option \<Rightarrow> u64 \<Rightarrow> u64 \<Rightarrow> u64 \<Rightarrow> bool \<times> net_t \<times> iommu_state_t option" where
  "net_driver_set_iommu n cap iop dev_id dma_paddr dma_size =
     (case iop of
        None \<Rightarrow> (False, n, iop)
      | Some io \<Rightarrow>
          if c_type cap \<noteq> CAP_IOMMU then (False, n, iop)
          else if c_is_valid cap = 0 \<or> \<not> cheri_tag_get (c_hw_cap cap) then (False, n, iop)
          else
            let n1 = n\<lparr>n_iommu := True, n_cap := cap, n_dev_id := dev_id, n_dma_base := dma_paddr, n_dma_len := dma_size, n_bound := False\<rparr> in
            (case iommu_map iop (Some cap) dev_id dma_paddr dma_size (CHERI_PERM_LOAD OR CHERI_PERM_STORE) of
               Inl _ \<Rightarrow> (False, n1, iop)
             | Inr io1 \<Rightarrow> (True, n1\<lparr>n_bound := True\<rparr>, Some io1)))"

definition net_driver_dma_map :: "net_t \<Rightarrow> iommu_state_t \<Rightarrow> u64 \<Rightarrow> u64 \<Rightarrow> u32 \<Rightarrow> bool \<times> iommu_state_t" where
  "net_driver_dma_map n io paddr sz perms =
     (if \<not> n_iommu n \<or> \<not> n_bound n then (False, io)
      else if sz mod PAGE_SIZE \<noteq> 0 \<or> paddr mod PAGE_SIZE \<noteq> 0 then (False, io)
      else if paddr < n_dma_base n \<or> paddr + sz > n_dma_base n + n_dma_len n then (False, io)
      else (case iommu_map (Some io) (Some (n_cap n)) (n_dev_id n) paddr sz perms of
         Inl _ \<Rightarrow> (False, io) | Inr io1 \<Rightarrow> (True, io1)))"

definition net_driver_dma_unmap :: "net_t \<Rightarrow> iommu_state_t \<Rightarrow> u64 \<Rightarrow> bool \<times> iommu_state_t" where
  "net_driver_dma_unmap n io paddr =
     (if \<not> n_iommu n then (False, io)
      else (case iommu_unmap (Some io) (n_dev_id n) paddr of Inl _ \<Rightarrow> (False, io) | Inr io1 \<Rightarrow> (True, io1)))"

definition net_driver_dma_check :: "net_t \<Rightarrow> iommu_state_t \<Rightarrow> u64 \<Rightarrow> u64 \<Rightarrow> bool \<Rightarrow> bool" where
  "net_driver_dma_check n io paddr len is_write =
     (if \<not> n_iommu n then False else iommu_check (Some io) (n_dev_id n) paddr len is_write)"

text \<open>How the interrupt handler ends: without registers, a packet dropped, no transmission, or acknowledged.\<close>

datatype irq_exit = Irq_no_regs | Irq_drop | Irq_no_tx | Irq_ack

definition net_driver_handle_irq :: "net_t \<Rightarrow> iommu_state_t \<Rightarrow> irq_exit" where
  "net_driver_handle_irq n io =
     (if \<not> n_regs n then Irq_no_regs
      else if n_bound n \<and> n_dma_base n \<noteq> 0 then
        (if \<not> iommu_check (Some io) (n_dev_id n) (n_dma_base n) 512 False then Irq_drop
         else if \<not> iommu_check (Some io) (n_dev_id n) (n_dma_base n) 512 True then Irq_no_tx
         else Irq_ack)
      else Irq_ack)"

definition net_driver_reboot :: "net_t \<Rightarrow> iommu_state_t \<Rightarrow> net_t \<times> iommu_state_t" where
  "net_driver_reboot n io =
     (let io1 = (if n_iommu n \<and> n_bound n then
            (case iommu_unmap (Some io) (n_dev_id n) (n_dma_base n) of Inl _ \<Rightarrow> io | Inr io1 \<Rightarrow> io1) else io);
          n1 = (if n_iommu n \<and> n_bound n then n\<lparr>n_bound := False\<rparr> else n);
          n2 = n1\<lparr>n_iommu := False, n_dma_base := 0, n_dma_len := 0\<rparr> in
      (snd (net_driver_init n2 (n_caps n2)), io1))"

subsection \<open>The driver at work\<close>

datatype net_op = Net_init drv_caps_t | Net_set_iommu cap_t u64 u64 u64 | Net_dma_map u64 u64 u32 | Net_dma_unmap u64 | Net_reboot

fun net_step :: "net_t \<times> iommu_state_t \<Rightarrow> net_op \<Rightarrow> net_t \<times> iommu_state_t" where
  "net_step (n, io) (Net_init c) = (snd (net_driver_init n c), io)"
| "net_step (n, io) (Net_set_iommu cap dev p sz) =
     (case net_driver_set_iommu n cap (Some io) dev p sz of (_, n1, iop) \<Rightarrow> (n1, case iop of None \<Rightarrow> io | Some io1 \<Rightarrow> io1))"
| "net_step (n, io) (Net_dma_map p sz r) = (n, snd (net_driver_dma_map n io p sz r))"
| "net_step (n, io) (Net_dma_unmap p) = (n, snd (net_driver_dma_unmap n io p))"
| "net_step (n, io) Net_reboot = net_driver_reboot n io"

text \<open>The capabilities presented come from \<open>S\<close> and no window wraps around the address space.\<close>

fun net_allowed :: "cap_t set \<Rightarrow> net_op \<Rightarrow> bool" where
  "net_allowed S (Net_set_iommu cap dev p sz) \<longleftrightarrow> cap \<in> S \<and> unat p + unat sz < 2 ^ 64"
| "net_allowed S (Net_dma_map p sz r) \<longleftrightarrow> unat p + unat sz < 2 ^ 64"
| "net_allowed S _ \<longleftrightarrow> True"

definition net_inv :: "cap_t set \<Rightarrow> net_t \<times> iommu_state_t \<Rightarrow> bool" where
  "net_inv S st \<longleftrightarrow> iommu_inv S (snd st) \<and> (n_iommu (fst st) \<longrightarrow> n_cap (fst st) \<in> S)"

lemma init_keeps: "n_iommu (snd (net_driver_init n c)) = n_iommu n" "n_cap (snd (net_driver_init n c)) = n_cap n"
    "n_bound (snd (net_driver_init n c)) = n_bound n"
  by (simp_all add: net_driver_init_def Let_def)

lemma net_step_inv:
  assumes "net_inv S st" "net_allowed S a"
  shows "net_inv S (net_step st a)"
proof -
  obtain n io where st: "st = (n, io)" by (cases st)
  have inv: "iommu_inv S io" "n_iommu n \<Longrightarrow> n_cap n \<in> S" using assms(1) st by (auto simp: net_inv_def)
  show ?thesis
  proof (cases a)
    case (Net_init c)
    then show ?thesis using inv st by (simp add: net_inv_def init_keeps)
  next
    case (Net_set_iommu cap dev p sz)
    then have "cap \<in> S" "unat p + unat sz < 2 ^ 64" using assms(2) by simp_all
    then show ?thesis using inv st Net_set_iommu iommu_map_inv[OF inv(1)]
      by (auto simp: net_inv_def net_driver_set_iommu_def Let_def split: sum.splits)
  next
    case (Net_dma_map p sz r)
    then show ?thesis using inv st assms(2) iommu_map_inv[OF inv(1)]
      by (auto simp: net_inv_def net_driver_dma_map_def split: sum.splits)
  next
    case (Net_dma_unmap p)
    then show ?thesis using inv st iommu_unmap_inv[OF inv(1)]
      by (auto simp: net_inv_def net_driver_dma_unmap_def split: sum.splits)
  next
    case Net_reboot
    then show ?thesis using inv st iommu_unmap_inv[OF inv(1)]
      by (auto simp: net_inv_def net_driver_reboot_def init_keeps Let_def split: sum.splits)
  qed
qed

interpretation netm: guarded_machine net_step "net_inv S" "net_allowed S" for S
  by unfold_locales (rule net_step_inv)

text \<open>
  C21 (safety). The driver's DMA is confined end to end: over every sequence of initialisations,
  bindings, mappings, unmappings and reboots that presents only capabilities of a given set and no
  wrapping window, every transfer that the driver's check admits and whose end does not wrap past 2^64
  lies within the bounds of one of those capabilities, which carries the right to it. A transfer
  whose end wraps is excluded: the check adds without testing for overflow (\<open>iommu_check_wraps\<close>).
\<close>

theorem net_dma_confined:
  assumes "\<forall>a\<in>set ops. net_allowed S a" "foldl net_step (zero_net, zero_iommu_state) ops = (n, io)"
    and "net_driver_dma_check n io paddr len w" "unat paddr + unat len < 2 ^ 64"
  shows "\<exists>c\<in>S. c_type c = CAP_IOMMU \<and> unat (hw_base (c_hw_cap c)) \<le> unat paddr \<and>
     unat paddr + unat len \<le> unat (hw_top (c_hw_cap c)) \<and> bit (c_rights c) (if w then 1 else 0)"
proof -
  have "net_inv S (zero_net, zero_iommu_state)" by (simp add: net_inv_def zero_net_def)
  from netm.run_inv[OF this assms(1)] have "iommu_inv S io" using assms(2) by (simp add: net_inv_def)
  moreover have "iommu_check (Some io) (n_dev_id n) paddr len w" using assms(3) by (simp add: net_driver_dma_check_def split: if_splits)
  ultimately show ?thesis using iommu_inv_confined assms(4) by blast
qed

lemma net_demo:
  "\<exists>n io. foldl net_step (zero_net, zero_iommu_state) [Net_set_iommu iommu_demo_cap 7 0x2000 0x2000, Net_dma_map 0x3000 0x1000 1] = (n, io) \<and>
     net_driver_dma_check n io 0x3800 0x100 False \<and> iw_valid (io_windows io 1) \<and>
     iw_paddr_base (io_windows io 1) \<noteq> n_dma_base n"
  by (simp add: net_driver_set_iommu_def net_driver_dma_map_def net_driver_dma_check_def iommu_map_def zero_iommu_state_def zero_net_def
      zero_iommu_window_def Let_def cheri_tag_get_def cheri_base_get_def cheri_length_get_def first_index_def upt_rec iommu_flush_def
      iommu_check_def iommu_demo_cap_def not_le)

theorem net_dma_confined_witness:
  "\<exists>c\<in>{iommu_demo_cap}. c_type c = CAP_IOMMU \<and> unat (hw_base (c_hw_cap c)) \<le> unat (0x3800 :: u64) \<and>
     unat (0x3800 :: u64) + unat (0x100 :: u64) \<le> unat (hw_top (c_hw_cap c)) \<and> bit (c_rights c) (if False then 1 else 0)"
proof -
  obtain n io where r: "foldl net_step (zero_net, zero_iommu_state) [Net_set_iommu iommu_demo_cap 7 0x2000 0x2000, Net_dma_map 0x3000 0x1000 1] = (n, io)"
    and c: "net_driver_dma_check n io 0x3800 0x100 False" using net_demo by blast
  show ?thesis by (rule net_dma_confined[OF _ r c]) simp_all
qed

text \<open>
  (safety). A reboot does not give the device's windows back: afterwards the driver admits no
  transfer at all, but a window it had registered at an address other than the start of the pool is
  still valid in the IOMMU, so the device can go on using it.
\<close>

theorem net_reboot_leaves_windows:
  assumes "net_driver_reboot n io = (n', io')" "i < 16" "iw_valid (io_windows io i)" "iw_paddr_base (io_windows io i) \<noteq> n_dma_base n"
  shows "io_windows io' i = io_windows io i \<and> \<not> net_driver_dma_check n' io' paddr len w"
proof -
  have "io_windows io' i = io_windows io i"
  proof (cases "n_iommu n \<and> n_bound n")
    case True
    then show ?thesis using assms
      by (auto simp: net_driver_reboot_def iommu_unmap_def iommu_flush_def first_index_Some_iff Let_def split: option.splits)
  next
    case False
    then show ?thesis using assms(1) by (auto simp: net_driver_reboot_def Let_def)
  qed
  moreover have "\<not> n_iommu n'" using assms(1) by (auto simp: net_driver_reboot_def Let_def init_keeps)
  ultimately show ?thesis by (simp add: net_driver_dma_check_def)
qed

theorem net_reboot_leaves_windows_witness:
  "\<exists>n io n' io'. foldl net_step (zero_net, zero_iommu_state) [Net_set_iommu iommu_demo_cap 7 0x2000 0x2000, Net_dma_map 0x3000 0x1000 1] = (n, io) \<and>
     net_driver_reboot n io = (n', io') \<and> io_windows io' 1 = io_windows io 1 \<and> iw_valid (io_windows io' 1) \<and>
     \<not> net_driver_dma_check n' io' 0x3800 0x100 False"
proof -
  obtain n io where r: "foldl net_step (zero_net, zero_iommu_state) [Net_set_iommu iommu_demo_cap 7 0x2000 0x2000, Net_dma_map 0x3000 0x1000 1] = (n, io)"
    and w: "iw_valid (io_windows io 1)" "iw_paddr_base (io_windows io 1) \<noteq> n_dma_base n" using net_demo by blast
  obtain n' io' where b: "net_driver_reboot n io = (n', io')" by (cases "net_driver_reboot n io")
  show ?thesis using r b net_reboot_leaves_windows[OF b _ w(1,2), of "0x3800" "0x100" False] w(1) by auto
qed

end
