(* ===== verification/BlockDriver.thy ===== *)
theory BlockDriver
  imports Prelude
begin

text \<open>
  The user-level block driver, \<^verbatim>\<open>userspace/drivers/block.c\<close>, on the hybrid branch. The stores to the
  device registers are recorded in order, as pairs of register number and value; a register that is
  read is an argument. Use of the registers through a null pointer is undefined behaviour (\<open>None\<close>).
\<close>

record blk_caps_t =
  bc_mmio_base :: u64
  bc_mmio_len :: u64
  bc_irq :: u32
  bc_iommu_cap :: u32

record blk_t =
  b_caps :: blk_caps_t
  b_regs :: u64
  b_dma_pool :: u64
  b_dma_pool_size :: u64
  b_stores :: "(nat \<times> u32) list"

definition zero_blk :: blk_t where
  "zero_blk = \<lparr>b_caps = \<lparr>bc_mmio_base = 0, bc_mmio_len = 0, bc_irq = 0, bc_iommu_cap = 0\<rparr>, b_regs = 0, b_dma_pool = 0,
     b_dma_pool_size = 0, b_stores = []\<rparr>"

definition block_driver_init :: "blk_t \<Rightarrow> blk_caps_t \<Rightarrow> u64 \<Rightarrow> u64 \<Rightarrow> bool \<times> blk_t" where
  "block_driver_init b0 c dma_mem dma_len =
     (let b = b0\<lparr>b_caps := c\<rparr> in
      if bc_mmio_len c < 0x1000 then (False, b)
      else if bc_mmio_base c < 0x10000000 \<or> bc_mmio_base c + bc_mmio_len c > 0x20000000 then (False, b)
      else (True, b\<lparr>b_regs := bc_mmio_base c, b_dma_pool := dma_mem, b_dma_pool_size := dma_len\<rparr>))"

definition block_map_dma :: "blk_t \<Rightarrow> u64 \<Rightarrow> u64 \<Rightarrow> bool" where
  "block_map_dma b paddr len \<longleftrightarrow> \<not> (paddr < b_dma_pool b \<or> paddr + len > b_dma_pool b + b_dma_pool_size b)"

definition store :: "nat \<Rightarrow> u32 \<Rightarrow> blk_t \<Rightarrow> blk_t" where
  "store r v b = b\<lparr>b_stores := b_stores b @ [(r, v)]\<rparr>"

text \<open>The length as the \<^verbatim>\<open>int\<close> that is returned.\<close>

definition int_of :: "u64 \<Rightarrow> int" where "int_of len = sint (ucast len :: u32)"

definition block_read :: "blk_t \<Rightarrow> u32 \<Rightarrow> u64 \<Rightarrow> u64 \<Rightarrow> int \<times> blk_t" where
  "block_read b sector buf len =
     (if b_regs b = 0 \<or> buf = 0 then (- 1, b)
      else if len mod 512 \<noteq> 0 then (- 1, b)
      else if \<not> block_map_dma b buf len then (- 1, b)
      else (int_of len, store 17 (ucast len) (store 16 sector b)))"

definition block_write :: "blk_t \<Rightarrow> u32 \<Rightarrow> u64 \<Rightarrow> u64 \<Rightarrow> int \<times> blk_t" where
  "block_write b sector buf len =
     (if b_regs b = 0 \<or> buf = 0 then (- 1, b)
      else if \<not> block_map_dma b buf len then (- 1, b)
      else (int_of len, store 17 (ucast (len OR 0x80000000)) (store 16 sector b)))"

definition block_driver_handle_irq :: "u32 \<Rightarrow> blk_t \<Rightarrow> blk_t option" where
  "block_driver_handle_irq status b = (if b_regs b = 0 then None else Some (store 4 status b))"

definition block_driver_reboot :: "blk_t \<Rightarrow> bool \<times> blk_t" where
  "block_driver_reboot b = block_driver_init b (b_caps b) (b_dma_pool b) (b_dma_pool_size b)"

subsection \<open>Transfers stay in the pool\<close>

lemma map_dma_bounds:
  assumes "block_map_dma b p len" "unat p + unat len < 2 ^ 64" "unat (b_dma_pool b) + unat (b_dma_pool_size b) < 2 ^ 64"
  shows "unat (b_dma_pool b) \<le> unat p \<and> unat p + unat len \<le> unat (b_dma_pool b) + unat (b_dma_pool_size b)"
proof -
  have "unat (p + len) = unat p + unat len" "unat (b_dma_pool b + b_dma_pool_size b) = unat (b_dma_pool b) + unat (b_dma_pool_size b)"
    using assms(2,3) by (subst unat_add_lem[THEN iffD1]; simp)+
  then show ?thesis using assms(1) by (simp add: block_map_dma_def word_less_nat_alt not_less)
qed

text \<open>
  (bounds). The device is only ever programmed with buffers of the DMA pool: if a read or a write
  stores anything to a device register, and neither the buffer nor the pool wraps around the address
  space, then the whole buffer lies inside the pool, and for a read its length is a multiple of the
  sector size.
\<close>

theorem block_transfer_in_pool:
  assumes "snd (block_read b sector buf len) \<noteq> b \<or> snd (block_write b sector buf len) \<noteq> b"
    and "unat buf + unat len < 2 ^ 64" "unat (b_dma_pool b) + unat (b_dma_pool_size b) < 2 ^ 64"
  shows "unat (b_dma_pool b) \<le> unat buf \<and> unat buf + unat len \<le> unat (b_dma_pool b) + unat (b_dma_pool_size b) \<and>
    (snd (block_read b sector buf len) \<noteq> b \<longrightarrow> 512 dvd unat len)"
proof -
  have "block_map_dma b buf len" using assms(1) by (auto simp: block_read_def block_write_def split: if_splits)
  moreover have "512 dvd unat len" if "snd (block_read b sector buf len) \<noteq> b"
  proof -
    have "len mod 512 = 0" using that by (auto simp: block_read_def split: if_splits)
    then have "unat (len mod 512) = 0" by simp
    then show ?thesis by (simp add: unat_mod mod_eq_0_iff_dvd)
  qed
  ultimately show ?thesis using map_dma_bounds[OF _ assms(2,3)] by blast
qed

definition demo_blk :: blk_t where
  "demo_blk = zero_blk\<lparr>b_regs := 0x10001000, b_dma_pool := 0x50000000, b_dma_pool_size := 0x10000\<rparr>"

theorem block_transfer_in_pool_witness:
  "snd (block_read demo_blk 3 0x50001000 1024) \<noteq> demo_blk \<and>
   unat (0x50000000 :: u64) \<le> unat (0x50001000 :: u64) \<and> unat (0x50001000 :: u64) + unat (1024 :: u64) \<le> unat (0x50000000 :: u64) + unat (0x10000 :: u64) \<and>
   512 dvd unat (1024 :: u64)"
proof -
  have r: "snd (block_read demo_blk 3 0x50001000 1024) \<noteq> demo_blk"
    by (simp add: block_read_def demo_blk_def block_map_dma_def store_def zero_blk_def)
  then show ?thesis using block_transfer_in_pool[of demo_blk 3 "0x50001000" 1024] by (simp add: demo_blk_def)
qed

end
