(* ===== verification/DisplayDriver.thy ===== *)
theory DisplayDriver
  imports Capability
begin

text \<open>
  The display driver of user space, \<^verbatim>\<open>userspace/drivers/vga.c\<close>, over the simulated capabilities.
  The operation \<^verbatim>\<open>cheri_address_get\<close> is a compiler intrinsic and is an argument of the definitions
  that call it. The framebuffer is a memory of 32-bit words by address.
\<close>

record vga_drv_t =
  vd_fb_cap :: sim_cap_t
  vd_fb_paddr :: u64
  vd_fb_len :: u64
  vd_width :: u32
  vd_height :: u32
  vd_bpp :: u32

definition vga_drv_init :: "vga_drv_t \<Rightarrow> sim_cap_t \<Rightarrow> u64 \<Rightarrow> u64 \<Rightarrow> int \<times> vga_drv_t" where
  "vga_drv_init g fb_cap paddr len =
     (if \<not> cheri_tag_get fb_cap then (-1, g)
      else if cheri_base_get fb_cap \<noteq> paddr then (-1, g)
      else if cheri_length_get fb_cap < len then (-1, g)
      else
        let g1 = \<lparr>vd_fb_cap = fb_cap, vd_fb_paddr = paddr, vd_fb_len = len, vd_width = 800, vd_height = 600, vd_bpp = 32\<rparr> in
        if \<not> cheri_cap_is_valid fb_cap paddr len (CHERI_PERM_LOAD OR CHERI_PERM_STORE) then (-1, g1)
        else (0, g1))"

text \<open>The text routine computes the address of the framebuffer and stores nothing.\<close>

definition vga_drv_puts :: "(u64 \<Rightarrow> u32) \<Rightarrow> vga_drv_t \<Rightarrow> string \<Rightarrow> int \<Rightarrow> int \<Rightarrow> u64 \<Rightarrow> u32" where
  "vga_drv_puts m g s x y = m"

definition vga_drv_clear :: "(sim_cap_t \<Rightarrow> u64) \<Rightarrow> (u64 \<Rightarrow> u32) \<Rightarrow> vga_drv_t \<Rightarrow> u32 \<Rightarrow> u64 \<Rightarrow> u32" where
  "vga_drv_clear cheri_address_get m g color =
     (let fb = cheri_address_get (vd_fb_cap g);
          pixels = vd_width g * vd_height g in
      fold (\<lambda>i m. m(fb + 4 * of_nat i := color)) [0..<unat pixels] m)"

subsection \<open>Clearing\<close>

lemma init_ok:
  assumes "vga_drv_init g0 cap paddr len = (0, g)"
  shows "vd_fb_cap g = cap" "vd_width g = 800" "vd_height g = 600" "hw_base cap = paddr" "hw_top cap = paddr + len"
  using assms by (auto simp: vga_drv_init_def cheri_cap_is_valid_def Let_def split: if_splits)

text \<open>
  (functional). A driver that accepted its framebuffer clears exactly the 480000 words of the screen
  from the address of the capability on, and stores nowhere else, so that it stays within a
  framebuffer of at least 1920000 bytes.
\<close>

theorem vga_drv_clear_exact:
  assumes "vga_drv_init g0 cap paddr len = (0, g)" "address_get cap = paddr"
    and "1920000 \<le> unat len" "unat paddr + unat len < 2 ^ 64"
  shows "vga_drv_clear address_get m g color a =
      (if \<exists>i<480000. a = paddr + 4 * of_nat i then color else m a) \<and>
    (vga_drv_clear address_get m g color a \<noteq> m a \<longrightarrow> hw_base cap \<le> a \<and> a < hw_top cap)"
proof -
  note I = init_ok[OF assms(1)]
  have "vga_drv_clear address_get m g color = (\<lambda>a. if a \<in> (\<lambda>i. paddr + 4 * of_nat i) ` {0..<480000} then color else m a)"
    using I assms(2) by (simp add: vga_drv_clear_def Let_def fold_store)
  then have e: "vga_drv_clear address_get m g color a = (if \<exists>i<480000. a = paddr + 4 * of_nat i then color else m a)"
    by (auto simp: image_iff)
  have "hw_base cap \<le> paddr + 4 * of_nat i \<and> paddr + 4 * of_nat i < hw_top cap" if "i < 480000" for i
  proof -
    have n: "unat (4 * of_nat i :: u64) = 4 * i" using that by (simp add: unat_word_ariths unat_of_nat take_bit_nat_eq_self)
    have "unat (paddr + 4 * of_nat i) = unat paddr + 4 * i" using n that assms(3,4) by (subst unat_add_lem[THEN iffD1]) simp_all
    moreover have "unat (paddr + len) = unat paddr + unat len" using assms(4) by (subst unat_add_lem[THEN iffD1]) simp_all
    ultimately show ?thesis using I(4,5) that assms(3) by (simp add: word_le_nat_alt word_less_nat_alt)
  qed
  then show ?thesis unfolding e by auto
qed

definition demo_fb :: "u64 \<Rightarrow> sim_cap_t" where
  "demo_fb len = zero_sim_cap\<lparr>hw_base := 0x40000000, hw_top := 0x40000000 + len, hw_addr := 0x40000000, hw_perms := 3, hw_tag := 1\<rparr>"

definition no_driver :: vga_drv_t where
  "no_driver = \<lparr>vd_fb_cap = zero_sim_cap, vd_fb_paddr = 0, vd_fb_len = 0, vd_width = 0, vd_height = 0, vd_bpp = 0\<rparr>"

lemma demo_init:
  "vga_drv_init no_driver (demo_fb len) 0x40000000 len =
     (0, \<lparr>vd_fb_cap = demo_fb len, vd_fb_paddr = 0x40000000, vd_fb_len = len, vd_width = 800, vd_height = 600, vd_bpp = 32\<rparr>)"
  by (simp add: vga_drv_init_def demo_fb_def cheri_tag_get_def cheri_base_get_def cheri_length_get_def cheri_cap_is_valid_def)

theorem vga_drv_clear_exact_witness:
  "vga_drv_clear hw_addr (\<lambda>_. 0) (snd (vga_drv_init no_driver (demo_fb 1920000) 0x40000000 1920000)) 0xFF 0x40000000 = 0xFF"
proof -
  have a: "hw_addr (demo_fb 1920000) = 0x40000000" "unat (1920000 :: u64) \<ge> 1920000" "unat (0x40000000 :: u64) + unat (1920000 :: u64) < 2 ^ 64"
    by (simp_all add: demo_fb_def)
  have "\<exists>i<480000. (0x40000000 :: u64) = 0x40000000 + 4 * of_nat i" by (rule exI[of _ 0]) simp
  then show ?thesis using vga_drv_clear_exact[where address_get = hw_addr and m = "\<lambda>_. 0" and color = "0xFF" and a = "0x40000000", OF demo_init[of 1920000] a]
    unfolding demo_init snd_conv by presburger
qed

text \<open>
  (safety). The size of the framebuffer is not compared with the size of the screen: a driver given one page
  starts, and its clear stores far outside the capability, where the simulated capabilities trap nothing.
\<close>

theorem vga_drv_clear_overruns:
  "\<exists>g. vga_drv_init no_driver (demo_fb 4096) 0x40000000 4096 = (0, g) \<and> hw_top (vd_fb_cap g) = 0x40001000 \<and>
     vga_drv_clear hw_addr (\<lambda>_. 0) g 0xFF 0x401D4BFC = 0xFF"
proof -
  let ?g = "snd (vga_drv_init no_driver (demo_fb 4096) 0x40000000 4096)"
  have "vga_drv_clear hw_addr (\<lambda>_. 0) ?g 0xFF = (\<lambda>a. if a \<in> (\<lambda>i. 0x40000000 + 4 * of_nat i) ` {0..<480000} then 0xFF else 0)"
    by (simp add: vga_drv_clear_def demo_init Let_def fold_store) (simp add: demo_fb_def)
  moreover have "(0x401D4BFC :: u64) \<in> (\<lambda>i. 0x40000000 + 4 * of_nat i) ` {0..<480000}" by (rule image_eqI[where x = 479999]) simp_all
  ultimately show ?thesis using demo_init[of 4096] by (intro exI[of _ ?g]) (simp add: demo_fb_def)
qed

end
