(* ===== verification/Hardening.thy ===== *)
theory Hardening
  imports Prelude
begin

text \<open>
  The hardening primitives of \<^verbatim>\<open>kernel/src/hardening.c\<close>: the stack canary, guard pages and the test
  for canonical addresses, on the RISC-V branch. The counters read by \<^verbatim>\<open>csrr\<close> are arguments. Guard
  pages live in a memory of 64-bit words by address. \<^verbatim>\<open>panic\<close> and \<^verbatim>\<open>ubsan_handler\<close> stop the machine: they
  write the flush register and never return (\<open>None\<close>).
\<close>

record hardening_t =
  g_canary :: u64
  g_hardening_done :: bool

definition STACK_CANARY :: u64 where "STACK_CANARY = 0xDEADBEEFCAFEBABE"
definition GUARD_PAGE_PATTERN :: u64 where "GUARD_PAGE_PATTERN = 0xDEADC0DEDEADC0DE"

abbreviation (input) GUARD_PAGE_SIZE :: u64 where "GUARD_PAGE_SIZE \<equiv> 4096"

definition hardening_init :: "u64 \<Rightarrow> u64 \<Rightarrow> hardening_t" where
  "hardening_init rnd cycle = \<lparr>g_canary = (rnd XOR cycle XOR STACK_CANARY) OR 1, g_hardening_done = True\<rparr>"

definition canary_check :: "hardening_t \<Rightarrow> u64 \<Rightarrow> bool" where
  "canary_check h canary = (let diff = canary XOR g_canary h in diff = 0)"

definition guard_page_init :: "(u64 \<Rightarrow> u64) \<Rightarrow> u64 \<Rightarrow> u64 \<Rightarrow> u64 \<Rightarrow> u64" where
  "guard_page_init m base len0 =
     (let len = (if len0 < GUARD_PAGE_SIZE then GUARD_PAGE_SIZE else len0) in
      if base \<noteq> 0 then fold (\<lambda>i m. m(base + 8 * of_nat i := GUARD_PAGE_PATTERN)) [0..<unat (len div 8)] m
      else m)"

definition is_canonical_addr :: "u64 \<Rightarrow> bool" where
  "is_canonical_addr addr = (let top = drop_bit 38 addr in top = 0 \<or> top = 0x1FFFFFF)"

text \<open>The control and status registers by number; the messages are not printed.\<close>

definition panic :: "string \<Rightarrow> (nat \<Rightarrow> u64) \<Rightarrow> 'r option" where
  "panic msg csrs = wfi_loop (csrs(0x800 := 0))"

definition ubsan_handler :: "string \<Rightarrow> int \<Rightarrow> string \<Rightarrow> (nat \<Rightarrow> u64) \<Rightarrow> 'r option" where
  "ubsan_handler file line msg csrs = panic ''ubsan'' csrs"

definition HARDENING_ASSERT :: "bool \<Rightarrow> string \<Rightarrow> (nat \<Rightarrow> u64) \<Rightarrow> (nat \<Rightarrow> u64) option" where
  "HARDENING_ASSERT c text csrs = (if \<not> c then panic (''assert: '' @ text) csrs else Some csrs)"

subsection \<open>The canary\<close>

lemma canary_check_iff: "canary_check h c \<longleftrightarrow> c = g_canary h"
proof -
  have "c = g_canary h" if "c XOR g_canary h = 0"
  proof -
    have "c = (c XOR g_canary h) XOR g_canary h" by (simp add: xor.assoc)
    then show ?thesis using that by simp
  qed
  then show ?thesis by (auto simp: canary_check_def)
qed

text \<open>
  (functional). The canary is never zero, whatever the counters hold, and the check accepts exactly
  the canary.
\<close>

theorem canary_check_exact:
  "g_canary (hardening_init rnd cycle) \<noteq> 0 \<and> (canary_check (hardening_init rnd cycle) c \<longleftrightarrow> c = g_canary (hardening_init rnd cycle))"
proof -
  have "bit (g_canary (hardening_init rnd cycle)) 0" by (simp add: hardening_init_def bit_or_iff)
  then have "g_canary (hardening_init rnd cycle) \<noteq> 0" by auto
  then show ?thesis by (simp add: canary_check_iff)
qed

text \<open>
  (termination). Fail-closed: \<^verbatim>\<open>panic\<close> never returns, and an assertion returns, with nothing changed,
  exactly when its condition holds.
\<close>

theorem hardening_assert_fails_closed:
  "(HARDENING_ASSERT c text csrs = Some csrs' \<longleftrightarrow> c \<and> csrs' = csrs) \<and> panic msg csrs = (None :: 'r option)"
  by (auto simp: HARDENING_ASSERT_def panic_def)

subsection \<open>Guard pages\<close>

text \<open>
  (functional). A guard page of at least one page from a non-null base is filled with the pattern
  word by word, and no other word of memory changes.
\<close>

theorem guard_page_filled:
  assumes "base \<noteq> 0"
  shows "guard_page_init m base len a =
    (if \<exists>i < max 512 (unat len div 8). a = base + 8 * of_nat i then GUARD_PAGE_PATTERN else m a)"
proof -
  let ?len = "if len < GUARD_PAGE_SIZE then GUARD_PAGE_SIZE else len"
  have n: "unat (?len div 8) = max 512 (unat len div 8)"
  proof (cases "unat len < 4096")
    case True
    then have "unat len div 8 \<le> 512" by simp
    then show ?thesis using True by (simp add: word_less_nat_alt unat_div max_def)
  next
    case False
    then have "512 \<le> unat len div 8" by simp
    then show ?thesis using False by (simp add: word_less_nat_alt unat_div max_def)
  qed
  show ?thesis using assms n unfolding guard_page_init_def Let_def
    by (auto simp: fold_store image_iff)
qed

theorem guard_page_filled_witness:
  "guard_page_init (\<lambda>_. 0) 0x1000 8 0x1008 =
    (if \<exists>i < max 512 (unat (8 :: u64) div 8). (0x1008 :: u64) = 0x1000 + 8 * of_nat i then GUARD_PAGE_PATTERN else 0)"
  by (rule guard_page_filled) simp

subsection \<open>Canonical addresses\<close>

text \<open>An Sv39 address is canonical when it is a 39-bit signed number: bits 63 to 39 repeat bit 38.\<close>

definition sv39_canonical :: "u64 \<Rightarrow> bool" where
  "sv39_canonical a \<longleftrightarrow> - (2 ^ 38) \<le> sint a \<and> sint a < 2 ^ 38"

lemma sint_u64: "sint (a :: u64) = (if uint a < 2 ^ 63 then uint a else uint a - 2 ^ 64)"
proof -
  have "uint a < 2 ^ 64" using uint_lt2p[of a] by simp
  then show ?thesis by (simp add: sint_uint signed_take_bit_eq_take_bit_shift take_bit_eq_mod) (smt (verit) mod_pos_pos_trivial minus_mod_self2 uint_ge_0)
qed

text \<open>
  C40 (equivalence). The test for canonical addresses agrees with the Sv39 definition exactly outside
  two ranges of \<open>2 ^ 38\<close> addresses. Its constant is one bit short: it accepts the addresses just
  below \<open>2 ^ 63\<close>, which are not canonical, and rejects those just below \<open>2 ^ 64\<close>, the whole
  upper half of the canonical space.
\<close>

theorem is_canonical_addr_iff_sv39:
  "is_canonical_addr a = sv39_canonical a \<longleftrightarrow>
     uint a < 2 ^ 63 - 2 ^ 38 \<or> 2 ^ 63 \<le> uint a \<and> uint a < 2 ^ 64 - 2 ^ 38"
proof -
  have lt: "uint a < 2 ^ 64" "0 \<le> uint a" using uint_lt2p[of a] by simp_all
  have neg: "- (2 ^ 38) \<le> uint a" by (rule order_trans[OF _ lt(2)]) simp
  have u: "uint (drop_bit 38 a) = uint a div 2 ^ 38" by (simp add: drop_bit_eq_div uint_div)
  have "drop_bit 38 a = 0 \<longleftrightarrow> uint a div 2 ^ 38 = 0" "drop_bit 38 a = 0x1FFFFFF \<longleftrightarrow> uint a div 2 ^ 38 = 0x1FFFFFF"
    unfolding u[symmetric] by (simp_all add: word_uint_eq_iff)
  then have c: "is_canonical_addr a \<longleftrightarrow> uint a < 2 ^ 38 \<or> (2 ^ 63 - 2 ^ 38 \<le> uint a \<and> uint a < 2 ^ 63)"
    using lt by (auto simp: is_canonical_addr_def)
  have s: "sv39_canonical a \<longleftrightarrow> uint a < 2 ^ 38 \<or> 2 ^ 64 - 2 ^ 38 \<le> uint a"
    using lt neg by (auto simp: sv39_canonical_def sint_u64)
  show ?thesis unfolding c s using lt by auto
qed

end
