(* ===== verification/Elf.thy ===== *)
theory Elf
  imports Prelude
begin

text \<open>
  The ELF64 loader of \<^verbatim>\<open>kernel/src/elf.c\<close>. The file is the list of its bytes; a header field is a
  little-endian read at its offset, and a read outside the file is undefined behaviour (\<open>None\<close>).
  The packing of \<^verbatim>\<open>elf64_hdr_t\<close> and \<^verbatim>\<open>elf64_phdr_t\<close> is that of the ABI: sizes 64 and 56. The loader
  validates the program headers and reports the entry point; it does not copy segments.
\<close>

fun le_bytes :: "u8 list \<Rightarrow> nat" where
  "le_bytes [] = 0"
| "le_bytes (b # bs) = unat b + 256 * le_bytes bs"

definition rd :: "u8 list \<Rightarrow> nat \<Rightarrow> nat \<Rightarrow> nat option" where
  "rd data off n = (if off + n \<le> length data then Some (le_bytes (take n (drop off data))) else None)"

record elf64_hdr_t =
  eh_magic :: u32
  eh_cls :: u8
  eh_type :: u16
  eh_entry :: u64
  eh_phoff :: u64
  eh_phnum :: u16

record elf64_phdr_t =
  ph_type :: u32
  ph_vaddr :: u64
  ph_paddr :: u64
  ph_memsz :: u64

abbreviation (input) ELF_MAGIC :: u32 where "ELF_MAGIC \<equiv> 0x464C457F"
abbreviation (input) ELFCLASS64 :: u8 where "ELFCLASS64 \<equiv> 2"
abbreviation (input) ET_EXEC :: u16 where "ET_EXEC \<equiv> 2"
abbreviation (input) PT_LOAD :: u32 where "PT_LOAD \<equiv> 1"

definition read_hdr :: "u8 list \<Rightarrow> elf64_hdr_t option" where
  "read_hdr data =
     Option.bind (rd data 0 4) (\<lambda>magic. Option.bind (rd data 4 1) (\<lambda>cls. Option.bind (rd data 16 2) (\<lambda>ty.
     Option.bind (rd data 24 8) (\<lambda>entry. Option.bind (rd data 32 8) (\<lambda>phoff. Option.bind (rd data 56 2) (\<lambda>phnum.
       Some \<lparr>eh_magic = of_nat magic, eh_cls = of_nat cls, eh_type = of_nat ty, eh_entry = of_nat entry,
             eh_phoff = of_nat phoff, eh_phnum = of_nat phnum\<rparr>))))))"

definition read_phdr :: "u8 list \<Rightarrow> u64 \<Rightarrow> elf64_phdr_t option" where
  "read_phdr data off =
     Option.bind (rd data (unat off) 4) (\<lambda>ty. Option.bind (rd data (unat off + 16) 8) (\<lambda>vaddr.
     Option.bind (rd data (unat off + 24) 8) (\<lambda>paddr. Option.bind (rd data (unat off + 40) 8) (\<lambda>memsz.
       Some \<lparr>ph_type = of_nat ty, ph_vaddr = of_nat vaddr, ph_paddr = of_nat paddr, ph_memsz = of_nat memsz\<rparr>))))"

definition elf_is_valid :: "u8 list option \<Rightarrow> u64 \<Rightarrow> bool option" where
  "elf_is_valid datap sz =
     (case datap of
        None \<Rightarrow> Some False
      | Some data \<Rightarrow>
          if sz < 64 then Some False
          else map_option (\<lambda>h. eh_magic h = ELF_MAGIC \<and> eh_cls h = ELFCLASS64 \<and> eh_type h = ET_EXEC) (read_hdr data))"

text \<open>The loop over the program headers; the index list is what is left of \<open>0\<close> .. \<^verbatim>\<open>phnum - 1\<close>.\<close>

fun phdr_loop :: "u8 list \<Rightarrow> u64 \<Rightarrow> nat list \<Rightarrow> u64 \<Rightarrow> (kerror_t + u64) option" where
  "phdr_loop data phoff [] first = Some (Inr first)"
| "phdr_loop data phoff (i # is) first =
     (case read_phdr data (phoff + 56 * of_nat i) of
        None \<Rightarrow> None
      | Some ph \<Rightarrow>
          if ph_type ph \<noteq> PT_LOAD then phdr_loop data phoff is first
          else
            let first1 = (if ph_vaddr ph < first then ph_vaddr ph else first) in
            if ph_paddr ph + ph_memsz ph > 0x90000000 then Some (Inl ERR_INVALID_ARG)
            else phdr_loop data phoff is first1)"

definition elf_load :: "u8 list option \<Rightarrow> u64 \<Rightarrow> bool \<Rightarrow> bool \<Rightarrow> (kerror_t + (u64 \<times> u64)) option" where
  "elf_load datap elf_size out_entry out_vaddr =
     (case datap of
        None \<Rightarrow> Some (Inl ERR_INVALID_ARG)
      | Some data \<Rightarrow>
          if \<not> out_entry \<or> \<not> out_vaddr then Some (Inl ERR_INVALID_ARG)
          else (case elf_is_valid datap elf_size of
             None \<Rightarrow> None
           | Some False \<Rightarrow> Some (Inl ERR_INVALID_ARG)
           | Some True \<Rightarrow>
               (case read_hdr data of
                  None \<Rightarrow> None
                | Some hdr \<Rightarrow>
                    if eh_phoff hdr + ucast (eh_phnum hdr) * 56 > elf_size then Some (Inl ERR_INVALID_ARG)
                    else (case phdr_loop data (eh_phoff hdr) [0..<unat (eh_phnum hdr)] (- 1) of
                       None \<Rightarrow> None
                     | Some (Inl e) \<Rightarrow> Some (Inl e)
                     | Some (Inr first) \<Rightarrow> Some (Inr (eh_entry hdr, first))))))"

subsection \<open>Reads within the file\<close>

lemma rd_defined: "off + n \<le> length data \<Longrightarrow> \<exists>v. rd data off n = Some v"
  by (simp add: rd_def)

lemma read_hdr_defined: "64 \<le> length data \<Longrightarrow> \<exists>h. read_hdr data = Some h"
  by (simp add: read_hdr_def rd_def)

lemma read_phdr_defined: "unat off + 56 \<le> length data \<Longrightarrow> \<exists>p. read_phdr data off = Some p"
  by (simp add: read_phdr_def rd_def)

lemma phdr_offset:
  assumes "unat phoff + 56 * i < 2 ^ 64"
  shows "unat (phoff + 56 * of_nat i :: u64) = unat phoff + 56 * i"
proof -
  have "unat (of_nat (56 * i) :: u64) = 56 * i" using assms by (simp only: unat_of_nat) simp
  moreover have "(of_nat (56 * i) :: u64) = 56 * of_nat i" by simp
  ultimately have "unat (56 * of_nat i :: u64) = 56 * i" by simp
  then show ?thesis using assms by (subst unat_add_lem[THEN iffD1]) simp_all
qed

subsection \<open>Files as the ABI lays them out\<close>

fun le :: "nat \<Rightarrow> nat \<Rightarrow> u8 list" where
  "le 0 v = []"
| "le (Suc n) v = of_nat v # le n (v div 256)"

text \<open>
  A header lies at the start of a file, and a program header at an offset, when the fields the loader
  reads are stored there in little-endian order; every other byte is arbitrary.
\<close>

definition field_at :: "u8 list \<Rightarrow> nat \<Rightarrow> nat \<Rightarrow> nat \<Rightarrow> bool" where
  "field_at data off n v \<longleftrightarrow> take n (drop off data) = le n v"

definition hdr_at :: "elf64_hdr_t \<Rightarrow> u8 list \<Rightarrow> bool" where
  "hdr_at h data \<longleftrightarrow> 64 \<le> length data \<and> field_at data 0 4 (unat (eh_magic h)) \<and> field_at data 4 1 (unat (eh_cls h)) \<and>
     field_at data 16 2 (unat (eh_type h)) \<and> field_at data 24 8 (unat (eh_entry h)) \<and>
     field_at data 32 8 (unat (eh_phoff h)) \<and> field_at data 56 2 (unat (eh_phnum h))"

definition phdr_at :: "elf64_phdr_t \<Rightarrow> u8 list \<Rightarrow> nat \<Rightarrow> bool" where
  "phdr_at p data off \<longleftrightarrow> off + 56 \<le> length data \<and> field_at data off 4 (unat (ph_type p)) \<and>
     field_at data (off + 16) 8 (unat (ph_vaddr p)) \<and> field_at data (off + 24) 8 (unat (ph_paddr p)) \<and>
     field_at data (off + 40) 8 (unat (ph_memsz p))"

lemma length_le [simp]: "length (le n v) = n"
  by (induction n arbitrary: v) simp_all

lemma le_bytes_le: "v < 256 ^ n \<Longrightarrow> le_bytes (le n v) = v"
proof (induction n arbitrary: v)
  case (Suc n)
  then have "v div 256 < 256 ^ n" by (simp add: less_mult_imp_div_less mult.commute)
  then show ?case using Suc.IH by (simp add: unat_of_nat)
qed simp

lemma rd_field: "field_at data off n v \<Longrightarrow> v < 256 ^ n \<Longrightarrow> off + n \<le> length data \<Longrightarrow> rd data off n = Some v"
  by (simp add: field_at_def rd_def le_bytes_le)

lemma unat_bounds:
  "unat (a :: u8) < 256 ^ 1" "unat (b :: u16) < 256 ^ 2" "unat (c :: u32) < 256 ^ 4" "unat (d :: u64) < 256 ^ 8"
  using unsigned_less[of a, where ?'a = nat] unsigned_less[of b, where ?'a = nat] unsigned_less[of c, where ?'a = nat]
    unsigned_less[of d, where ?'a = nat] by simp_all

lemma read_phdr_at:
  assumes "phdr_at p data (unat off)"
  shows "read_phdr data off = Some p"
proof -
  have "rd data (unat off) 4 = Some (unat (ph_type p))" using assms by (intro rd_field[OF _ unat_bounds(3)]; simp add: phdr_at_def)
  moreover have "rd data (unat off + 16) 8 = Some (unat (ph_vaddr p))" "rd data (unat off + 24) 8 = Some (unat (ph_paddr p))"
    "rd data (unat off + 40) 8 = Some (unat (ph_memsz p))"
    using assms by (intro rd_field[OF _ unat_bounds(4)]; simp add: phdr_at_def)+
  ultimately show ?thesis by (simp add: read_phdr_def)
qed

lemma read_hdr_at:
  assumes "hdr_at h data"
  shows "read_hdr data = Some h"
proof -
  have "rd data 0 4 = Some (unat (eh_magic h))" using assms by (intro rd_field[OF _ unat_bounds(3)]; simp add: hdr_at_def)
  moreover have "rd data 4 1 = Some (unat (eh_cls h))" using assms by (intro rd_field[OF _ unat_bounds(1)]; simp add: hdr_at_def)
  moreover have "rd data 16 2 = Some (unat (eh_type h))" "rd data 56 2 = Some (unat (eh_phnum h))"
    using assms by (intro rd_field[OF _ unat_bounds(2)]; simp add: hdr_at_def)+
  moreover have "rd data 24 8 = Some (unat (eh_entry h))" "rd data 32 8 = Some (unat (eh_phoff h))"
    using assms by (intro rd_field[OF _ unat_bounds(4)]; simp add: hdr_at_def)+
  ultimately show ?thesis by (simp add: read_hdr_def)
qed

subsection \<open>The loop over the program headers\<close>

definition loads :: "elf64_phdr_t list \<Rightarrow> elf64_phdr_t list" where
  "loads phs = filter (\<lambda>p. ph_type p = PT_LOAD) phs"

lemma phdr_loop_eq:
  assumes "\<forall>i\<in>set is. read_phdr data (phoff + 56 * of_nat i) = Some (f i)"
  shows "phdr_loop data phoff is first =
    Some (if \<forall>p\<in>set (loads (map f is)). ph_paddr p + ph_memsz p \<le> 0x90000000
          then Inr (Min (insert first (ph_vaddr ` set (loads (map f is))))) else Inl ERR_INVALID_ARG)"
  using assms
proof (induction "is" arbitrary: first)
  case (Cons i "is")
  have m: "Min (insert (if v < first then v else first) V) = Min (insert first (insert v V))" if "finite V" for v :: u64 and V
    using that by (cases "V = {}") (auto simp: min_def insert_commute)
  show ?case
  proof (cases "ph_type (f i) = PT_LOAD")
    case True
    then show ?thesis using Cons m[of "ph_vaddr ` set (loads (map f is))" "ph_vaddr (f i)"]
      by (auto simp: loads_def Let_def not_le)
  next
    case False
    then show ?thesis using Cons by (simp add: loads_def)
  qed
qed (simp add: loads_def)

subsection \<open>Properties\<close>

definition hdr_ok :: "elf64_hdr_t \<Rightarrow> bool" where
  "hdr_ok h \<longleftrightarrow> eh_magic h = ELF_MAGIC \<and> eh_cls h = ELFCLASS64 \<and> eh_type h = ET_EXEC"

text \<open>The end of a segment as the loader computes it.\<close>

definition segment_end :: "elf64_phdr_t \<Rightarrow> nat" where
  "segment_end p = (unat (ph_paddr p) + unat (ph_memsz p)) mod 2 ^ 64"

lemma segment_end_word: "ph_paddr p + ph_memsz p \<le> 0x90000000 \<longleftrightarrow> segment_end p \<le> 0x90000000"
  by (simp add: segment_end_def word_le_nat_alt unat_word_ariths)

text \<open>
  C31 (functional). On a file with a header at its start and the program headers wherever in the file the
  header says, all other bytes being arbitrary, the loader reads nothing outside the file and returns.
  When the magic number, the class and the type are right and no loadable segment ends above the physical
  limit, the result is the entry point together with the lowest virtual address of the loadable
  segments (all ones when there is none); otherwise it is the error. The end of a segment is its physical address plus its
  size modulo 2^64: the sum wraps, so a segment that runs past 2^64 is judged by what remains of the sum.
\<close>

theorem elf_load_correct:
  assumes "hdr_at h data" "unat sz = length data"
    and "unat (eh_phnum h) = length phs" "unat (eh_phoff h) + 56 * length phs \<le> length data"
    and "\<forall>i<length phs. phdr_at (phs ! i) data (unat (eh_phoff h) + 56 * i)"
  shows "elf_load (Some data) sz True True =
    Some (if hdr_ok h \<and> (\<forall>p\<in>set (loads phs). segment_end p \<le> 0x90000000)
          then Inr (eh_entry h, Min (insert (- 1) (ph_vaddr ` set (loads phs)))) else Inl ERR_INVALID_ARG)"
proof -
  have "length data < 2 ^ 64" using assms(2) unsigned_less[of sz, where ?'a = nat] by simp
  then have nowrap: "unat (eh_phoff h) + 56 * length phs < 2 ^ 64" using assms(4) by linarith
  have "read_phdr data (eh_phoff h + 56 * of_nat i) = Some (phs ! i)" if "i < length phs" for i
    using assms(5) that phdr_offset[of "eh_phoff h" i] nowrap by (intro read_phdr_at) simp
  then have loop: "phdr_loop data (eh_phoff h) [0..<length phs] (- 1) =
      Some (if \<forall>p\<in>set (loads phs). segment_end p \<le> 0x90000000
            then Inr (Min (insert (- 1) (ph_vaddr ` set (loads phs)))) else Inl ERR_INVALID_ARG)"
    using phdr_loop_eq[of "[0..<length phs]" data "eh_phoff h" "\<lambda>i. phs ! i"] by (simp add: map_nth segment_end_word)
  have "unat (eh_phoff h + ucast (eh_phnum h) * 56) = unat (eh_phoff h) + 56 * length phs"
    using phdr_offset[OF nowrap] assms(3) of_nat_unat[of "eh_phnum h", where ?'a = "64 word"] by (simp add: mult.commute)
  then have "\<not> eh_phoff h + ucast (eh_phnum h) * 56 > sz" using assms(2,4) by (simp add: word_less_nat_alt)
  moreover have "\<not> sz < 64" using assms(1,2) by (simp add: word_less_nat_alt hdr_at_def)
  moreover from this have "elf_is_valid (Some data) sz = Some (hdr_ok h)"
    using read_hdr_at[OF assms(1)] by (simp add: elf_is_valid_def hdr_ok_def)
  ultimately show ?thesis using read_hdr_at[OF assms(1)] loop assms(3) by (cases "hdr_ok h") (simp_all add: elf_load_def)
qed

text \<open>A file as a linker writes it for this machine, with the program header after eight bytes of padding.\<close>

definition demo_hdr :: "u64 \<Rightarrow> elf64_hdr_t" where
  "demo_hdr phoff = \<lparr>eh_magic = ELF_MAGIC, eh_cls = ELFCLASS64, eh_type = ET_EXEC, eh_entry = 0x80200000, eh_phoff = phoff, eh_phnum = 1\<rparr>"

definition demo_phdr :: "u64 \<Rightarrow> u64 \<Rightarrow> elf64_phdr_t" where
  "demo_phdr paddr memsz = \<lparr>ph_type = PT_LOAD, ph_vaddr = 0x80200000, ph_paddr = paddr, ph_memsz = memsz\<rparr>"

definition demo_file :: "u64 \<Rightarrow> u64 \<Rightarrow> u64 \<Rightarrow> u8 list" where
  "demo_file phoff paddr memsz = le 4 0x464C457F @ [2, 1, 1, 0, 0, 0, 0, 0, 0, 0, 0, 0] @ le 2 2 @ le 2 0xF3 @ le 4 1 @ le 8 0x80200000 @ le 8 (unat phoff) @
     le 8 0x2000 @ le 4 5 @ le 2 64 @ le 2 56 @ le 2 1 @ le 2 64 @ le 2 3 @ le 2 2 @ le 8 0 @
     le 4 1 @ le 4 5 @ le 8 0x1000 @ le 8 0x80200000 @ le 8 (unat paddr) @ le 8 (unat memsz) @ le 8 (unat memsz) @ le 8 0x1000"

lemma demo_file_at:
  "hdr_at (demo_hdr phoff) (demo_file phoff paddr memsz)" "length (demo_file phoff paddr memsz) = 128" "phdr_at (demo_phdr paddr memsz) (demo_file phoff paddr memsz) 72"
  subgoal by (simp add: hdr_at_def field_at_def demo_file_def demo_hdr_def)
  subgoal by (simp add: demo_file_def)
  subgoal by (simp add: phdr_at_def field_at_def demo_file_def demo_phdr_def)
  done

theorem elf_load_correct_witness:
  "elf_load (Some (demo_file 72 0x80200000 0x1000)) 128 True True = Some (Inr (0x80200000, 0x80200000)) \<and>
   elf_load (Some (demo_file 72 0xFFFFFFFFFFFFF000 0x2000)) 128 True True = Some (Inr (0x80200000, 0x80200000)) \<and>
   elf_load (Some (demo_file 72 0x8FFFF000 0x2000)) 128 True True = Some (Inl ERR_INVALID_ARG)"
proof -
  note D = demo_file_at
  have ok: "hdr_ok (demo_hdr phoff)" "eh_entry (demo_hdr phoff) = 0x80200000" "unat (eh_phnum (demo_hdr phoff)) = 1" "unat (eh_phoff (demo_hdr phoff)) = unat phoff" for phoff
    by (simp_all add: hdr_ok_def demo_hdr_def)
  have ld: "loads [demo_phdr paddr memsz] = [demo_phdr paddr memsz]" "ph_vaddr (demo_phdr paddr memsz) = 0x80200000" for paddr memsz
    by (simp_all add: loads_def demo_phdr_def)
  have "elf_load (Some (demo_file 72 paddr memsz)) 128 True True =
    Some (if segment_end (demo_phdr paddr memsz) \<le> 0x90000000 then Inr (0x80200000, 0x80200000) else Inl ERR_INVALID_ARG)" for paddr memsz
    using elf_load_correct[OF D(1)[of 72 paddr memsz], of 128 "[demo_phdr paddr memsz]"] D(2)[of 72 paddr memsz] D(3)[of paddr memsz 72]
    by (simp add: ok ld)
  then show ?thesis by (simp add: segment_end_def demo_phdr_def)
qed

text \<open>
  (safety). The bounds test wraps: a valid header whose program-header offset lies beyond the end
  of the file, but so close to \<open>2 ^ 64\<close> that the end of the table wraps to a small number, passes
  the test, and the loader then reads outside the file.
\<close>

theorem elf_load_reads_outside:
  assumes "hdr_at h data" "hdr_ok h" "0 < unat (eh_phnum h)" "length data \<le> unat (eh_phoff h)"
    and "eh_phoff h + ucast (eh_phnum h) * 56 \<le> sz" "unat sz = length data"
  shows "elf_load (Some data) sz True True = None"
proof -
  have "rd data (unat (eh_phoff h)) 4 = None" using assms(4) by (simp add: rd_def)
  then have "read_phdr data (eh_phoff h) = None" by (simp add: read_phdr_def)
  moreover have "[0..<unat (eh_phnum h)] = 0 # [1..<unat (eh_phnum h)]" using assms(3) by (simp add: upt_conv_Cons)
  ultimately have "phdr_loop data (eh_phoff h) [0..<unat (eh_phnum h)] (- 1) = None" by simp
  moreover have "\<not> sz < 64" using assms(1,6) by (simp add: word_less_nat_alt hdr_at_def)
  ultimately show ?thesis using read_hdr_at[OF assms(1)] assms(2,5)
    by (simp add: elf_load_def elf_is_valid_def hdr_ok_def not_less[symmetric])
qed

theorem elf_load_reads_outside_witness: "elf_load (Some (demo_file (- 56) 0 0)) 128 True True = None"
  using elf_load_reads_outside[OF demo_file_at(1)[of "- 56" 0 0], of 128] demo_file_at(2)[of "- 56" 0 0]
  by (simp add: hdr_ok_def demo_hdr_def)

end
