(* ===== verification/Dice.thy ===== *)
theory Dice
  imports Prelude
begin

text \<open>
  The measured boot of \<^verbatim>\<open>boot/dice.c\<close>. \<^verbatim>\<open>sha256\<close> is declared and not defined in the sources: it is
  an argument, from a list of bytes to a digest. Fixed-size byte arrays are lists. The kernel image
  between the linker's symbols is an argument too.
\<close>

record dice_state_t =
  dice_cdi :: "u8 list"
  dice_kernel_hash :: "u8 list"
  dice_attestation_cert :: "u8 list"

text \<open>The temporary buffer, cleared before the return, is not part of the result.\<close>

definition dice_derive_cdi :: "(u8 list \<Rightarrow> u8 list) \<Rightarrow> u8 list \<Rightarrow> u8 list \<Rightarrow> u8 list" where
  "dice_derive_cdi sha256 uds hash = sha256 (take 32 uds @ take 32 hash)"

definition boot_measure_and_attest :: "(u8 list \<Rightarrow> u8 list) \<Rightarrow> u8 list \<Rightarrow> dice_state_t \<Rightarrow> int \<times> dice_state_t" where
  "boot_measure_and_attest sha256 image_bytes dice =
     (let k_hash = sha256 image_bytes;
          expected = replicate 32 0 in
      if k_hash \<noteq> expected then (- 1, dice)
      else
        let uds = replicate 32 0 in
        (0, dice\<lparr>dice_cdi := dice_derive_cdi sha256 uds k_hash, dice_kernel_hash := k_hash\<rparr>))"

text \<open>
  (safety). Measured boot fails closed and identifies nothing: it succeeds only for an image whose
  digest is the all-zero placeholder of the source, and then the compound device identifier is the
  digest of sixty-four zero bytes, the same for every device and every image; in every other case
  the state is left alone and the error is returned.
\<close>

theorem dice_cdi_constant:
  "boot_measure_and_attest sha256 image_bytes dice =
     (if sha256 image_bytes = replicate 32 0
      then (0, dice\<lparr>dice_cdi := sha256 (replicate 64 0), dice_kernel_hash := replicate 32 0\<rparr>)
      else (- 1, dice))"
proof -
  have "replicate 32 0 @ replicate 32 0 = (replicate 64 0 :: u8 list)" by (simp flip: replicate_add)
  then show ?thesis by (simp add: boot_measure_and_attest_def dice_derive_cdi_def)
qed

end
