(* ===== verification/MemServer.thy ===== *)
theory MemServer
  imports FrameAlloc
begin

text \<open>
  The user-level memory server, \<^verbatim>\<open>userspace/mem_server/server.c\<close>: a table of untyped regions handed
  out one by one. \<^verbatim>\<open>moonlight_retype\<close> is a system call declared in \<^verbatim>\<open>userspace/lib/moonlight.h\<close> and
  defined nowhere in the sources: it is an argument that maps the state of the rest of the system to
  a return code and a new state. The body of the endless service loop is one step from a received
  message to the reply.
\<close>

record untyped_t =
  un_paddr :: u64
  un_size :: u64
  un_cptr :: u32
  un_free :: bool
  un_color :: u16

definition zero_untyped :: untyped_t where
  "zero_untyped = \<lparr>un_paddr = 0, un_size = 0, un_cptr = 0, un_free = False, un_color = 0\<rparr>"

abbreviation (input) MAX_UNTYPED :: nat where "MAX_UNTYPED \<equiv> 32"

record mem_server =
  ms_untypeds :: "untyped_t arr"
  ms_count :: u32
  ms_next_slot :: u32

definition mem_server_init :: "untyped_t arr \<Rightarrow> u64 arr \<Rightarrow> u64 arr \<Rightarrow> u16 arr \<Rightarrow> u32 \<Rightarrow> mem_server" where
  "mem_server_init old bases sizes colors n =
     \<lparr>ms_untypeds = (\<lambda>i. if i < unat n \<and> i < MAX_UNTYPED
        then \<lparr>un_paddr = bases i, un_size = sizes i, un_cptr = of_nat i, un_free = True, un_color = colors i\<rparr> else old i),
      ms_count = n, ms_next_slot = 10\<rparr>"

definition color_fits :: "u32 \<Rightarrow> u16 \<Rightarrow> bool" where
  "color_fits part color =
     (let expected = ucast ((part * 2) mod 16) :: u16 in
      \<not> (color \<noteq> expected \<and> uint color \<noteq> uint expected + 1))"

text \<open>
  The search, with the indices still to be tried. The result is the index granted, \<open>None\<close> inside when
  there is none; an index beyond the table is undefined behaviour.
\<close>

fun alloc_search ::
  "('w \<Rightarrow> u32 \<Rightarrow> u32 \<Rightarrow> u64 \<Rightarrow> u32 \<Rightarrow> int \<times> 'w) \<Rightarrow> mem_server \<Rightarrow> u32 \<Rightarrow> u64 \<Rightarrow> nat list \<Rightarrow> 'w \<Rightarrow> (nat option \<times> 'w) option" where
  "alloc_search moonlight_retype s part sz [] w = Some (None, w)"
| "alloc_search moonlight_retype s part sz (i # is) w =
     (if i \<ge> MAX_UNTYPED then None
      else
        let u = ms_untypeds s i in
        if \<not> un_free u then alloc_search moonlight_retype s part sz is w
        else if un_size u < sz then alloc_search moonlight_retype s part sz is w
        else if \<not> color_fits part (un_color u) then alloc_search moonlight_retype s part sz is w
        else (case moonlight_retype w (un_cptr u) 5 sz (ms_next_slot s) of
           (err, w1) \<Rightarrow> if err \<noteq> 0 then alloc_search moonlight_retype s part sz is w1 else Some (Some i, w1)))"

definition take_untyped :: "mem_server \<Rightarrow> nat \<Rightarrow> mem_server" where
  "take_untyped s i = s\<lparr>ms_untypeds := (ms_untypeds s)(i := (ms_untypeds s i)\<lparr>un_free := False\<rparr>), ms_next_slot := ms_next_slot s + 1\<rparr>"

definition mem_alloc ::
  "('w \<Rightarrow> u32 \<Rightarrow> u32 \<Rightarrow> u64 \<Rightarrow> u32 \<Rightarrow> int \<times> 'w) \<Rightarrow> mem_server \<Rightarrow> u32 \<Rightarrow> u64 \<Rightarrow> 'w \<Rightarrow>
   ((u64 \<times> u16) option \<times> mem_server \<times> 'w) option" where
  "mem_alloc moonlight_retype s part sz w =
     (case alloc_search moonlight_retype s part sz [0..<unat (ms_count s)] w of
        None \<Rightarrow> None
      | Some (None, w1) \<Rightarrow> Some (None, s, w1)
      | Some (Some i, w1) \<Rightarrow> Some (Some (un_paddr (ms_untypeds s i), un_color (ms_untypeds s i)), take_untyped s i, w1))"

text \<open>
  One turn of \<^verbatim>\<open>mem_server_run\<close>: the message received, the contents of the two uninitialised locals,
  and the reply sent, \<open>None\<close> when there is none.
\<close>

definition mem_server_turn ::
  "('w \<Rightarrow> u32 \<Rightarrow> u32 \<Rightarrow> u64 \<Rightarrow> u32 \<Rightarrow> int \<times> 'w) \<Rightarrow> u64 \<times> u16 \<Rightarrow> ipc_msg_t \<Rightarrow> mem_server \<Rightarrow> 'w \<Rightarrow>
   (ipc_msg_t option \<times> mem_server \<times> 'w) option" where
  "mem_server_turn moonlight_retype junk msg s w =
     (if msg_label msg = 1 then
        (case mem_alloc moonlight_retype s (ucast (msg_words msg 0)) (msg_words msg 1) w of
           None \<Rightarrow> None
         | Some (None, s1, w1) \<Rightarrow>
             Some (Some (msg\<lparr>msg_words := (msg_words msg)(0 := - 1, 1 := fst junk, 2 := ucast (snd junk)), msg_length := 3\<rparr>), s1, w1)
         | Some (Some (paddr, color), s1, w1) \<Rightarrow>
             Some (Some (msg\<lparr>msg_words := (msg_words msg)(0 := 0, 1 := paddr, 2 := ucast color),
               msg_cap_ptrs := (msg_cap_ptrs msg)(0 := ms_next_slot s1 - 1), msg_caps := 1, msg_length := 3\<rparr>), s1, w1))
      else if msg_label msg = 2 then
        (if unat (ms_count s) > MAX_UNTYPED then None
         else Some (Some (msg\<lparr>msg_words := (msg_words msg)(0 := 0), msg_length := 1\<rparr>),
           s\<lparr>ms_untypeds := (\<lambda>i. if i < unat (ms_count s) \<and> un_paddr (ms_untypeds s i) = msg_words msg 0
                 then (ms_untypeds s i)\<lparr>un_free := True\<rparr> else ms_untypeds s i)\<rparr>, w))
      else Some (None, s, w))"

subsection \<open>One allocation\<close>

lemma alloc_search_defined:
  "\<forall>i\<in>set is. i < MAX_UNTYPED \<Longrightarrow> alloc_search rt s part sz is w \<noteq> None"
  by (induction "is" arbitrary: w) (auto simp: Let_def split: prod.splits)

lemma alloc_search_Some:
  assumes "alloc_search rt s part sz is w = Some (Some i, w1)"
  shows "i \<in> set is \<and> i < MAX_UNTYPED \<and> un_free (ms_untypeds s i) \<and> sz \<le> un_size (ms_untypeds s i) \<and>
    color_fits part (un_color (ms_untypeds s i)) \<and> (\<exists>w0. rt w0 (un_cptr (ms_untypeds s i)) 5 sz (ms_next_slot s) = (0, w1))"
  using assms
  by (induction "is" arbitrary: w) (auto simp: Let_def not_less not_le split: if_splits prod.splits)

lemma mem_alloc_Some:
  assumes "mem_alloc rt s part sz w = Some (Some (p, c), s1, w1)"
  obtains i where "i < unat (ms_count s)" "i < MAX_UNTYPED" "un_free (ms_untypeds s i)" "sz \<le> un_size (ms_untypeds s i)"
    "color_fits part (un_color (ms_untypeds s i))" "p = un_paddr (ms_untypeds s i)" "c = un_color (ms_untypeds s i)" "s1 = take_untyped s i"
    "\<exists>w0. rt w0 (un_cptr (ms_untypeds s i)) 5 sz (ms_next_slot s) = (0, w1)"
proof -
  obtain i where i: "alloc_search rt s part sz [0..<unat (ms_count s)] w = Some (Some i, w1)"
    and r: "p = un_paddr (ms_untypeds s i)" "c = un_color (ms_untypeds s i)" "s1 = take_untyped s i"
    using assms by (auto simp: mem_alloc_def split: option.splits)
  have "i < unat (ms_count s)" using alloc_search_Some[OF i] by simp
  then show ?thesis using that[OF _ _ _ _ _ r] alloc_search_Some[OF i] by blast
qed

lemma mem_alloc_None: "mem_alloc rt s part sz w = Some (None, s1, w1) \<Longrightarrow> s1 = s"
  by (auto simp: mem_alloc_def split: option.splits)

lemma take_untyped_fields [simp]:
  "ms_count (take_untyped s i) = ms_count s" "ms_next_slot (take_untyped s i) = ms_next_slot s + 1"
  "un_paddr (ms_untypeds (take_untyped s i) j) = un_paddr (ms_untypeds s j)"
  "un_free (ms_untypeds (take_untyped s i) j) = (j \<noteq> i \<and> un_free (ms_untypeds s j))"
  by (simp_all add: take_untyped_def)

text \<open>
  (equivalence). The colour policy of the memory server is the kernel's: the server gives a region
  to a partition exactly when the kernel's allocator counts its colour as valid for it.
\<close>

theorem color_fits_iff_valid: "color_fits part c \<longleftrightarrow> alloc_color_is_valid part c"
proof -
  let ?e = "ucast ((part * 2) mod 16) :: u16"
  have "unat ((part * 2) mod 16) < 16" by (simp add: unat_mod)
  then have e: "unat ?e < 16" by (simp add: unsigned_ucast_eq take_bit_nat_eq_self)
  have "uint c = uint ?e + 1 \<longleftrightarrow> c = ?e + 1"
  proof -
    have "unat (?e + 1) = unat ?e + 1" using e by (subst unat_add_lem[THEN iffD1]) simp_all
    then have "int (unat (?e + 1)) = int (unat ?e) + 1" by simp
    then have "uint (?e + 1) = uint ?e + 1" by (simp only: uint_nat)
    then show ?thesis by (metis word_uint_eq_iff)
  qed
  then show ?thesis by (auto simp: color_fits_def alloc_color_is_valid_def alloc_color_for_partition_def Let_def)
qed

subsection \<open>The server at work\<close>

text \<open>The addresses granted so far are recorded beside the state; a grant is a reply with code 0.\<close>

definition mem_server_step ::
  "('w \<Rightarrow> u32 \<Rightarrow> u32 \<Rightarrow> u64 \<Rightarrow> u32 \<Rightarrow> int \<times> 'w) \<Rightarrow> mem_server \<times> 'w \<times> u64 list \<Rightarrow> (u64 \<times> u16) \<times> ipc_msg_t \<Rightarrow>
   (mem_server \<times> 'w \<times> u64 list) option" where
  "mem_server_step rt st a =
     (case st of (s, w, log) \<Rightarrow> case mem_server_turn rt (fst a) (snd a) s w of
        None \<Rightarrow> None
      | Some (reply, s1, w1) \<Rightarrow>
          Some (s1, w1, case reply of
              None \<Rightarrow> log
            | Some r \<Rightarrow> if msg_label (snd a) = 1 \<and> msg_words r 0 = 0 then log @ [msg_words r 1] else log))"

definition grants_ok :: "mem_server \<times> 'w \<times> u64 list \<Rightarrow> bool" where
  "grants_ok st = (case st of (s, w, log) \<Rightarrow>
     unat (ms_count s) \<le> MAX_UNTYPED \<and> inj_on (\<lambda>i. un_paddr (ms_untypeds s i)) {..<unat (ms_count s)} \<and> distinct log \<and>
     (\<forall>p\<in>set log. \<exists>i<unat (ms_count s). p = un_paddr (ms_untypeds s i) \<and> \<not> un_free (ms_untypeds s i)))"

lemma grants_ok_alloc:
  assumes "grants_ok (s, w, log)" "i < unat (ms_count s)" "un_free (ms_untypeds s i)"
  shows "grants_ok (take_untyped s i, w1, log @ [un_paddr (ms_untypeds s i)])"
proof -
  have "un_paddr (ms_untypeds s i) \<notin> set log"
  proof
    assume "un_paddr (ms_untypeds s i) \<in> set log"
    then obtain j where "j < unat (ms_count s)" "un_paddr (ms_untypeds s i) = un_paddr (ms_untypeds s j)" "\<not> un_free (ms_untypeds s j)"
      using assms(1) by (auto simp: grants_ok_def)
    then show False using assms by (auto simp: grants_ok_def inj_on_def)
  qed
  then show ?thesis using assms by (auto simp: grants_ok_def)
qed

lemma mem_server_step_grants:
  assumes "grants_ok st" "msg_label (snd a) \<noteq> 2" "mem_server_step rt st a = Some st1"
  shows "grants_ok st1"
proof -
  obtain s w log where st: "st = (s, w, log)" by (cases st)
  show ?thesis
  proof (cases "msg_label (snd a) = 1")
    case True
    then obtain g s1 w1 where m: "mem_alloc rt s (ucast (msg_words (snd a) 0)) (msg_words (snd a) 1) w = Some (g, s1, w1)"
      using assms(3) st by (auto simp: mem_server_step_def mem_server_turn_def split: option.splits)
    show ?thesis
    proof (cases g)
      case None
      then have "s1 = s" using mem_alloc_None[OF m[unfolded None]] by simp
      then show ?thesis using assms(1,3) st True m None by (auto simp: mem_server_step_def mem_server_turn_def grants_ok_def)
    next
      case (Some pc)
      obtain p c where pc: "pc = (p, c)" by (cases pc)
      obtain i where "i < unat (ms_count s)" "un_free (ms_untypeds s i)" "p = un_paddr (ms_untypeds s i)" "s1 = take_untyped s i"
        using mem_alloc_Some[OF m[unfolded Some pc]] by blast
      then show ?thesis using assms(1,3) st True m Some pc grants_ok_alloc[of s w log i w1]
        by (simp add: mem_server_step_def mem_server_turn_def)
    qed
  next
    case False
    then show ?thesis using assms st by (auto simp: mem_server_step_def mem_server_turn_def)
  qed
qed

interpretation mserver: guarded_partial_machine "mem_server_step rt" grants_ok "\<lambda>a. msg_label (snd a) \<noteq> 2" for rt
  by unfold_locales (rule mem_server_step_grants)

text \<open>
  C29 (invariant). No region is granted twice: over every sequence of requests without a release, from
  a server set up with at most thirty-two regions at different addresses, the addresses it grants
  are pairwise different, whatever the kernel answers to the retype calls.
\<close>

theorem mem_server_grants_distinct:
  assumes "unat n \<le> MAX_UNTYPED" "inj_on bases {..<unat n}"
    and "run_steps (mem_server_step rt) (mem_server_init old bases sizes colors n, w, []) msgs = Some (s, w1, log)"
    and "\<forall>a\<in>set msgs. msg_label (snd a) \<noteq> 2"
  shows "distinct log"
proof -
  have "grants_ok (mem_server_init old bases sizes colors n, w, [])"
    using assms(1,2) by (auto simp: grants_ok_def mem_server_init_def inj_on_def)
  from mserver.run_inv[OF assms(3,4) this] show ?thesis by (simp add: grants_ok_def)
qed

definition alloc_msg :: "u64 \<Rightarrow> u64 \<Rightarrow> ipc_msg_t" where
  "alloc_msg part sz = zero_msg\<lparr>msg_label := 1, msg_words := (\<lambda>_. 0)(0 := part, 1 := sz)\<rparr>"

lemma mem_server_step_alloc:
  assumes "alloc_search rt s (ucast part) sz [0..<unat (ms_count s)] w = Some (Some i, w1)"
  shows "mem_server_step rt (s, w, log) (junk, alloc_msg part sz) = Some (take_untyped s i, w1, log @ [un_paddr (ms_untypeds s i)])"
  using assms by (simp add: mem_server_step_def mem_server_turn_def mem_alloc_def alloc_msg_def)

definition demo_server :: mem_server where
  "demo_server = mem_server_init (\<lambda>_. zero_untyped) (\<lambda>i. of_nat i * 0x1000) (\<lambda>_. 0x1000) (\<lambda>_. 0) 2"

lemma demo_server_grants:
  "run_steps (mem_server_step (\<lambda>w _ _ _ _. (0, w))) (demo_server, (), []) [((0, 0), alloc_msg 0 0x1000), ((0, 0), alloc_msg 0 0x800)] =
     Some (take_untyped (take_untyped demo_server 0) 1, (), [0, 0x1000])"
proof -
  have two: "[0..<2] = [0, Suc 0]" by (simp add: upt_rec)
  have "alloc_search (\<lambda>w _ _ _ _. (0, w)) demo_server (ucast (0 :: u64)) 0x1000 [0..<unat (ms_count demo_server)] () = Some (Some 0, ())"
    by (simp add: demo_server_def mem_server_init_def two color_fits_def)
  moreover have "alloc_search (\<lambda>w _ _ _ _. (0, w)) (take_untyped demo_server 0) (ucast (0 :: u64)) 0x800
      [0..<unat (ms_count (take_untyped demo_server 0))] () = Some (Some 1, ())"
    by (simp add: take_untyped_def demo_server_def mem_server_init_def two color_fits_def)
  ultimately show ?thesis by (simp add: mem_server_step_alloc) (simp add: demo_server_def mem_server_init_def)
qed

theorem mem_server_grants_distinct_witness:
  "run_steps (mem_server_step (\<lambda>w _ _ _ _. (0, w))) (demo_server, (), []) [((0, 0), alloc_msg 0 0x1000), ((0, 0), alloc_msg 0 0x800)] =
     Some (take_untyped (take_untyped demo_server 0) 1, (), [0, 0x1000]) \<and> distinct [0, 0x1000 :: u64]"
proof -
  have "{..<unat (2 :: u32)} = {0, 1}" by auto
  then have "inj_on (\<lambda>i. of_nat i * 0x1000 :: u64) {..<unat (2 :: u32)}" by simp
  then have "distinct [0, 0x1000 :: u64]"
    by (intro mem_server_grants_distinct[OF _ _ demo_server_grants[unfolded demo_server_def]]) (simp_all add: alloc_msg_def)
  then show ?thesis using demo_server_grants by blast
qed

lemma alloc_search_skip:
  "\<forall>j\<in>set is. j < MAX_UNTYPED \<and> \<not> un_free (ms_untypeds s j) \<Longrightarrow> alloc_search rt s part sz (is @ js) w = alloc_search rt s part sz js w"
  by (induction "is") (auto simp: Let_def)

text \<open>
  (safety). A release is neither checked nor backed by a revocation: a message of the release kind
  that names the address of a granted region, from any client, makes the server grant that region
  again to the next fitting request, while the frame capability of the first grant still exists.
\<close>

theorem released_region_granted_again:
  assumes "unat (ms_count s) \<le> MAX_UNTYPED" "i < unat (ms_count s)" "msg_label msg = 2" "msg_words msg 0 = un_paddr (ms_untypeds s i)"
    and "\<forall>j<i. \<not> un_free (ms_untypeds s j) \<and> un_paddr (ms_untypeds s j) \<noteq> un_paddr (ms_untypeds s i)"
    and "sz \<le> un_size (ms_untypeds s i)" "color_fits part (un_color (ms_untypeds s i))"
    and "rt w (un_cptr (ms_untypeds s i)) 5 sz (ms_next_slot s) = (0, w1)"
  shows "\<exists>r s1 s2. mem_server_turn rt junk msg s w = Some (Some r, s1, w) \<and>
    mem_alloc rt s1 part sz w = Some (Some (un_paddr (ms_untypeds s i), un_color (ms_untypeds s i)), s2, w1)"
proof -
  let ?s1 = "s\<lparr>ms_untypeds := (\<lambda>i. if i < unat (ms_count s) \<and> un_paddr (ms_untypeds s i) = msg_words msg 0
                 then (ms_untypeds s i)\<lparr>un_free := True\<rparr> else ms_untypeds s i)\<rparr>"
  have t: "mem_server_turn rt junk msg s w = Some (Some (msg\<lparr>msg_words := (msg_words msg)(0 := 0), msg_length := 1\<rparr>), ?s1, w)"
    using assms(1,3) by (simp add: mem_server_turn_def)
  have "[0..<unat (ms_count s)] = [0..<i] @ i # [Suc i..<unat (ms_count s)]"
    using upt_add_eq_append[of 0 i "unat (ms_count s) - i"] upt_conv_Cons[of i "unat (ms_count s)"] assms(2) by simp
  moreover have "\<forall>j\<in>set [0..<i]. j < MAX_UNTYPED \<and> \<not> un_free (ms_untypeds ?s1 j)" using assms(1,2,4,5) by auto
  ultimately have "alloc_search rt ?s1 part sz [0..<unat (ms_count s)] w = Some (Some i, w1)"
    using assms(1,2,4,6,7,8) by (simp only: alloc_search_skip) (simp add: not_le[symmetric])
  then have "mem_alloc rt ?s1 part sz w = Some (Some (un_paddr (ms_untypeds s i), un_color (ms_untypeds s i)), take_untyped ?s1 i, w1)"
    using assms(2,4) by (simp add: mem_alloc_def)
  then show ?thesis using t by blast
qed

theorem released_region_granted_again_witness:
  "\<exists>r s1 s2. mem_server_turn (\<lambda>w _ _ _ _. (0, w)) (0, 0) (zero_msg\<lparr>msg_label := 2\<rparr>) (take_untyped demo_server 0) () = Some (Some r, s1, ()) \<and>
    mem_alloc (\<lambda>w _ _ _ _. (0, w)) s1 0 0x1000 () = Some (Some (0, 0), s2, ())"
  using released_region_granted_again[of "take_untyped demo_server 0" 0 "zero_msg\<lparr>msg_label := 2\<rparr>" "0x1000" 0 "\<lambda>w _ _ _ _. (0, w)" "()" "()" "(0, 0)"]
  by (simp add: demo_server_def mem_server_init_def take_untyped_def color_fits_def zero_msg_def)

end
