(* ===== verification/SchedServer.thy ===== *)
theory SchedServer
  imports Prelude
begin

text \<open>
  The user-level scheduling server, \<^verbatim>\<open>userspace/sched_server/server.c\<close>: admission control over a
  table of at most sixty-four tasks. A division by a zero period is undefined behaviour (\<open>None\<close>).
  The body of the endless service loop is one step from a received message to the reply; the field
  \<^verbatim>\<open>rt\<close>, which the loop never sets, is an argument of the step.
\<close>

record task_cfg_t =
  task_id :: u32
  task_partition :: u32
  task_budget :: u64
  task_period :: u64
  task_prio :: u8
  task_rt :: bool

abbreviation (input) MAX_TASKS :: u32 where "MAX_TASKS \<equiv> 64"

record sched_server =
  ss_tasks :: "task_cfg_t arr"
  ss_count :: u32

text \<open>The utilisation the code computes for a task, in percent, rounded down; \<open>None\<close> for period 0.\<close>

definition task_percent :: "task_cfg_t \<Rightarrow> u64 option" where
  "task_percent t = (if task_period t = 0 then None else Some (task_budget t * 100 div task_period t))"

text \<open>The loop over the tasks: \<open>Some None\<close> is the early \<^verbatim>\<open>return false\<close>.\<close>

fun sum_loop :: "task_cfg_t arr \<Rightarrow> u32 \<Rightarrow> nat list \<Rightarrow> u64 \<Rightarrow> u64 option option" where
  "sum_loop tasks part [] acc = Some (Some acc)"
| "sum_loop tasks part (i # is) acc =
     (if i \<ge> 64 then None
      else if task_partition (tasks i) = part then
        (case task_percent (tasks i) of
           None \<Rightarrow> None
         | Some q \<Rightarrow> if acc + q > 99 then Some None else sum_loop tasks part is (acc + q))
      else sum_loop tasks part is acc)"

definition is_schedulable_for_partition :: "sched_server \<Rightarrow> u32 \<Rightarrow> task_cfg_t option \<Rightarrow> bool option" where
  "is_schedulable_for_partition s part new_task =
     (case sum_loop (ss_tasks s) part [0..<unat (ss_count s)] 0 of
        None \<Rightarrow> None
      | Some None \<Rightarrow> Some False
      | Some (Some acc) \<Rightarrow>
          (case new_task of
             None \<Rightarrow> Some (acc \<le> 99)
           | Some t \<Rightarrow>
               if task_partition t = part then
                 (case task_percent t of
                    None \<Rightarrow> None
                  | Some q \<Rightarrow> if acc + q > 99 then Some False else Some (acc + q \<le> 99))
               else Some (acc \<le> 99)))"

definition sched_admit :: "sched_server \<Rightarrow> task_cfg_t \<Rightarrow> (int \<times> sched_server) option" where
  "sched_admit s cfg =
     (case is_schedulable_for_partition s (task_partition cfg) (Some cfg) of
        None \<Rightarrow> None
      | Some False \<Rightarrow> Some (- 1, s)
      | Some True \<Rightarrow>
          if ss_count s \<ge> MAX_TASKS then Some (- 1, s)
          else Some (0, s\<lparr>ss_tasks := (ss_tasks s)(unat (ss_count s) := cfg), ss_count := ss_count s + 1\<rparr>))"

fun admissible_loop :: "sched_server \<Rightarrow> nat list \<Rightarrow> bool option" where
  "admissible_loop s [] = Some True"
| "admissible_loop s (p # ps) =
     (case is_schedulable_for_partition s (of_nat p) None of
        None \<Rightarrow> None | Some False \<Rightarrow> Some False | Some True \<Rightarrow> admissible_loop s ps)"

definition sched_is_admissible :: "sched_server \<Rightarrow> bool option" where
  "sched_is_admissible s = admissible_loop s [0..<8]"

definition msg_task :: "bool \<Rightarrow> ipc_msg_t \<Rightarrow> task_cfg_t" where
  "msg_task rt msg = \<lparr>task_id = ucast (msg_words msg 0), task_partition = ucast (msg_words msg 1),
     task_budget = msg_words msg 2, task_period = msg_words msg 3, task_prio = ucast (msg_words msg 4), task_rt = rt\<rparr>"

definition sched_server_turn :: "bool \<Rightarrow> ipc_msg_t \<Rightarrow> sched_server \<Rightarrow> (ipc_msg_t option \<times> sched_server) option" where
  "sched_server_turn rt msg s =
     (if msg_label msg = 1 then
        (case sched_admit s (msg_task rt msg) of
           None \<Rightarrow> None
         | Some (err, s1) \<Rightarrow> Some (Some (msg\<lparr>msg_words := (msg_words msg)(0 := of_int err), msg_length := 1\<rparr>), s1))
      else Some (None, s))"

subsection \<open>The sum the loop computes\<close>

text \<open>Budgets small enough for the percentage to be computed without wrapping.\<close>

definition task_ok :: "task_cfg_t \<Rightarrow> bool" where
  "task_ok t \<longleftrightarrow> task_period t \<noteq> 0 \<and> unat (task_budget t) * 100 + 99 < 2 ^ 64"

definition load_of :: "task_cfg_t \<Rightarrow> nat" where
  "load_of t = unat (task_budget t) * 100 div unat (task_period t)"

definition part_load :: "task_cfg_t arr \<Rightarrow> u32 \<Rightarrow> nat list \<Rightarrow> nat" where
  "part_load tasks part is = (\<Sum>i\<leftarrow>is. if task_partition (tasks i) = part then load_of (tasks i) else 0)"

lemma part_load_simps [simp]:
  "part_load tasks part [] = 0"
  "part_load tasks part (i # is) = (if task_partition (tasks i) = part then load_of (tasks i) else 0) + part_load tasks part is"
  "part_load tasks part (is @ js) = part_load tasks part is + part_load tasks part js"
  by (simp_all add: part_load_def)

lemma part_load_cong: "(\<And>i. i \<in> set is \<Longrightarrow> f i = g i) \<Longrightarrow> part_load f part is = part_load g part is"
  by (induction "is") simp_all

lemma task_percent_ok:
  assumes "task_ok t"
  shows "\<exists>q. task_percent t = Some q \<and> unat q = load_of t \<and> unat q + 99 < 2 ^ 64"
proof -
  have "unat (task_budget t * 100) = unat (task_budget t) * 100"
    using assms by (subst unat_mult_lem[THEN iffD1]) (simp_all add: task_ok_def)
  then have "unat (task_budget t * 100 div task_period t) = load_of t" by (simp add: unat_div load_of_def)
  moreover have "load_of t \<le> unat (task_budget t) * 100" by (simp add: load_of_def)
  ultimately show ?thesis using assms by (auto simp: task_percent_def task_ok_def)
qed

lemma add_percent:
  assumes "unat acc \<le> 99" "unat q + 99 < 2 ^ 64"
  shows "unat (acc + q :: u64) = unat acc + unat q"
  using assms by (subst unat_add_lem[THEN iffD1]) simp_all

lemma sum_loop_eq:
  assumes "\<forall>i\<in>set is. i < 64 \<and> task_ok (tasks i)" "unat acc \<le> 99"
  shows "sum_loop tasks part is acc =
    Some (if unat acc + part_load tasks part is \<le> 99 then Some (of_nat (unat acc + part_load tasks part is)) else None)"
  using assms
proof (induction "is" arbitrary: acc)
  case (Cons i "is")
  show ?case
  proof (cases "task_partition (tasks i) = part")
    case True
    obtain q where q: "task_percent (tasks i) = Some q" "unat q = load_of (tasks i)" "unat q + 99 < 2 ^ 64"
      using task_percent_ok Cons.prems(1) by (meson list.set_intros(1))
    have s: "unat (acc + q) = unat acc + load_of (tasks i)" using add_percent[OF Cons.prems(2) q(3)] q(2) by simp
    show ?thesis using True q s Cons by (simp add: word_less_nat_alt)
  qed (use Cons in simp)
qed simp

subsection \<open>Admission\<close>

definition server_inv :: "sched_server \<Rightarrow> bool" where
  "server_inv s \<longleftrightarrow> unat (ss_count s) \<le> 64 \<and> (\<forall>i<unat (ss_count s). task_ok (ss_tasks s i)) \<and>
     (\<forall>p. part_load (ss_tasks s) p [0..<unat (ss_count s)] \<le> 99)"

lemma sum_loop_inv:
  assumes "server_inv s"
  shows "sum_loop (ss_tasks s) part [0..<unat (ss_count s)] 0 = Some (Some (of_nat (part_load (ss_tasks s) part [0..<unat (ss_count s)])))"
  using assms sum_loop_eq[of "[0..<unat (ss_count s)]" "ss_tasks s" 0 part] by (simp add: server_inv_def)

lemma unat_part_load:
  assumes "server_inv s"
  shows "unat (of_nat (part_load (ss_tasks s) part [0..<unat (ss_count s)]) :: u64) = part_load (ss_tasks s) part [0..<unat (ss_count s)]"
    and "part_load (ss_tasks s) part [0..<unat (ss_count s)] \<le> 99"
proof -
  show le: "part_load (ss_tasks s) part [0..<unat (ss_count s)] \<le> 99" using assms by (simp add: server_inv_def)
  then show "unat (of_nat (part_load (ss_tasks s) part [0..<unat (ss_count s)]) :: u64) = part_load (ss_tasks s) part [0..<unat (ss_count s)]"
    by (simp only: unat_of_nat) simp
qed

definition add_task :: "sched_server \<Rightarrow> task_cfg_t \<Rightarrow> sched_server" where
  "add_task s cfg = s\<lparr>ss_tasks := (ss_tasks s)(unat (ss_count s) := cfg), ss_count := ss_count s + 1\<rparr>"

lemma sched_admit_eq:
  assumes "server_inv s" "task_ok cfg"
  shows "sched_admit s cfg =
    Some (if part_load (ss_tasks s) (task_partition cfg) [0..<unat (ss_count s)] + load_of cfg \<le> 99 \<and> unat (ss_count s) < 64
          then (0, add_task s cfg) else (- 1, s))"
proof -
  let ?L = "part_load (ss_tasks s) (task_partition cfg) [0..<unat (ss_count s)]"
  obtain q where q: "task_percent cfg = Some q" "unat q = load_of cfg" "unat q + 99 < 2 ^ 64"
    using task_percent_ok[OF assms(2)] by blast
  have "unat (of_nat ?L + q :: u64) = ?L + load_of cfg"
    using add_percent[of "of_nat ?L" q] unat_part_load[OF assms(1)] q by simp
  then have "is_schedulable_for_partition s (task_partition cfg) (Some cfg) = Some (?L + load_of cfg \<le> 99)"
    using sum_loop_inv[OF assms(1)] q(1) by (simp add: is_schedulable_for_partition_def word_less_nat_alt word_le_nat_alt)
  then show ?thesis by (auto simp: sched_admit_def add_task_def word_le_nat_alt split: bool.splits)
qed

lemma add_task_inv:
  assumes "server_inv s" "task_ok cfg" "unat (ss_count s) < 64"
    and "part_load (ss_tasks s) (task_partition cfg) [0..<unat (ss_count s)] + load_of cfg \<le> 99"
  shows "server_inv (add_task s cfg)"
proof -
  have n: "unat (ss_count s + 1) = Suc (unat (ss_count s))" using assms(3) by (subst unat_add_lem[THEN iffD1]) simp_all
  have "part_load ((ss_tasks s)(unat (ss_count s) := cfg)) p [0..<unat (ss_count s)] = part_load (ss_tasks s) p [0..<unat (ss_count s)]" for p
    by (rule part_load_cong) simp
  then show ?thesis using assms n by (auto simp: server_inv_def add_task_def less_Suc_eq)
qed

definition admission_step :: "sched_server \<Rightarrow> bool \<times> ipc_msg_t \<Rightarrow> sched_server option" where
  "admission_step s a = map_option snd (sched_server_turn (fst a) (snd a) s)"

definition request_ok :: "bool \<times> ipc_msg_t \<Rightarrow> bool" where
  "request_ok a \<longleftrightarrow> (msg_label (snd a) = 1 \<longrightarrow> task_ok (msg_task (fst a) (snd a)))"

interpretation sserver: checked_machine admission_step server_inv "\<lambda>_. request_ok"
proof
  fix s a
  assume inv: "server_inv s" and ok: "request_ok a"
  show "\<exists>s1. admission_step s a = Some s1 \<and> server_inv s1"
  proof (cases "msg_label (snd a) = 1")
    case True
    then have "task_ok (msg_task (fst a) (snd a))" using ok by (simp add: request_ok_def)
    from sched_admit_eq[OF inv this] add_task_inv[OF inv this] show ?thesis
      using inv True by (auto simp: admission_step_def sched_server_turn_def)
  qed (simp add: admission_step_def sched_server_turn_def inv)
qed

text \<open>
  C30 (invariant). Admission control holds for ever: over every sequence of requests with non-zero
  periods and budgets that do not overflow the percentage, the server never leaves defined
  behaviour, never holds more than sixty-four tasks, and in every partition the utilisations of the
  admitted tasks, each in whole percent, add up to at most 99.
\<close>

theorem sched_server_capacity:
  assumes "server_inv s0" "\<forall>a\<in>set reqs. request_ok a"
  shows "\<exists>s. run_steps admission_step s0 reqs = Some s \<and> unat (ss_count s) \<le> 64 \<and>
    (\<forall>p. part_load (ss_tasks s) p [0..<unat (ss_count s)] \<le> 99)"
  using sserver.run_safe[OF assms(1) run_allowed_static[OF assms(2)]] by (auto simp: server_inv_def)

definition demo_task_msg :: ipc_msg_t where
  "demo_task_msg = zero_msg\<lparr>msg_label := 1, msg_words := (\<lambda>_. 0)(0 := 1, 2 := 500, 3 := 1000)\<rparr>"

lemma server_inv_empty: "server_inv \<lparr>ss_tasks = tasks, ss_count = 0\<rparr>"
  by (simp add: server_inv_def)

theorem sched_server_capacity_witness:
  "\<exists>s. run_steps admission_step \<lparr>ss_tasks = (\<lambda>_. msg_task False zero_msg), ss_count = 0\<rparr> [(False, demo_task_msg), (False, demo_task_msg)] = Some s \<and>
    unat (ss_count s) \<le> 64 \<and> (\<forall>p. part_load (ss_tasks s) p [0..<unat (ss_count s)] \<le> 99)"
  by (rule sched_server_capacity[OF server_inv_empty]) (simp add: request_ok_def task_ok_def msg_task_def demo_task_msg_def)

text \<open>
  (functional). A request is admitted exactly when its partition keeps its load at or below 99
  percent and the table has room; otherwise the table is unchanged and the error is returned. A
  request with a zero period is a division by zero, whoever sends it.
\<close>

theorem sched_admit_exact:
  assumes "server_inv s"
  shows "(task_ok cfg \<longrightarrow> sched_admit s cfg =
      Some (if part_load (ss_tasks s) (task_partition cfg) [0..<unat (ss_count s)] + load_of cfg \<le> 99 \<and> unat (ss_count s) < 64
            then (0, add_task s cfg) else (- 1, s))) \<and>
    (task_period cfg = 0 \<longrightarrow> sched_admit s cfg = None)"
  using sched_admit_eq[OF assms] sum_loop_inv[OF assms]
  by (auto simp: sched_admit_def is_schedulable_for_partition_def task_percent_def)

theorem sched_admit_exact_witness:
  "sched_admit \<lparr>ss_tasks = (\<lambda>_. msg_task False zero_msg), ss_count = 0\<rparr> (msg_task False demo_task_msg) =
      Some (0, add_task \<lparr>ss_tasks = (\<lambda>_. msg_task False zero_msg), ss_count = 0\<rparr> (msg_task False demo_task_msg)) \<and>
   sched_admit \<lparr>ss_tasks = (\<lambda>_. msg_task False zero_msg), ss_count = 0\<rparr> (msg_task False zero_msg) = None"
proof -
  let ?s = "\<lparr>ss_tasks = (\<lambda>_. msg_task False zero_msg), ss_count = 0\<rparr>"
  have "task_ok (msg_task False demo_task_msg)" "load_of (msg_task False demo_task_msg) = 50" "task_period (msg_task False zero_msg) = 0"
    by (simp_all add: task_ok_def load_of_def msg_task_def demo_task_msg_def zero_msg_def)
  then show ?thesis
    using sched_admit_exact[OF server_inv_empty, of "msg_task False demo_task_msg"] sched_admit_exact[OF server_inv_empty, of "msg_task False zero_msg"]
    by simp
qed

end
