(* ===== verification/VfsServer.thy ===== *)
theory VfsServer
  imports Prelude
begin

text \<open>
  The user-level file server, \<^verbatim>\<open>userspace/vfs_server/server.c\<close>: a table of files backed by frame
  capabilities and a table of open descriptors, on the hybrid (not pure-capability) branch. A string
  argument is the list of bytes it points at, terminator included; running off its end is undefined
  behaviour (\<open>None\<close>), as is running off the 32 bytes of a file name. The memory behind the frame
  capabilities is an argument of \<open>vfs_read\<close>, whose result holds the bytes copied.
\<close>

record vfs_file_t =
  vf_cap :: u32
  vf_size :: u32
  vf_used :: u32
  vf_color :: u16
  vf_name :: "u8 list"
  vf_valid :: bool

record vfs_fd_t =
  fd_file_id :: u32
  fd_offset :: u32
  fd_rights :: u32
  fd_valid :: bool

abbreviation (input) MAX_FILES :: nat where "MAX_FILES \<equiv> 64"
abbreviation (input) MAX_FD :: nat where "MAX_FD \<equiv> 32"

record vfs_t =
  v_files :: "vfs_file_t arr"
  v_fds :: "vfs_fd_t arr"

definition frame_cap_is_valid :: "u32 \<Rightarrow> u64 \<Rightarrow> bool" where
  "frame_cap_is_valid cptr len \<longleftrightarrow> cptr \<noteq> 0 \<and> len < 0x100000"

text \<open>The library's \<^verbatim>\<open>strncpy\<close> and the test \<^verbatim>\<open>strcmp(a, b) == 0\<close>.\<close>

fun strncpy :: "nat \<Rightarrow> u8 list \<Rightarrow> u8 list option" where
  "strncpy 0 src = Some []"
| "strncpy (Suc n) [] = None"
| "strncpy (Suc n) (c # cs) = (if c = 0 then Some (replicate (Suc n) 0) else map_option (\<lambda>r. c # r) (strncpy n cs))"

fun strcmp_eq :: "u8 list \<Rightarrow> u8 list \<Rightarrow> bool option" where
  "strcmp_eq (a # as) (b # bs) = (if a \<noteq> b then Some False else if a = 0 then Some True else strcmp_eq as bs)"
| "strcmp_eq _ _ = None"

definition vfs_create :: "vfs_t \<Rightarrow> u8 list \<Rightarrow> u32 \<Rightarrow> u32 \<Rightarrow> u16 \<Rightarrow> (int \<times> vfs_t) option" where
  "vfs_create v name cap sz color =
     (case first_index MAX_FILES (\<lambda>i. \<not> vf_valid (v_files v i)) of
        None \<Rightarrow> Some (- 1, v)
      | Some i \<Rightarrow>
          if \<not> frame_cap_is_valid cap (ucast sz) then Some (- 1, v)
          else map_option (\<lambda>nm. (0, v\<lparr>v_files := (v_files v)(i :=
                 \<lparr>vf_cap = cap, vf_size = sz, vf_used = 0, vf_color = color, vf_name = nm, vf_valid = True\<rparr>)\<rparr>))
                 (strncpy 32 name))"

text \<open>The loop over the files, with the indices still to be tried.\<close>

fun open_loop :: "vfs_t \<Rightarrow> u8 list \<Rightarrow> u32 \<Rightarrow> nat list \<Rightarrow> (int \<times> vfs_t) option" where
  "open_loop v name rights [] = Some (- 1, v)"
| "open_loop v name rights (i # is) =
     (if \<not> vf_valid (v_files v i) then open_loop v name rights is
      else (case strcmp_eq (vf_name (v_files v i)) name of
         None \<Rightarrow> None
       | Some False \<Rightarrow> open_loop v name rights is
       | Some True \<Rightarrow>
           (case first_index MAX_FD (\<lambda>fd. \<not> fd_valid (v_fds v fd)) of
              None \<Rightarrow> open_loop v name rights is
            | Some fd \<Rightarrow> Some (int fd, v\<lparr>v_fds := (v_fds v)(fd :=
                \<lparr>fd_file_id = of_nat i, fd_offset = 0, fd_rights = rights, fd_valid = True\<rparr>)\<rparr>))))"

definition vfs_open :: "vfs_t \<Rightarrow> u8 list \<Rightarrow> u32 \<Rightarrow> (int \<times> vfs_t) option" where
  "vfs_open v name rights = open_loop v name rights [0..<MAX_FILES]"

text \<open>The bytes copied to the caller's buffer, \<open>None\<close> inside for the return code \<open>-1\<close>.\<close>

definition vfs_read :: "(u64 \<Rightarrow> u8) \<Rightarrow> vfs_t \<Rightarrow> int \<Rightarrow> u64 \<Rightarrow> (u8 list option \<times> vfs_t) option" where
  "vfs_read m v fd len0 =
     (if fd < 0 \<or> fd \<ge> 32 \<or> \<not> fd_valid (v_fds v (nat fd)) then Some (None, v)
      else
        let d = v_fds v (nat fd);
            f = v_files v (unat (fd_file_id d)) in
        if unat (fd_file_id d) \<ge> MAX_FILES then None
        else
          let len = (if ucast (fd_offset d) + len0 > (ucast (vf_used f) :: u64) then ucast (vf_used f - fd_offset d) else len0) in
          if \<not> frame_cap_is_valid (vf_cap f) len then Some (None, v)
          else if ucast (fd_offset d) + len > (ucast (vf_size f) :: u64) then Some (None, v)
          else Some (Some (map (\<lambda>k. m (ucast (vf_cap f) + ucast (fd_offset d) + of_nat k)) [0..<unat len]),
                 v\<lparr>v_fds := (v_fds v)(nat fd := d\<lparr>fd_offset := ucast (ucast (fd_offset d) + len :: u64)\<rparr>)\<rparr>))"

text \<open>The bytes of four message words, least significant byte first.\<close>

definition word_bytes :: "u64 \<Rightarrow> u8 list" where
  "word_bytes w = map (\<lambda>k. ucast (drop_bit (8 * k) w)) [0..<8]"

definition msg_name :: "ipc_msg_t \<Rightarrow> u8 list" where
  "msg_name msg = concat (map (\<lambda>k. word_bytes (msg_words msg k)) [0..<4])"

text \<open>One turn of \<^verbatim>\<open>vfs_server_run\<close>: a message received, the reply sent.\<close>

definition vfs_server_turn :: "ipc_msg_t \<Rightarrow> vfs_t \<Rightarrow> (ipc_msg_t option \<times> vfs_t) option" where
  "vfs_server_turn msg v =
     (if msg_label msg = 1 then
        map_option (\<lambda>(fd, v1). (Some (msg\<lparr>msg_words := (msg_words msg)(0 := of_int fd), msg_length := 1\<rparr>), v1))
          (vfs_open v (msg_name msg) (ucast (msg_words msg 4)))
      else if msg_label msg = 2 then
        Some (Some (msg\<lparr>msg_words := (msg_words msg)(0 := msg_words msg 1), msg_length := 1\<rparr>), v)
      else if msg_label msg = 3 then
        map_option (\<lambda>(_, v1). (Some (msg\<lparr>msg_words := (msg_words msg)(0 := 0), msg_length := 1\<rparr>), v1))
          (vfs_create v (msg_name msg) (msg_cap_ptrs msg 0) (ucast (msg_words msg 4)) (ucast (msg_words msg 5)))
      else Some (None, v))"

subsection \<open>Names\<close>

text \<open>A proper name: no zero byte and shorter than the array; it is stored padded with zeros.\<close>

definition proper :: "u8 list \<Rightarrow> bool" where
  "proper s \<longleftrightarrow> 0 \<notin> set s \<and> length s < 32"

definition padded :: "u8 list \<Rightarrow> u8 list" where
  "padded s = s @ replicate (32 - length s) 0"

lemma strncpy_cstr: "0 \<notin> set s \<Longrightarrow> length s < n \<Longrightarrow> strncpy n (s @ 0 # rest) = Some (s @ replicate (n - length s) 0)"
proof (induction s arbitrary: n)
  case Nil
  then show ?case by (cases n) simp_all
next
  case (Cons c s)
  then show ?case by (cases n) auto
qed

text \<open>The string a name array holds: up to its first zero byte, or all of it when it has none.\<close>

definition cstr :: "u8 list \<Rightarrow> u8 list" where
  "cstr nm = takeWhile (\<lambda>c. c \<noteq> 0) nm"

text \<open>
  Comparing with a terminated string shorter than the array never runs off the array, terminated or not.
\<close>

lemma strcmp_cstr:
  "0 \<notin> set s \<Longrightarrow> length s < length nm \<Longrightarrow> strcmp_eq nm (s @ 0 # rest) = Some (cstr nm = s)"
proof (induction s arbitrary: nm)
  case Nil
  then show ?case by (cases nm) (auto simp: cstr_def)
next
  case (Cons c s)
  then show ?case by (cases nm) (auto simp: cstr_def)
qed

lemma cstr_padded: "proper s \<Longrightarrow> cstr (padded s) = s"
proof -
  assume s: "proper s"
  then have "takeWhile (\<lambda>c. c \<noteq> 0) (s @ replicate (32 - length s) 0) = s @ takeWhile (\<lambda>c. c \<noteq> 0) (replicate (32 - length s) 0)"
    by (intro takeWhile_append2) (auto simp: proper_def)
  then show ?thesis by (simp add: cstr_def padded_def takeWhile_replicate)
qed

lemma length_padded [simp]: "proper s \<Longrightarrow> length (padded s) = 32"
  by (simp add: padded_def proper_def)

definition names_sized :: "vfs_t \<Rightarrow> bool" where
  "names_sized v \<longleftrightarrow> (\<forall>i. length (vf_name (v_files v i)) = 32)"

definition has_name :: "vfs_t \<Rightarrow> u8 list \<Rightarrow> nat \<Rightarrow> bool" where
  "has_name v s i \<longleftrightarrow> vf_valid (v_files v i) \<and> cstr (vf_name (v_files v i)) = s"

lemma open_loop_skip:
  assumes "names_sized v" "proper s" "\<forall>i\<in>set is. \<not> has_name v s i"
  shows "open_loop v (s @ 0 # rest) rights (is @ js) = open_loop v (s @ 0 # rest) rights js"
  using assms(3)
proof (induction "is")
  case (Cons i "is")
  have "strcmp_eq (vf_name (v_files v i)) (s @ 0 # rest) = Some (cstr (vf_name (v_files v i)) = s)"
    using assms(1,2) by (intro strcmp_cstr) (auto simp: proper_def names_sized_def)
  then show ?case using Cons by (auto simp: has_name_def)
qed simp

lemma strncpy_length: "strncpy n src = Some nm \<Longrightarrow> length nm = n"
  by (induction n src arbitrary: nm rule: strncpy.induct) (auto split: if_splits)

text \<open>Every operation of the server keeps the names arrays of their size, whatever name a client sends.\<close>

lemma open_loop_files: "open_loop v name rights is = Some (fd, v') \<Longrightarrow> v_files v' = v_files v"
  by (induction "is") (auto split: if_splits option.splits bool.splits)

lemma vfs_server_turn_sized:
  assumes "names_sized v" "vfs_server_turn msg v = Some (reply, v')"
  shows "names_sized v'"
proof -
  have "names_sized v1" if "vfs_create v nm c sz col = Some (r, v1)" for nm c sz col r v1
    using that assms(1) strncpy_length by (auto simp: vfs_create_def names_sized_def split: option.splits if_splits)
  moreover have "names_sized v1" if "vfs_open v nm rights = Some (fd, v1)" for nm rights fd v1
    using that assms(1) open_loop_files by (simp add: vfs_open_def names_sized_def)
  ultimately show ?thesis using assms by (auto simp: vfs_server_turn_def split: if_splits)
qed

text \<open>
  C32 (roundtrip). A created file can be opened: if the server has a free file and a free descriptor,
  the frame capability is usable and no file has the name yet, then creating a file under a name of
  fewer than 32 bytes succeeds, and opening that name yields a descriptor at offset zero, with the
  rights asked for, of a file with exactly the capability and size given at creation. The names stored
  already are arrays of 32 bytes with any content, unterminated ones included, and the bytes after the
  terminators of the two arguments are arbitrary.
\<close>

theorem vfs_create_open:
  assumes "names_sized v" "proper s" "\<forall>i<MAX_FILES. \<not> has_name v s i"
    and "\<exists>i<MAX_FILES. \<not> vf_valid (v_files v i)" "\<exists>fd<MAX_FD. \<not> fd_valid (v_fds v fd)" "frame_cap_is_valid cap (ucast sz)"
  shows "\<exists>v1 fd v2. vfs_create v (s @ 0 # pad) cap sz color = Some (0, v1) \<and> vfs_open v1 (s @ 0 # pad') rights = Some (int fd, v2) \<and>
    fd < MAX_FD \<and> fd_valid (v_fds v2 fd) \<and> fd_offset (v_fds v2 fd) = 0 \<and> fd_rights (v_fds v2 fd) = rights \<and>
    vf_cap (v_files v2 (unat (fd_file_id (v_fds v2 fd)))) = cap \<and> vf_size (v_files v2 (unat (fd_file_id (v_fds v2 fd)))) = sz"
proof -
  obtain i where i: "first_index MAX_FILES (\<lambda>i. \<not> vf_valid (v_files v i)) = Some i"
    using assms(4) first_index_None_iff[of MAX_FILES] by (metis not_None_eq)
  then have i64: "i < MAX_FILES" by (simp add: first_index_Some_iff)
  obtain fd where fd: "first_index MAX_FD (\<lambda>fd. \<not> fd_valid (v_fds v fd)) = Some fd" "fd < MAX_FD"
    using assms(5) first_index_None_iff[of MAX_FD] first_index_Some_iff[of MAX_FD] by (metis not_None_eq)
  let ?f = "\<lparr>vf_cap = cap, vf_size = sz, vf_used = 0, vf_color = color, vf_name = padded s, vf_valid = True\<rparr>"
  let ?v1 = "v\<lparr>v_files := (v_files v)(i := ?f)\<rparr>"
  have c: "vfs_create v (s @ 0 # pad) cap sz color = Some (0, ?v1)"
    using i assms(2,6) strncpy_cstr[of s 32 pad] by (simp add: vfs_create_def proper_def padded_def)
  have ok1: "names_sized ?v1" using assms(1,2) by (auto simp: names_sized_def)
  have split: "[0..<MAX_FILES] = [0..<i] @ i # [Suc i..<MAX_FILES]"
    using upt_add_eq_append[of 0 i "64 - i"] upt_conv_Cons[of i 64] i64 by simp
  have "\<forall>j\<in>set [0..<i]. \<not> has_name ?v1 s j" using assms(3) i64 by (auto simp: has_name_def)
  then have "vfs_open ?v1 (s @ 0 # pad') rights = open_loop ?v1 (s @ 0 # pad') rights (i # [Suc i..<MAX_FILES])"
    unfolding vfs_open_def split by (rule open_loop_skip[OF ok1 assms(2)])
  also have "\<dots> = Some (int fd, ?v1\<lparr>v_fds := (v_fds v)(fd := \<lparr>fd_file_id = of_nat i, fd_offset = 0, fd_rights = rights, fd_valid = True\<rparr>)\<rparr>)"
    using strcmp_cstr[of s "padded s" pad'] assms(2) fd(1) by (simp add: cstr_padded proper_def)
  finally show ?thesis using c fd(2) i64 by (simp add: unat_of_nat)
qed

subsection \<open>Reads\<close>

text \<open>
  (bounds). A read stays inside the file: from a descriptor whose offset is at most the file's used
  length, a successful read of any requested length returns at most that many bytes, all from below
  the used length and below the size of the frame, and moves the offset by exactly their number.
\<close>

theorem vfs_read_within_file:
  assumes "vfs_read m v fd len = Some (Some bytes, v1)"
    and "fd_offset (v_fds v (nat fd)) \<le> vf_used (v_files v (unat (fd_file_id (v_fds v (nat fd)))))"
  shows "length bytes \<le> unat len \<and>
    unat (fd_offset (v_fds v (nat fd))) + length bytes \<le> unat (vf_used (v_files v (unat (fd_file_id (v_fds v (nat fd)))))) \<and>
    unat (fd_offset (v_fds v (nat fd))) + length bytes \<le> unat (vf_size (v_files v (unat (fd_file_id (v_fds v (nat fd)))))) \<and>
    unat (fd_offset (v_fds v1 (nat fd))) = unat (fd_offset (v_fds v (nat fd))) + length bytes"
proof -
  let ?d = "v_fds v (nat fd)" let ?f = "v_files v (unat (fd_file_id ?d))"
  let ?o = "ucast (fd_offset ?d) :: u64" and ?u = "ucast (vf_used ?f) :: u64" and ?z = "ucast (vf_size ?f) :: u64"
  let ?len = "if ?o + len > ?u then ucast (vf_used ?f - fd_offset ?d) else len"
  have r: "frame_cap_is_valid (vf_cap ?f) ?len" "\<not> ?o + ?len > ?z" "length bytes = unat ?len"
      "v1 = v\<lparr>v_fds := (v_fds v)(nat fd := ?d\<lparr>fd_offset := ucast (?o + ?len)\<rparr>)\<rparr>"
    using assms(1) by (auto simp: vfs_read_def Let_def split: if_splits)
  have u: "unat ?o = unat (fd_offset ?d)" "unat ?u = unat (vf_used ?f)" "unat ?z = unat (vf_size ?f)" by (simp_all add: unat_ucast_up)
  have lt: "unat (fd_offset ?d) < 2 ^ 32" "unat (vf_used ?f) < 2 ^ 32" "unat (vf_size ?f) < 2 ^ 32"
    using unsigned_less[of "fd_offset ?d", where ?'a = nat] unsigned_less[of "vf_used ?f", where ?'a = nat]
      unsigned_less[of "vf_size ?f", where ?'a = nat] by simp_all
  have l: "unat ?len < 0x100000" using r(1) by (simp add: frame_cap_is_valid_def word_less_nat_alt)
  have sum: "unat (?o + ?len) = unat (fd_offset ?d) + unat ?len" using lt(1) l u(1) by (subst unat_add_lem[THEN iffD1]) simp_all
  then have sz: "unat (fd_offset ?d) + unat ?len \<le> unat (vf_size ?f)" using r(2) u(3) by (simp only: word_less_nat_alt not_less)
  have cut: "unat (ucast (vf_used ?f - fd_offset ?d) :: u64) = unat (vf_used ?f) - unat (fd_offset ?d)"
    using assms(2) by (simp add: unat_ucast_up unat_sub word_le_nat_alt)
  have le: "unat ?len \<le> unat len \<and> unat (fd_offset ?d) + unat ?len \<le> unat (vf_used ?f)"
  proof (cases "?o + len > ?u")
    case True
    have "unat (?o + len) \<le> unat ?o + unat len" by (simp only: unat_word_ariths(1) mod_less_eq_dividend)
    then have "unat (vf_used ?f) < unat (fd_offset ?d) + unat len" using u True by (simp add: word_less_nat_alt)
    then show ?thesis using True cut assms(2) unfolding word_le_nat_alt by (simp only: if_True) linarith
  next
    case False
    then show ?thesis using sum u(2) by (simp add: word_less_nat_alt not_less)
  qed
  have "unat (ucast (?o + ?len) :: u32) = unat (?o + ?len)"
    using sum sz lt(3) by (simp only: unsigned_ucast_eq) (simp add: take_bit_nat_eq_self)
  then show ?thesis using le sz sum r(3,4) by simp
qed

definition empty_vfs :: vfs_t where
  "empty_vfs = \<lparr>v_files = (\<lambda>_. \<lparr>vf_cap = 0, vf_size = 0, vf_used = 0, vf_color = 0, vf_name = replicate 32 0, vf_valid = False\<rparr>),
     v_fds = (\<lambda>_. \<lparr>fd_file_id = 0, fd_offset = 0, fd_rights = 0, fd_valid = False\<rparr>)\<rparr>"

text \<open>A file table whose first file has a name without terminator.\<close>

definition crowded_vfs :: vfs_t where
  "crowded_vfs = empty_vfs\<lparr>v_files := (v_files empty_vfs)(0 := \<lparr>vf_cap = 5, vf_size = 1, vf_used = 0, vf_color = 0,
     vf_name = replicate 32 116, vf_valid = True\<rparr>)\<rparr>"

theorem vfs_create_open_witness:
  "\<exists>v1 fd v2. vfs_create crowded_vfs ([116, 120] @ 0 # [9]) 0x1000 4096 0 = Some (0, v1) \<and> vfs_open v1 ([116, 120] @ 0 # []) 3 = Some (int fd, v2) \<and>
    fd < MAX_FD \<and> fd_valid (v_fds v2 fd) \<and> fd_offset (v_fds v2 fd) = 0 \<and> fd_rights (v_fds v2 fd) = 3 \<and>
    vf_cap (v_files v2 (unat (fd_file_id (v_fds v2 fd)))) = 0x1000 \<and> vf_size (v_files v2 (unat (fd_file_id (v_fds v2 fd)))) = 4096"
proof (rule vfs_create_open)
  show "\<forall>i<MAX_FILES. \<not> has_name crowded_vfs [116, 120] i"
    by (simp add: has_name_def crowded_vfs_def empty_vfs_def cstr_def) (simp add: numeral_eq_Suc)
  show "\<exists>i<MAX_FILES. \<not> vf_valid (v_files crowded_vfs i)" by (rule exI[of _ 1]) (simp add: crowded_vfs_def empty_vfs_def)
qed (auto simp: names_sized_def crowded_vfs_def empty_vfs_def proper_def frame_cap_is_valid_def intro: exI[of _ 0])

definition demo_vfs :: vfs_t where
  "demo_vfs = \<lparr>v_files = (\<lambda>_. \<lparr>vf_cap = 0x1000, vf_size = 4096, vf_used = 5, vf_color = 0, vf_name = replicate 32 0, vf_valid = True\<rparr>),
     v_fds = (\<lambda>_. \<lparr>fd_file_id = 0, fd_offset = 2, fd_rights = 3, fd_valid = True\<rparr>)\<rparr>"

theorem vfs_read_within_file_witness:
  "\<exists>bytes v1. vfs_read (\<lambda>_. 7) demo_vfs 0 100 = Some (Some bytes, v1) \<and> length bytes \<le> 100 \<and> 2 + length bytes \<le> 5 \<and>
     unat (fd_offset (v_fds v1 0)) = 2 + length bytes"
proof -
  have "\<exists>bytes v1. vfs_read (\<lambda>_. 7) demo_vfs 0 100 = Some (Some bytes, v1)"
    by (simp add: vfs_read_def demo_vfs_def frame_cap_is_valid_def Let_def)
  then obtain bytes v1 where r: "vfs_read (\<lambda>_. 7) demo_vfs 0 100 = Some (Some bytes, v1)" by blast
  show ?thesis using r vfs_read_within_file[OF r] by (simp add: demo_vfs_def)
qed

subsection \<open>The server at work\<close>

datatype vfs_op = Vfs_create "u8 list" u32 u32 u16 | Vfs_open "u8 list" u32 | Vfs_read "u64 \<Rightarrow> u8" int u64

fun vfs_step :: "vfs_t \<Rightarrow> vfs_op \<Rightarrow> vfs_t option" where
  "vfs_step v (Vfs_create name cap sz color) = map_option snd (vfs_create v name cap sz color)"
| "vfs_step v (Vfs_open name rights) = map_option snd (vfs_open v name rights)"
| "vfs_step v (Vfs_read m fd len) = map_option snd (vfs_read m v fd len)"

definition vfs_inv :: "vfs_t \<Rightarrow> bool" where
  "vfs_inv v \<longleftrightarrow> (\<forall>i<MAX_FILES. vf_used (v_files v i) = 0) \<and>
     (\<forall>fd<MAX_FD. fd_valid (v_fds v fd) \<longrightarrow> unat (fd_file_id (v_fds v fd)) < MAX_FILES \<and> fd_offset (v_fds v fd) = 0)"

lemma create_inv: "vfs_inv v \<Longrightarrow> vfs_create v name cap sz color = Some (e, v1) \<Longrightarrow> vfs_inv v1"
  by (auto simp: vfs_create_def vfs_inv_def split: option.splits if_splits)

lemma open_loop_inv:
  "vfs_inv v \<Longrightarrow> \<forall>i\<in>set is. i < MAX_FILES \<Longrightarrow> open_loop v name rights is = Some (e, v1) \<Longrightarrow> vfs_inv v1"
proof (induction "is")
  case (Cons i "is")
  have "unat (of_nat i :: u32) = i" using Cons.prems(2) by (simp add: unat_of_nat)
  then show ?case using Cons by (auto simp: vfs_inv_def split: if_splits option.splits bool.splits)
qed simp

lemma read_empty:
  assumes "vfs_inv v" "vfs_read m v fd len = Some (r, v1)"
  shows "(r = None \<or> r = Some []) \<and> vfs_inv v1"
proof (cases "fd < 0 \<or> fd \<ge> 32 \<or> \<not> fd_valid (v_fds v (nat fd))")
  case True
  then show ?thesis using assms by (auto simp: vfs_read_def)
next
  case False
  then have "nat fd < MAX_FD" by linarith
  then have d: "unat (fd_file_id (v_fds v (nat fd))) < MAX_FILES" "fd_offset (v_fds v (nat fd)) = 0"
    "vf_used (v_files v (unat (fd_file_id (v_fds v (nat fd))))) = 0" using assms(1) False by (auto simp: vfs_inv_def)
  then show ?thesis using assms False
    by (auto simp: vfs_read_def Let_def word_gt_0 vfs_inv_def split: if_splits)
qed

interpretation vfsm: partial_machine vfs_step vfs_inv
proof
  fix v a v1
  assume "vfs_inv v" "vfs_step v a = Some v1"
  note st = this
  show "vfs_inv v1"
  proof (cases a)
    case (Vfs_create name cap sz color)
    then show ?thesis using st create_inv by (auto simp del: not_None_eq)
  next
    case (Vfs_open name rights)
    then obtain e where "open_loop v name rights [0..<MAX_FILES] = Some (e, v1)" using st(2) by (auto simp: vfs_open_def)
    from open_loop_inv[OF st(1) _ this] show ?thesis by simp
  next
    case (Vfs_read m fd len)
    then show ?thesis using st read_empty by auto
  qed
qed

text \<open>
  (invariant). No file ever holds data: no operation changes the used length, so after every
  sequence of creations, opens and reads on the initial tables, a read through any descriptor
  returns an error or no bytes at all.
\<close>

theorem vfs_files_stay_empty:
  assumes "run_steps vfs_step empty_vfs ops = Some v" "vfs_read m v fd len = Some (r, v1)"
  shows "r = None \<or> r = Some []"
proof -
  have "vfs_inv empty_vfs" by (simp add: vfs_inv_def empty_vfs_def)
  from read_empty[OF vfsm.run_inv[OF assms(1) this] assms(2)] show ?thesis by blast
qed

theorem vfs_files_stay_empty_witness:
  "\<exists>v r v1. run_steps vfs_step empty_vfs [Vfs_create [116, 0] 0x1000 4096 0, Vfs_open [116, 0] 3] = Some v \<and>
     vfs_read (\<lambda>_. 7) v 0 16 = Some (r, v1) \<and> (r = None \<or> r = Some [])"
proof -
  have "\<exists>v r v1. run_steps vfs_step empty_vfs [Vfs_create [116, 0] 0x1000 4096 0, Vfs_open [116, 0] 3] = Some v \<and> vfs_read (\<lambda>_. 7) v 0 16 = Some (r, v1)"
  proof -
    have "\<not> Option.is_none (Option.bind (run_steps vfs_step empty_vfs [Vfs_create [116, 0] 0x1000 4096 0, Vfs_open [116, 0] 3])
        (\<lambda>v. vfs_read (\<lambda>_. 7) v 0 16))" by code_simp
    then show ?thesis by (auto simp: is_none_simps bind_eq_None_conv Option.is_none_def simp del: run_steps.simps)
  qed
  then show ?thesis using vfs_files_stay_empty by blast
qed

end
