(* ===== verification/Spec2Isabelle.thy ===== *)
theory Spec2Isabelle
  imports KernelTypes KernelSpec VspaceIsolation CheriPure Notification Irq NetDriver BlockDriver DisplayDriver
    Hardening Elf Dice MemServer SchedServer VfsServer
begin

text \<open>
  \<^bold>\<open>A verification development for moonlightOS\<close>, a capability microkernel for RISC-V
  written in C, with its userspace servers and drivers.

  \<^bold>\<open>The program.\<close> User threads trap into \<^verbatim>\<open>syscall_handler\<close>
  (\<^verbatim>\<open>kernel/src/syscall.c\<close>), which looks a capability up in the thread's node
  (\<^verbatim>\<open>cnode.c\<close>), checks the budget of the thread's scheduling context
  (\<^verbatim>\<open>sched.c\<close>) and either passes a message through an endpoint
  (\<^verbatim>\<open>endpoint.c\<close>) or invokes the object: retyping of untyped memory
  (\<^verbatim>\<open>cap.c\<close>), copies and mints between nodes, page-table changes
  (\<^verbatim>\<open>vspace.c\<close>, whose table pages come from the coloured bump allocator
  \<^verbatim>\<open>alloc.c\<close>), thread control (\<^verbatim>\<open>tcb.c\<close>) and revocation in the mapping
  database (\<^verbatim>\<open>revoke.c\<close>). Processes (\<^verbatim>\<open>process.c\<close>) are made of all
  of these, and \<^verbatim>\<open>kernel_boot\<close> (\<^verbatim>\<open>boot.c\<close>) sets everything up. Notifications, interrupts and IOMMU windows serve the drivers; the servers
  under \<^verbatim>\<open>userspace/\<close> hold the policies the kernel leaves out.

  \<^bold>\<open>Theories and sources.\<close>
  \<^item> \<open>Prelude\<close>: machine types, error codes and messages of \<^verbatim>\<open>types.h\<close>; arrays as
    functions on \<open>nat\<close>; the search \<open>first_index\<close>; word lemmas; the locales of the
    development.
  \<^item> \<open>Minilib\<close> (\<^verbatim>\<open>minilib.c\<close>), \<open>Capability\<close> (\<^verbatim>\<open>cap.c\<close>,
    \<^verbatim>\<open>cheri.c\<close>), \<open>CNode\<close> (\<^verbatim>\<open>cnode.c\<close>), \<open>FrameAlloc\<close>
    (\<^verbatim>\<open>alloc.c\<close>), \<open>Thread\<close> (\<^verbatim>\<open>tcb.c\<close>), \<open>Endpoint\<close>
    (\<^verbatim>\<open>endpoint.c\<close>), \<open>Notification\<close>, \<open>Irq\<close>, \<open>Iommu\<close>, \<open>Sched\<close>, \<open>Revoke\<close>,
    \<open>Vspace\<close>, \<open>Process\<close>, \<open>Elf\<close>, \<open>Hardening\<close>: one kernel source each, of the same name.
    \<open>VspaceProgress\<close>: when a map succeeds, and how many table pages it takes; \<open>VspaceIsolation\<close>:
    several address spaces over one allocator; \<open>VspaceAccess\<close>: which addresses the walks of the
    page tables dereference, and that those of a well-formed space lie in memory. \<open>CheriPure\<close>: the pure-capability branch of
    \<^verbatim>\<open>cheri.c\<close>, the copy routine apart.
  \<^item> \<open>Syscall\<close> (\<^verbatim>\<open>syscall.c\<close>): the kernel globals as one record \<open>kstate\<close>, the
    handler and every invocation; \<open>SyscallProps\<close>: the properties of the interface as a whole;
    \<open>KernelSpec\<close>: an abstract capability space and an abstract thread graph, which the handler refines.
  \<^item> \<open>Boot\<close> (\<^verbatim>\<open>boot.c\<close>, \<^verbatim>\<open>flush.c\<close>): \<^verbatim>\<open>kernel_boot\<close> as a list of stages over the
    globals, the screen and the serial line, one stage per block of the source; \<open>BootProps\<close>: total
    correctness triples for the stages, and what holds from reset on; \<open>KernelTypes\<close>: well-formedness
    of the whole kernel state, established by boot and kept by the interface.
  \<^item> \<open>VgaConsole\<close> (\<^verbatim>\<open>kernel/src/vga.c\<close>): font table, console, text routines and
    device initialisation.
  \<^item> \<open>Dice\<close> (\<^verbatim>\<open>boot/dice.c\<close>), \<open>MemServer\<close>, \<open>SchedServer\<close>, \<open>VfsServer\<close>
    (\<^verbatim>\<open>userspace/*_server/server.c\<close>), \<open>NetDriver\<close>, \<open>BlockDriver\<close>
    and \<open>DisplayDriver\<close> (\<^verbatim>\<open>userspace/drivers/\<close>).

  \<^bold>\<open>How code becomes definitions.\<close> A struct is a record with a short prefix per type, an
  enum a datatype with the source's constructors, an integer a word of its width, so that
  additions wrap where they wrap in C. An array is a function on \<open>nat\<close>; where the source
  indexes without a bounds test, the definition returns \<open>None\<close> for an index outside: in
  general \<open>None\<close> of an outer option stands for behaviour C leaves undefined (also a
  dereference of a wild or null pointer, and division by zero). Page-table memory and the rings of endpoints are
  total functions, so for these the accesses are stated apart: \<open>vspace_map_safe\<close> and its like say that every
  entry a walk reads or writes lies in the kernel's memory, \<open>endpoint_send_safe\<close> and \<open>endpoint_recv_safe\<close> that
  the ring is indexed within its bounds, and the handler and boot are undefined when they do not hold.
  A pointer argument that may be
  null is an option. A function that changes what its pointers refer to takes the objects and
  returns them; an error return carries the objects whenever the source changed them before.
  Kernel pointers in capabilities are 64-bit addresses that a \<open>layout\<close> resolves to objects.
  Nodes live in a heap, since two of them may be the same object.

  \<^bold>\<open>Loops.\<close> Bounded searches are \<open>first_index\<close> or recursion over the list of indices. The
  colour search of the allocator is \<open>while\<close> and ends after at most fifteen pages
  (\<open>alloc_color_search_ends\<close>). The sibling walks of the mapping database and its recursive
  revocation are \<open>partial_function (option)\<close>, with \<open>None\<close> for a loop that does not end, and
  \<open>mdb_run_safe\<close> and \<open>mdb_revoke_exact\<close> prove that they return on every reachable tree. No
  definition has a fuel argument. The endless loops of the servers and of the greeting thread are
  modelled by one turn, and their properties are about sequences of turns; the wait loops that
  end the error paths of boot are the outcome \<open>Halts\<close>. The wait loops of \<^verbatim>\<open>panic\<close>, of the
  stack-protector handler and of the pure-capability start are \<open>wfi_loop\<close>, a \<open>partial_function\<close> whose value
  is \<open>None\<close>: these routines never return.

  \<^bold>\<open>Interfaces.\<close> The locales of \<open>Prelude\<close> describe a component as a machine: steps that
  keep an invariant, unconditionally or for admitted operations (\<open>guarded_machine\<close>), with
  steps that may be undefined (\<open>partial_machine\<close>, \<open>checked_machine\<close>,
  \<open>guarded_partial_machine\<close>), and give the facts about runs once. Every component with a
  run property interprets one of them on its own step function; the handler does so three times,
  for the bounds of capabilities (\<open>sysm\<close>), for well-formedness (\<open>typedm\<close>) and for the threads after
  boot (\<open>frozenm\<close>), and address spaces for their isolation (\<open>vsm\<close>). A \<open>simulation\<close> relates such a machine to
  an abstract step relation through an abstraction of its state; the handler interprets it for
  capabilities (\<open>capsim\<close>) and for threads (\<open>threadsim\<close>). \<open>cheri_view\<close> states what the compiler
  intrinsics document, interpreted on the simulated capabilities.

  \<^bold>\<open>What is shown.\<close>
  \<^item> Boot: from the zeroed data segment, over any memory contents and PCI devices, boot executes
    nothing undefined, enters no error loop and parks with every component's invariant established.
    From there on, no system calls give any capability beyond the user region, and the state stays
    well formed as long as memory is not retyped into kernel objects. Two faults of the sequence are
    theorems: stack pointers outside the stacks, and processes without a capability space, which no
    communication ever reaches.
  \<^item> Type safety: in a well-formed state the handler executes nothing undefined and returns. Well-formed means that
    capabilities point at objects of their kinds, rings and messages are within their bounds, address
    spaces are disjoint trees of tables in memory and guards are narrower than the word they are taken from.
  \<^item> Authority: rights only shrink through derivations and node operations; everything a
    sequence of system calls makes lies in the memory it started from; a call that changes
    the kernel was mediated by a capability and a budget. Two exceptions of the code are
    theorems: the fall-back to the root node, and untyped memory that is not used up.
  \<^item> Refinement: every sequence of system calls is a run of two abstract machines, the capability space with
    the authority each of its steps takes, and the graph of thread states, in which only callers block; so
    states without capabilities to nodes or untyped memory never change their capabilities, and no thread
    ever waits to send. A failed call changes nothing, but for the tables a failed map has added.
  \<^item> Memory: frames are disjoint, of the partition's colour and inside the pool; page tables
    refine a partial map from pages to entries, and a map succeeds when the pool has room for the
    tables that are missing; address spaces made and changed in any order stay isolated from each
    other; DMA stays within the windows an
    IOMMU capability covers, for the kernel and for the network driver on top of it.
  \<^item> Time: windows of partitions are disjoint and inside the major frame; the tick and the
    choice of the next thread are exact; so is the schedulability test with respect to the
    percentages it computes.
  \<^item> Communication: endpoints are queues in order, as long as no message is sent into a
    hand-off; a message sent through the interface is received word for word; a caller is never
    answered.
  \<^item> Revocation: exactly the descendants disappear; destruction of a process leaves no trace of
    its thread in the endpoints or the table.
  \<^item> Userspace: the memory server grants no region twice, the scheduling server keeps the load of
    each partition below its bound, a created file can be opened, the ELF loader returns
    what the file says, printing never leaves the framebuffer.

  \<^bold>\<open>Parameters.\<close> \<^verbatim>\<open>sha256\<close> and \<^verbatim>\<open>moonlight_retype\<close> have no definition in the
  repository and are arguments of the definitions that call them. The time and cycle
  counters, the contents of device registers and of PCI configuration space are arguments.

  \<^bold>\<open>Not modelled.\<close> The x86-64 branches of the sources; the copy routine of the pure-capability branch, which
  makes a pointer of an integer, and the hardware traps of such a build; the assembly entry code
  \<^verbatim>\<open>start.S\<close> and \<^verbatim>\<open>trap.S\<close>; the serial output of \<^verbatim>\<open>vga.c\<close>; the microarchitectural
  flush, whose effect is not visible in the state of the model; the harness of the model checker
  (\<^verbatim>\<open>cbmc_harness.c\<close>), which runs the kernel on uninitialised objects; the example program, the tests and the tools.
\<close>

end
